(* ===== verification/Prelude.thy ===== *)
theory Prelude
  imports Complex_Main "HOL-Library.AList" "HOL-Library.Sublist" "HOL-Library.State_Monad"
    "HOL-Library.Multiset"
begin

text \<open>
  Shared vocabulary of the development.

  \<^item> \<open>gval\<close>: the values a Go \<open>interface{}\<close> holds in this program (decoded JSON, raw byte
    slices and values of a static type the code only type-switches on).
  \<^item> \<open>'a res\<close>: Go's \<open>(value, error)\<close> results; the left summand is the error's text, because
    the coordinator inspects that text.
  \<^item> \<open>smap\<close>: a Go map with string keys as an association list without duplicate keys. Go
    leaves the iteration order of a map open, so every \<open>range\<close> over a map whose order can
    be observed takes the order from a parameter \<open>ord\<close> (\<open>range_map\<close>).
  \<^item> the string functions of the standard library that the sources call, on byte strings;
  \<^item> the state monad's run rules and the \<open>for\<close> loop over a slice.
\<close>

named_theorems run_simps \<open>evaluation of the state-monad operations\<close>

section \<open>Go values and results\<close>

datatype gval =
    GNil
  | GBool bool
  | GNum rat
  | GStr string
  | GRaw gval \<comment> \<open>a \<open>[]byte\<close> that holds the JSON text of the document\<close>
  | GArr "gval list"
  | GObj "(string \<times> gval) list"
  | GOther string \<comment> \<open>a value of some other static Go type, named by the string\<close>

type_synonym 'a res = "string + 'a"

type_synonym 'v smap = "(string \<times> 'v) list"

text \<open>Type assertions \<open>v.(string)\<close>, \<open>v.(float64)\<close>, \<open>v.(map[string]interface{})\<close>,
  \<open>v.([]interface{})\<close> with the comma-ok form.\<close>

fun as_string :: "gval \<Rightarrow> string option" where
  "as_string (GStr s) = Some s"
| "as_string _ = None"

fun as_num :: "gval \<Rightarrow> rat option" where
  "as_num (GNum x) = Some x"
| "as_num _ = None"

fun as_obj :: "gval \<Rightarrow> gval smap option" where
  "as_obj (GObj m) = Some m"
| "as_obj _ = None"

fun as_arr :: "gval \<Rightarrow> gval list option" where
  "as_arr (GArr xs) = Some xs"
| "as_arr _ = None"

text \<open>\<open>if bytes, ok := v.([]byte); ok { json.Unmarshal(bytes, &v) }\<close>.\<close>

fun unmarshal :: "gval \<Rightarrow> gval" where
  "unmarshal (GRaw d) = d"
| "unmarshal v = v"

text \<open>Indexing a map: an absent key reads as the nil interface value.\<close>

definition mget :: "gval smap \<Rightarrow> string \<Rightarrow> gval" where
  "mget m k = (case map_of m k of Some v \<Rightarrow> v | None \<Rightarrow> GNil)"

text \<open>\<open>int(x)\<close> of a float64: truncation towards zero; outside the range of int64 the
  conversion yields the least int64, as amd64 does.\<close>

definition go_int :: "rat \<Rightarrow> int" where
  "go_int x =
     (let t = (if x < 0 then - \<lfloor>- x\<rfloor> else \<lfloor>x\<rfloor>)
      in if - (2 ^ 63) \<le> t \<and> t < 2 ^ 63 then t else - (2 ^ 63))"

lemma go_int_small: "0 \<le> x \<Longrightarrow> x < 2 ^ 63 \<Longrightarrow> go_int x = \<lfloor>x\<rfloor>"
  by (simp add: go_int_def Let_def floor_less_iff)

section \<open>Go maps\<close>

definition range_map :: "(string \<Rightarrow> string list \<Rightarrow> string list) \<Rightarrow> string \<Rightarrow> 'v smap \<Rightarrow> 'v smap" where
  "range_map ord lbl m = List.map_filter (\<lambda>k. map_option (Pair k) (map_of m k)) (ord lbl (map fst m))"

text \<open>What the language promises about the order: every key is visited exactly once.\<close>

definition perm_order :: "(string \<Rightarrow> string list \<Rightarrow> string list) \<Rightarrow> bool" where
  "perm_order ord \<longleftrightarrow> (\<forall>lbl ks. mset (ord lbl ks) = mset ks)"

lemma perm_order_id [simp]: "perm_order (\<lambda>lbl ks. ks)"
  by (simp add: perm_order_def)

lemma perm_order_rev [simp]: "perm_order (\<lambda>lbl ks. rev ks)"
  by (simp add: perm_order_def)

lemma perm_order_set: "perm_order ord \<Longrightarrow> set (ord lbl ks) = set ks"
  by (metis perm_order_def set_mset_mset)

lemma perm_order_distinct: "perm_order ord \<Longrightarrow> distinct (ord lbl ks) = distinct ks"
  by (metis perm_order_def mset_eq_imp_distinct_iff)

lemma perm_order_length: "perm_order ord \<Longrightarrow> length (ord lbl ks) = length ks"
  by (metis perm_order_def size_mset)

lemma in_map_filter: "y \<in> set (List.map_filter f xs) \<longleftrightarrow> (\<exists>x \<in> set xs. f x = Some y)"
  by (induction xs) (auto simp: List.map_filter_simps split: option.splits)

lemma set_range_map:
  assumes "perm_order ord" and "distinct (map fst m)"
  shows "set (range_map ord lbl m) = set m"
proof -
  have "p \<in> set (range_map ord lbl m) \<longleftrightarrow> p \<in> set m" for p
    using assms
    by (cases p) (auto simp: range_map_def in_map_filter perm_order_set map_of_eq_Some_iff image_iff Bex_def)
  then show ?thesis by blast
qed

text \<open>Reading a map of slices (an absent key reads as the nil slice), and
  \<open>m[k] = append(m[k], v)\<close>.\<close>

definition mslice :: "'v list smap \<Rightarrow> string \<Rightarrow> 'v list" where
  "mslice m k = (case map_of m k of None \<Rightarrow> [] | Some xs \<Rightarrow> xs)"

definition multi_add :: "string \<Rightarrow> 'v \<Rightarrow> 'v list smap \<Rightarrow> 'v list smap" where
  "multi_add k v m = AList.update k (mslice m k @ [v]) m"

lemma mslice_Nil [simp]: "mslice [] k = []"
  by (simp add: mslice_def)

lemma mslice_multi_add: "mslice (multi_add k v m) k' = mslice m k' @ (if k' = k then [v] else [])"
  by (simp add: mslice_def multi_add_def update_conv')

lemma mslice_in:
  assumes "distinct (map fst m)"
  shows "(\<Union>(k, xs) \<in> set m. set xs) = (\<Union>k. set (mslice m k))"
proof (intro set_eqI iffI)
  fix x
  assume "x \<in> (\<Union>(k, xs) \<in> set m. set xs)"
  then obtain k xs where "(k, xs) \<in> set m" "x \<in> set xs" by auto
  with assms have "x \<in> set (mslice m k)" by (simp add: mslice_def)
  then show "x \<in> (\<Union>k. set (mslice m k))" by blast
next
  fix x
  assume "x \<in> (\<Union>k. set (mslice m k))"
  then obtain k where k: "x \<in> set (mslice m k)" by blast
  then obtain xs where "map_of m k = Some xs" "x \<in> set xs"
    by (cases "map_of m k") (simp_all add: mslice_def)
  then show "x \<in> (\<Union>(k, xs) \<in> set m. set xs)" by (fastforce dest: map_of_SomeD)
qed

lemma distinct_multi_add: "distinct (map fst m) \<Longrightarrow> distinct (map fst (multi_add k v m))"
  by (simp add: multi_add_def distinct_update)

lemma map_of_map_entry:
  "map_of (AList.map_entry k f m) = (map_of m)(k := map_option f (map_of m k))"
  by (induction m) (auto simp: fun_eq_iff)

lemma keys_map_entry [simp]: "map fst (AList.map_entry k f m) = map fst m"
  by (induction m) auto

lemma map_of_map_values: "map_of (map (\<lambda>(k, v). (k, f v)) m) k = map_option f (map_of m k)"
  by (induction m) auto

lemma keys_map_values [simp]: "map fst (map (\<lambda>(k, v). (k, f v)) m) = map fst m"
  by (induction m) auto

lemma in_set_map_of: "distinct (map fst m) \<Longrightarrow> (k, v) \<in> set m \<longleftrightarrow> map_of m k = Some v"
  by (simp add: map_of_eq_Some_iff)

section \<open>Strings\<close>

text \<open>\<open>strings.HasPrefix\<close>, \<open>strings.Contains\<close>, \<open>strings.TrimPrefix\<close>.\<close>

definition HasPrefix :: "string \<Rightarrow> string \<Rightarrow> bool" where
  "HasPrefix s p = prefix p s"

definition Contains :: "string \<Rightarrow> string \<Rightarrow> bool" where
  "Contains s t = sublist t s"

definition TrimPrefix :: "string \<Rightarrow> string \<Rightarrow> string" where
  "TrimPrefix s p = (if prefix p s then drop (length p) s else s)"

text \<open>\<open>strings.Split(s, sep)\<close> for a one-byte separator.\<close>

fun split_on :: "char \<Rightarrow> string \<Rightarrow> string list" where
  "split_on c [] = [[]]"
| "split_on c (x # xs) =
     (if x = c then [] # split_on c xs
      else (case split_on c xs of [] \<Rightarrow> [[x]] | p # ps \<Rightarrow> (x # p) # ps))"

lemma split_on_nonempty [simp]: "split_on c s \<noteq> []"
  by (induction s) (auto split: list.splits)

lemma split_on_none: "c \<notin> set s \<Longrightarrow> split_on c s = [s]"
  by (induction s) auto

lemma split_on_append: "c \<notin> set p \<Longrightarrow> split_on c (p @ c # s) = p # split_on c s"
  by (induction p) auto

text \<open>\<open>strings.ToLower\<close> on ASCII bytes; other bytes are left alone.\<close>

definition char_lower :: "char \<Rightarrow> char" where
  "char_lower c = (if 65 \<le> (of_char c :: nat) \<and> (of_char c :: nat) \<le> 90 then char_of ((of_char c :: nat) + 32) else c)"

definition ToLower :: "string \<Rightarrow> string" where
  "ToLower s = map char_lower s"

text \<open>\<open>strings.TrimSpace\<close> on ASCII bytes.\<close>

definition is_space :: "char \<Rightarrow> bool" where
  "is_space c \<longleftrightarrow> (of_char c :: nat) \<in> {9, 10, 11, 12, 13, 32}"

definition TrimSpace :: "string \<Rightarrow> string" where
  "TrimSpace s = rev (dropWhile is_space (rev (dropWhile is_space s)))"

text \<open>Decimal rendering, as \<open>%d\<close>.\<close>

fun show_nat :: "nat \<Rightarrow> string" where
  "show_nat n = (if n < 10 then [char_of (48 + n)] else show_nat (n div 10) @ [char_of (48 + n mod 10)])"

declare show_nat.simps [simp del]

definition show_int :: "int \<Rightarrow> string" where
  "show_int i = (if i < 0 then ''-'' @ show_nat (nat (- i)) else show_nat (nat i))"

section \<open>The state monad\<close>

text \<open>Handlers of the program run in the state monad of \<open>HOL-Library.State_Monad\<close>. The rules
  below evaluate them; \<open>for_each\<close> is the loop \<open>for _, x := range xs { body }\<close> whose body
  never leaves the loop.\<close>

lemma run_return [run_simps, simp]: "run_state (State_Monad.return a) s = (a, s)"
  by (simp add: State_Monad.return_def)

lemma run_bind [run_simps, simp]:
  "run_state (State_Monad.bind m f) s = (case run_state m s of (a, s') \<Rightarrow> run_state (f a) s')"
  by (simp add: State_Monad.bind_def Let_def split: prod.splits)

lemma run_get [run_simps, simp]: "run_state State_Monad.get s = (s, s)"
  by (simp add: State_Monad.get_def)

lemma run_set [run_simps, simp]: "run_state (State_Monad.set t) s = ((), t)"
  by (simp add: State_Monad.set_def)

lemma run_update [run_simps, simp]: "run_state (State_Monad.update f) s = ((), f s)"
  by (simp add: State_Monad.update_def)

fun for_each :: "('a \<Rightarrow> ('s, unit) state) \<Rightarrow> 'a list \<Rightarrow> ('s, unit) state" where
  "for_each body [] = State_Monad.return ()"
| "for_each body (x # xs) = State_Monad.bind (body x) (\<lambda>_. for_each body xs)"

lemma for_each_invariant:
  assumes "\<And>x s. x \<in> set xs \<Longrightarrow> P s \<Longrightarrow> P (snd (run_state (body x) s))" and "P s"
  shows "P (snd (run_state (for_each body xs) s))"
  using assms
proof (induction xs arbitrary: s)
  case (Cons x xs)
  from Cons.prems have "P (snd (run_state (body x) s))" by simp
  then show ?case using Cons.IH Cons.prems(1) by (auto simp: case_prod_unfold)
qed simp

end
