(* ===== verification/Workflow_Types.thy ===== *)
theory Workflow_Types
  imports Prelude
begin

text \<open>
  The intermediate representation of a workflow: the structs of \<open>common/sdk/types.go\<close>, and the
  predicates the coordinator uses to classify a node. A nil slice and an empty slice behave
  alike in all of this code and are both the empty list; a nil pointer is \<open>None\<close>.
\<close>

record condition =
  c_type :: string
  c_expression :: string
  c_schema :: "gval smap"
  c_schema_ref :: string
  c_invert :: bool

record loop_config =
  l_enabled :: bool
  l_condition :: "condition option"
  l_max_iterations :: int
  l_loop_back_to :: string
  l_break_path :: "string list"
  l_timeout_path :: "string list"

record branch_rule =
  br_condition :: "condition option"
  br_next_nodes :: "string list"

record branch_config =
  b_enabled :: bool
  b_type :: string
  b_rules :: "branch_rule list"
  b_default :: "string list"
  b_available_next_nodes :: "string list"

record node =
  n_id :: string
  n_type :: string
  n_config_ref :: string
  n_config :: "gval smap"
  n_dependencies :: "string list"
  n_dependents :: "string list"
  n_wait_for_all :: bool
  n_is_terminal :: bool
  n_loop :: "loop_config option"
  n_branch :: "branch_config option"

type_synonym nodes = "node smap"

record ir =
  ir_version :: string
  ir_nodes :: nodes
  ir_metadata :: "gval smap"

definition has_loop :: "node \<Rightarrow> bool" where
  "has_loop n = (case n_loop n of None \<Rightarrow> False | Some l \<Rightarrow> l_enabled l)"

definition has_branch :: "node \<Rightarrow> bool" where
  "has_branch n = (case n_branch n of None \<Rightarrow> False | Some b \<Rightarrow> b_enabled b)"

definition IsExecutableType :: "node \<Rightarrow> bool" where
  "IsExecutableType n =
     (n_type n \<in> {''hitl'', ''http'', ''agent'', ''function'', ''transform'', ''aggregate'', ''filter''})"

definition IsAbsorber :: "node \<Rightarrow> bool" where
  "IsAbsorber n = ((has_branch n \<or> has_loop n) \<and> \<not> IsExecutableType n)"

lemma IsAbsorber_plain [simp]: "n_loop n = None \<Longrightarrow> n_branch n = None \<Longrightarrow> \<not> IsAbsorber n"
  by (simp add: IsAbsorber_def has_branch_def has_loop_def)

end
