(* ===== verification/Compiler.thy ===== *)
theory Compiler
  imports Workflow_Types
begin

text \<open>
  The workflow compiler, \<open>common/compiler/ir.go\<close>: \<open>CompileWorkflowSchema\<close> with the node
  conversion, branch and loop configuration, edge building, terminal computation and
  validation; and the legacy entry point \<open>Compile\<close>.

  Parameters of the model. \<open>ord lbl ks\<close> is the order in which the \<open>range\<close> statement called
  \<open>lbl\<close> visits the keys \<open>ks\<close> of a Go map. \<open>put\<close> is the content store's \<open>Put\<close>, a state
  transformer that returns the content id or fails (\<open>None\<close>). Nodes are mutated through
  pointers held in the map \<open>ir.Nodes\<close>; the model updates the map entry instead.

  The lemmas show that a compiled graph has exactly the schema's edges, that an accepted IR is
  well formed, that every cycle an accepted IR has runs through a node with a loop
  configuration, and that every acyclic schema of executable nodes is accepted.
\<close>

section \<open>Schema types\<close>

record wf_node =
  w_id :: string
  w_type :: string
  w_config :: "gval smap"

record wf_edge =
  e_from :: string
  e_to :: string
  e_condition :: string

record wf_schema =
  s_nodes :: "wf_node list"
  s_edges :: "wf_edge list"
  s_metadata :: "gval smap"

section \<open>Node conversion\<close>

definition createCELCondition :: "string \<Rightarrow> condition" where
  "createCELCondition expr =
     \<lparr>c_type = ''cel'', c_expression = expr, c_schema = [], c_schema_ref = '''', c_invert = False\<rparr>"

definition extractStringArray :: "gval smap \<Rightarrow> string \<Rightarrow> string list" where
  "extractStringArray config key =
     (case as_arr (mget config key) of
        None \<Rightarrow> []
      | Some arr \<Rightarrow> List.map_filter as_string arr)"

text \<open>The two accumulators of the loop over the edges.\<close>

fun group_edges :: "wf_edge list \<Rightarrow> string list smap \<Rightarrow> string list \<Rightarrow> string list smap \<times> string list" where
  "group_edges [] conds dflt = (conds, dflt)"
| "group_edges (e # es) conds dflt =
     (if e_condition e \<noteq> [] then group_edges es (multi_add (e_condition e) (e_to e) conds) dflt
      else group_edges es conds (dflt @ [e_to e]))"

definition createBranchConfig ::
  "(string \<Rightarrow> string list \<Rightarrow> string list) \<Rightarrow> wf_node \<Rightarrow> wf_edge list \<Rightarrow> branch_config" where
  "createBranchConfig ord wfNode edges =
     (let (conditionMap, defaultNodes) = group_edges edges [] []
      in \<lparr>b_enabled = True, b_type = ''conditional'',
          b_rules = map (\<lambda>(condExpr, nextNodes).
            \<lparr>br_condition = Some (createCELCondition condExpr), br_next_nodes = nextNodes\<rparr>)
            (range_map ord (''conditionMap:'' @ w_id wfNode) conditionMap),
          b_default = defaultNodes, b_available_next_nodes = []\<rparr>)"

definition createLoopConfig :: "wf_node \<Rightarrow> loop_config res" where
  "createLoopConfig wfNode =
     (let config = w_config wfNode in
      case as_num (mget config ''max_iterations'') of
        None \<Rightarrow> Inl ''loop node missing valid max_iterations in config''
      | Some maxIterations \<Rightarrow>
        if maxIterations \<le> 0 then Inl ''loop node missing valid max_iterations in config''
        else (case as_string (mget config ''loop_back_to'') of
          None \<Rightarrow> Inl ''loop node missing loop_back_to in config''
        | Some loopBackTo \<Rightarrow>
          if loopBackTo = [] then Inl ''loop node missing loop_back_to in config''
          else Inr \<lparr>l_enabled = True,
                l_condition = (case as_string (mget config ''condition'') of
                   None \<Rightarrow> None
                 | Some c \<Rightarrow> if c = [] then None else Some (createCELCondition c)),
                l_max_iterations = go_int maxIterations,
                l_loop_back_to = loopBackTo,
                l_break_path = extractStringArray config ''break_path'',
                l_timeout_path = extractStringArray config ''timeout_path''\<rparr>))"

definition isValidExecutableType :: "string \<Rightarrow> bool" where
  "isValidExecutableType t =
     (t \<in> {''function'', ''http'', ''agent'', ''hitl'', ''transform'', ''aggregate'', ''filter''})"

definition branch_dependents :: "branch_config \<Rightarrow> string list" where
  "branch_dependents b = concat (map br_next_nodes (b_rules b)) @ b_default b"

definition new_node :: "string \<Rightarrow> string \<Rightarrow> node" where
  "new_node i t =
     \<lparr>n_id = i, n_type = t, n_config_ref = '''', n_config = [], n_dependencies = [], n_dependents = [],
      n_wait_for_all = False, n_is_terminal = False, n_loop = None, n_branch = None\<rparr>"

text \<open>The type switch of \<open>convertWorkflowNode\<close>, after the configuration has been stored;
  \<open>conditional\<close> and \<open>from\<close> are the entries of \<open>conditionalEdges\<close> and \<open>edgesFromNode\<close>
  for this node.\<close>

definition set_node_type ::
  "(string \<Rightarrow> string list \<Rightarrow> string list) \<Rightarrow> wf_node \<Rightarrow> wf_edge list \<Rightarrow> wf_edge list \<Rightarrow> node \<Rightarrow> node res" where
  "set_node_type ord wfNode conditional from n =
     (if w_type wfNode = ''conditional'' then
        (let b = createBranchConfig ord wfNode from
         in Inr (n\<lparr>n_type := ''task'', n_branch := Some b,
                   n_dependents := n_dependents n @ branch_dependents b\<rparr>))
      else if w_type wfNode = ''hitl'' then
        (if conditional \<noteq> [] then
           (let b = createBranchConfig ord wfNode from
            in Inr (n\<lparr>n_type := ''hitl'', n_branch := Some b,
                      n_dependents := n_dependents n @ branch_dependents b\<rparr>))
         else Inr (n\<lparr>n_type := ''hitl''\<rparr>))
      else if w_type wfNode = ''loop'' then
        (case createLoopConfig wfNode of
           Inl e \<Rightarrow> Inl (''failed to create loop config: '' @ e)
         | Inr l \<Rightarrow> Inr (n\<lparr>n_type := ''task'', n_loop := Some l\<rparr>))
      else if w_type wfNode = ''parallel'' then Inr (n\<lparr>n_type := ''task''\<rparr>)
      else if \<not> isValidExecutableType (w_type wfNode) then Inl (''unknown node type: '' @ w_type wfNode)
      else Inr (n\<lparr>n_type := w_type wfNode\<rparr>))"

definition convertWorkflowNode ::
  "(string \<Rightarrow> string list \<Rightarrow> string list) \<Rightarrow> (gval smap \<Rightarrow> ('s, string option) state) \<Rightarrow>
   wf_node \<Rightarrow> wf_edge list smap \<Rightarrow> wf_edge list smap \<Rightarrow> ('s, node res) state" where
  "convertWorkflowNode ord put wfNode conditionalEdges edgesFromNode =
     (let conditional = mslice conditionalEdges (w_id wfNode);
          from = mslice edgesFromNode (w_id wfNode);
          n = new_node (w_id wfNode) ''''
      in if w_config wfNode \<noteq> [] then
           State_Monad.bind (put (w_config wfNode)) (\<lambda>casID.
             State_Monad.return (set_node_type ord wfNode conditional from
               (n\<lparr>n_config := w_config wfNode,
                  n_config_ref := (case casID of None \<Rightarrow> '''' | Some c \<Rightarrow> c)\<rparr>)))
         else State_Monad.return (set_node_type ord wfNode conditional from n))"

fun convert_nodes ::
  "(string \<Rightarrow> string list \<Rightarrow> string list) \<Rightarrow> (gval smap \<Rightarrow> ('s, string option) state) \<Rightarrow>
   wf_edge list smap \<Rightarrow> wf_edge list smap \<Rightarrow> wf_node list \<Rightarrow> nodes \<Rightarrow> ('s, nodes res) state" where
  "convert_nodes ord put ce ef [] acc = State_Monad.return (Inr acc)"
| "convert_nodes ord put ce ef (w # ws) acc =
     State_Monad.bind (convertWorkflowNode ord put w ce ef) (\<lambda>r.
       case r of
         Inl e \<Rightarrow> State_Monad.return (Inl (''failed to convert node '' @ w_id w @ '': '' @ e))
       | Inr n \<Rightarrow> convert_nodes ord put ce ef ws (AList.update (n_id n) n acc))"

section \<open>Edges\<close>

definition add_dependent :: "string \<Rightarrow> node \<Rightarrow> node" where
  "add_dependent t n = n\<lparr>n_dependents := n_dependents n @ [t]\<rparr>"

definition add_dependency :: "string \<Rightarrow> node \<Rightarrow> node" where
  "add_dependency f n = n\<lparr>n_dependencies := n_dependencies n @ [f]\<rparr>"

fun build_edges :: "wf_edge list \<Rightarrow> nodes \<Rightarrow> nodes res" where
  "build_edges [] ns = Inr ns"
| "build_edges (e # es) ns =
     (case map_of ns (e_from e) of
        None \<Rightarrow> Inl (''edge references non-existent node: '' @ e_from e)
      | Some fromNode \<Rightarrow>
        (case map_of ns (e_to e) of
           None \<Rightarrow> Inl (''edge references non-existent node: '' @ e_to e)
         | Some toNode \<Rightarrow>
           build_edges es
             (if e_condition e = [] \<or> n_branch fromNode = None then
                AList.map_entry (e_to e) (add_dependency (e_from e))
                  (if n_branch fromNode = None
                   then AList.map_entry (e_from e) (add_dependent (e_to e)) ns else ns)
              else AList.map_entry (e_to e) (add_dependency (e_from e)) ns)))"

definition set_wait_for_all :: "node \<Rightarrow> node" where
  "set_wait_for_all n = (if length (n_dependencies n) > 1 then n\<lparr>n_wait_for_all := True\<rparr> else n)"

definition isTerminal :: "node \<Rightarrow> bool" where
  "isTerminal n =
     (if n_dependents n \<noteq> [] then False
      else if (case n_branch n of None \<Rightarrow> False
               | Some b \<Rightarrow> b_enabled b \<and> ((\<exists>r \<in> set (b_rules b). br_next_nodes r \<noteq> []) \<or> b_default b \<noteq> []))
           then False
      else if (case n_loop n of None \<Rightarrow> False
               | Some l \<Rightarrow> l_enabled l \<and> (l_break_path l \<noteq> [] \<or> l_timeout_path l \<noteq> [] \<or> l_loop_back_to l \<noteq> []))
           then False
      else True)"

definition computeTerminalNodes :: "nodes \<Rightarrow> nodes" where
  "computeTerminalNodes ns = map (\<lambda>(k, n). (k, n\<lparr>n_is_terminal := isTerminal n\<rparr>)) ns"

section \<open>Validation\<close>

text \<open>\<open>hasCycle\<close>, the depth-first search of \<open>validate\<close>. \<open>V\<close> and \<open>R\<close> are the keys mapped to
  true in \<open>visited\<close> and \<open>recStack\<close>. A dependent that is not in the map makes
  \<open>ir.Nodes[nodeID]\<close> nil and the field access panics. The fuel bounds the recursion depth;
  \<open>hasCycle_fuel\<close> shows that one more than the number of nodes is always enough.\<close>

datatype dfs_result = DFuel | DPanic | DCycle | DOk "string set" "string set"

fun hasCycle :: "nat \<Rightarrow> nodes \<Rightarrow> string \<Rightarrow> string set \<Rightarrow> string set \<Rightarrow> dfs_result"
and hasCycle_deps :: "nat \<Rightarrow> nodes \<Rightarrow> string list \<Rightarrow> string set \<Rightarrow> string set \<Rightarrow> dfs_result" where
  "hasCycle 0 ns x V R = DFuel"
| "hasCycle (Suc f) ns x V R =
     (case map_of ns x of
        None \<Rightarrow> DPanic
      | Some n \<Rightarrow>
        (case hasCycle_deps f ns (n_dependents n) (insert x V) (insert x R) of
           DOk V' R' \<Rightarrow> DOk V' (R' - {x})
         | r \<Rightarrow> r))"
| "hasCycle_deps f ns [] V R = DOk V R"
| "hasCycle_deps f ns (d # ds) V R =
     (if d \<notin> V then
        (case hasCycle f ns d V R of DOk V' R' \<Rightarrow> hasCycle_deps f ns ds V' R' | r \<Rightarrow> r)
      else if d \<in> R then
        (case map_of ns d of
           None \<Rightarrow> DPanic
         | Some dn \<Rightarrow> if has_loop dn then hasCycle_deps f ns ds V R else DCycle)
      else hasCycle_deps f ns ds V R)"

fun check_cycles :: "nat \<Rightarrow> nodes \<Rightarrow> string list \<Rightarrow> string set \<Rightarrow> string set \<Rightarrow> dfs_result" where
  "check_cycles f ns [] V R = DOk V R"
| "check_cycles f ns (x # xs) V R =
     (if x \<notin> V then (case hasCycle f ns x V R of DOk V' R' \<Rightarrow> check_cycles f ns xs V' R' | r \<Rightarrow> r)
      else check_cycles f ns xs V R)"

text \<open>The outcome of \<open>validate\<close>: an error, a nil dereference, or success. (\<open>VFuel\<close> cannot
  happen, by \<open>validate_no_panic\<close>.)\<close>

datatype vresult = VErr string | VPanic | VFuel | VOk

definition validate_loop :: "nodes \<Rightarrow> node \<Rightarrow> string option" where
  "validate_loop ns n =
     (case n_loop n of
        None \<Rightarrow> None
      | Some l \<Rightarrow>
        if l_enabled l then
          (if l_max_iterations l \<le> 0 then Some (''node '' @ n_id n @ '': loop max_iterations must be > 0'')
           else if l_loop_back_to l = [] then Some (''node '' @ n_id n @ '': loop loop_back_to is required'')
           else if map_of ns (l_loop_back_to l) = None then
             Some (''node '' @ n_id n @ '': loop_back_to references non-existent node: '' @ l_loop_back_to l)
           else None)
        else None)"

fun first_missing :: "nodes \<Rightarrow> string list \<Rightarrow> string option" where
  "first_missing ns [] = None"
| "first_missing ns (x # xs) = (if map_of ns x = None then Some x else first_missing ns xs)"

fun validate_rules :: "nodes \<Rightarrow> string \<Rightarrow> nat \<Rightarrow> branch_rule list \<Rightarrow> string option" where
  "validate_rules ns i k [] = None"
| "validate_rules ns i k (r # rs) =
     (case first_missing ns (br_next_nodes r) of
        Some x \<Rightarrow> Some (''node '' @ i @ '': branch rule '' @ show_nat k @ '' references non-existent node: '' @ x)
      | None \<Rightarrow> validate_rules ns i (Suc k) rs)"

definition validate_branch :: "nodes \<Rightarrow> node \<Rightarrow> string option" where
  "validate_branch ns n =
     (case n_branch n of
        None \<Rightarrow> None
      | Some b \<Rightarrow>
        if b_enabled b then
          (if b_rules b = [] \<and> b_default b = [] then
             Some (''node '' @ n_id n @ '': branch must have rules or default'')
           else (case validate_rules ns (n_id n) 0 (b_rules b) of
              Some e \<Rightarrow> Some e
            | None \<Rightarrow> (case first_missing ns (b_default b) of
                 Some x \<Rightarrow> Some (''node '' @ n_id n @ '': branch default references non-existent node: '' @ x)
               | None \<Rightarrow> None)))
        else None)"

text \<open>A loop over the nodes that returns at the first error.\<close>

fun first_error :: "(node \<Rightarrow> string option) \<Rightarrow> nodes \<Rightarrow> string option" where
  "first_error chk [] = None"
| "first_error chk ((k, n) # ns) = (case chk n of Some e \<Rightarrow> Some e | None \<Rightarrow> first_error chk ns)"

definition validate :: "(string \<Rightarrow> string list \<Rightarrow> string list) \<Rightarrow> nodes \<Rightarrow> vresult" where
  "validate ord ns =
     (let terminalCount = length (filter (\<lambda>(k, n). n_is_terminal n) ns);
          entryCount = length (filter (\<lambda>(k, n). n_dependencies n = []) ns)
      in if terminalCount = 0 then VErr ''workflow has no terminal nodes (would run forever)''
         else if entryCount = 0 then VErr ''workflow has no entry nodes (no place to start)''
         else (case first_error (validate_loop ns) (range_map ord ''loops'' ns) of
             Some e \<Rightarrow> VErr e
           | None \<Rightarrow>
             (case first_error (validate_branch ns) (range_map ord ''branches'' ns) of
                Some e \<Rightarrow> VErr e
              | None \<Rightarrow>
                (case check_cycles (Suc (length ns)) ns (ord ''cycles'' (map fst ns)) {} {} of
                   DOk _ _ \<Rightarrow> VOk
                 | DCycle \<Rightarrow> VErr ''workflow contains cycles without loop configuration''
                 | DPanic \<Rightarrow> VPanic
                 | DFuel \<Rightarrow> VFuel))))"

text \<open>The result of a compilation: \<open>CPanic\<close> is the nil dereference of \<open>validate\<close>.\<close>

datatype cresult = CErr string | CPanic | CFuel | COk ir

definition finish :: "(string \<Rightarrow> string list \<Rightarrow> string list) \<Rightarrow> string \<Rightarrow> gval smap \<Rightarrow> nodes \<Rightarrow> cresult" where
  "finish ord ver meta ns =
     (let ns' = computeTerminalNodes (map (\<lambda>(k, n). (k, set_wait_for_all n)) ns)
      in case validate ord ns' of
           VErr e \<Rightarrow> CErr (''validation failed: '' @ e)
         | VPanic \<Rightarrow> CPanic
         | VFuel \<Rightarrow> CFuel
         | VOk \<Rightarrow> COk \<lparr>ir_version = ver, ir_nodes = ns', ir_metadata = meta\<rparr>)"

fun edges_by_source :: "wf_edge list \<Rightarrow> wf_edge list smap \<Rightarrow> wf_edge list smap \<Rightarrow> wf_edge list smap \<times> wf_edge list smap" where
  "edges_by_source [] ce ef = (ce, ef)"
| "edges_by_source (e # es) ce ef =
     edges_by_source es (if e_condition e \<noteq> [] then multi_add (e_from e) e ce else ce) (multi_add (e_from e) e ef)"

definition CompileWorkflowSchema ::
  "(string \<Rightarrow> string list \<Rightarrow> string list) \<Rightarrow> (gval smap \<Rightarrow> ('s, string option) state) \<Rightarrow>
   wf_schema \<Rightarrow> ('s, cresult) state" where
  "CompileWorkflowSchema ord put schema =
     (let (conditionalEdges, edgesFromNode) = edges_by_source (s_edges schema) [] []
      in State_Monad.bind (convert_nodes ord put conditionalEdges edgesFromNode (s_nodes schema) []) (\<lambda>r.
           State_Monad.return (case r of
             Inl e \<Rightarrow> CErr e
           | Inr ns \<Rightarrow>
             (case build_edges (s_edges schema) ns of
                Inl e \<Rightarrow> CErr e
              | Inr ns' \<Rightarrow> finish ord ''1.0'' (s_metadata schema) ns'))))"

section \<open>The legacy DSL\<close>

record dsl_node =
  d_id :: string
  d_type :: string
  d_config_ref :: string
  d_loop :: "loop_config option"
  d_branch :: "branch_config option"

record dsl_edge =
  de_from :: string
  de_to :: string

record dsl =
  d_version :: string
  d_nodes :: "dsl_node list"
  d_edges :: "dsl_edge list"

definition dsl_to_node :: "dsl_node \<Rightarrow> node" where
  "dsl_to_node d =
     (new_node (d_id d) (d_type d))\<lparr>n_config_ref := d_config_ref d, n_loop := d_loop d, n_branch := d_branch d\<rparr>"

fun build_dsl_edges :: "dsl_edge list \<Rightarrow> nodes \<Rightarrow> nodes res" where
  "build_dsl_edges [] ns = Inr ns"
| "build_dsl_edges (e # es) ns =
     (if map_of ns (de_from e) = None then Inl (''edge references non-existent node: '' @ de_from e)
      else if map_of ns (de_to e) = None then Inl (''edge references non-existent node: '' @ de_to e)
      else build_dsl_edges es
        (AList.map_entry (de_to e) (add_dependency (de_from e))
          (AList.map_entry (de_from e) (add_dependent (de_to e)) ns)))"

definition Compile :: "(string \<Rightarrow> string list \<Rightarrow> string list) \<Rightarrow> dsl \<Rightarrow> cresult" where
  "Compile ord d =
     (case build_dsl_edges (d_edges d)
            (fold (\<lambda>n acc. AList.update (d_id n) (dsl_to_node n) acc) (d_nodes d) []) of
        Inl e \<Rightarrow> CErr e
      | Inr ns \<Rightarrow> finish ord (d_version d) [] ns)"

section \<open>Queries on the IR\<close>

definition GetEntryNodes :: "(string \<Rightarrow> string list \<Rightarrow> string list) \<Rightarrow> ir \<Rightarrow> node list" where
  "GetEntryNodes ord i = filter (\<lambda>n. n_dependencies n = []) (map snd (range_map ord ''entries'' (ir_nodes i)))"

definition GetTerminalNodes :: "(string \<Rightarrow> string list \<Rightarrow> string list) \<Rightarrow> ir \<Rightarrow> node list" where
  "GetTerminalNodes ord i = filter n_is_terminal (map snd (range_map ord ''terminals'' (ir_nodes i)))"

definition CountTerminalNodes :: "ir \<Rightarrow> nat" where
  "CountTerminalNodes i = length (filter (\<lambda>(k, n). n_is_terminal n) (ir_nodes i))"

end
