(* ===== verification/Redis_Store.thy ===== *)
theory Redis_Store
  imports Compiler
begin

text \<open>
  The shared state of the services and the commands they issue on it: the wrapper
  \<open>common/redis/client.go\<close>, the content store \<open>common/clients/cas.go\<close>, and the rows of the \<open>run\<close>
  table that the runner updates.

  Redis holds one keyspace per data type; the sources never use one key with two types (every
  key has a prefix of its own: \<open>ir:\<close>, \<open>cas:\<close>, \<open>counter:\<close>, \<open>applied:\<close>, \<open>context:\<close>, \<open>loop:\<close>,
  \<open>run:status:\<close>, \<open>run:started:\<close>). A value that the program stores as marshalled JSON is kept as
  the document itself: marshalling followed by unmarshalling is the identity on the documents
  concerned. Expiry times are not modelled here.

  \<open>env\<close> collects what the program gets from outside: which command fails (network, server), clock
  readings, random ids and the parser of ids, the SHA-256 hash, the CEL library, the gjson library, the HTTP
  transport, Go's map order and the standard library's text of numbers and times. Every command takes the next tick, so that the same command may
  fail once and succeed later, and two clock or id readings differ where \<open>env\<close> says so.
\<close>

section \<open>Messages\<close>

record completion_signal =
  cs_version :: string
  cs_job_id :: string
  cs_run_id :: string
  cs_node_id :: string
  cs_status :: string
  cs_result_data :: "gval smap option"
  cs_result_ref :: string
  cs_metadata :: "gval smap"

record token =
  t_id :: string
  t_run_id :: string
  t_from_node :: string
  t_to_node :: string
  t_payload_ref :: string
  t_config :: "gval smap option"
  t_owner :: "string option"
  t_metadata :: "gval smap"

record run_request =
  rq_run_id :: string
  rq_artifact_id :: string
  rq_tag :: string
  rq_username :: string
  rq_inputs :: "gval smap"

text \<open>A stream entry: a task token, a status update (run, status), a run request or an approval decision.\<close>

datatype entry = ETask token | EStatus string string | ERun run_request | EApproval "gval smap"

text \<open>The goroutines the coordinator starts and does not wait for.\<close>

datatype task =
    THandle completion_signal
  | TAbsorber string string string string node ir
  | TSkipped string string string node string ir

datatype rstr = RText string | RDoc gval | RIr ir

record run_row =
  rr_status :: string
  rr_last_event_at :: int
  rr_ended_at :: "int option"

record world =
  r_tick :: nat
  r_strs :: "string \<Rightarrow> rstr option"
  r_ints :: "string \<Rightarrow> int option"
  r_sets :: "string \<Rightarrow> string set"
  r_hash :: "string \<Rightarrow> string smap"
  r_loops :: "string \<Rightarrow> int option"
  r_streams :: "string \<Rightarrow> entry list"
  r_signals :: "completion_signal list"
  r_published :: "(string \<times> gval) list"
  r_spawned :: "task list"
  r_runs :: "run_row smap"
  r_pending :: "string list" \<comment> \<open>the keys \<open>pending_tokens:...\<close>, which the program reads but never writes\<close>
  r_crashed :: bool \<comment> \<open>a goroutine panicked: the process is gone\<close>
  r_cel_cache :: "string set" \<comment> \<open>the evaluator's cache of compiled expressions, in process memory\<close>

definition empty_world :: world where
  "empty_world = \<lparr>r_tick = 0, r_strs = (\<lambda>_. None), r_ints = (\<lambda>_. None), r_sets = (\<lambda>_. {}),
     r_hash = (\<lambda>_. []), r_loops = (\<lambda>_. None), r_streams = (\<lambda>_. []), r_signals = [], r_published = [],
     r_spawned = [], r_runs = [], r_pending = [], r_crashed = False, r_cel_cache = {}\<rparr>"

section \<open>The environment\<close>

datatype rop =
    OpGet string | OpSet string | OpDel string | OpEval string | OpHSet string | OpHGet string
  | OpHGetAll string | OpHIncr string | OpXAdd string | OpPublish string | OpPipe string
  | OpRPush string | OpSetNX string | OpSCard string | OpKeys string | OpExec string

datatype http_reply = HFail string | HReply nat gval

record env =
  fault :: "nat \<Rightarrow> rop \<Rightarrow> bool"
  nano :: "nat \<Rightarrow> nat"
  unix :: "nat \<Rightarrow> int"
  uuid :: "nat \<Rightarrow> string"
  uuid_ok :: "string \<Rightarrow> bool"
  sha256 :: "gval \<Rightarrow> string"
  cel_compile :: "string \<Rightarrow> string option"
  cel_eval :: "string \<Rightarrow> gval \<Rightarrow> gval \<Rightarrow> gval res"
  gjson :: "gval \<Rightarrow> string \<Rightarrow> gval option"
  http_get :: "nat \<Rightarrow> string option \<Rightarrow> string \<Rightarrow> http_reply"
  mord :: "string \<Rightarrow> string list \<Rightarrow> string list"
  num_text :: "rat \<Rightarrow> string"
  time_text :: "nat \<Rightarrow> string"

definition reliable :: "env \<Rightarrow> bool" where
  "reliable e \<longleftrightarrow> (\<forall>t op. \<not> fault e t op)"

type_synonym 'a io = "(world, 'a) state"

text \<open>Issue a command: take a tick, and learn whether the command reached Redis.\<close>

definition attempt :: "env \<Rightarrow> rop \<Rightarrow> bool io" where
  "attempt e op = State (\<lambda>w. (\<not> fault e (r_tick w) op, w\<lparr>r_tick := Suc (r_tick w)\<rparr>))"

definition now :: "(nat \<Rightarrow> 'a) \<Rightarrow> 'a io" where
  "now f = State (\<lambda>w. (f (r_tick w), w\<lparr>r_tick := Suc (r_tick w)\<rparr>))"

lemma run_attempt [run_simps, simp]:
  "run_state (attempt e op) w = (\<not> fault e (r_tick w) op, w\<lparr>r_tick := Suc (r_tick w)\<rparr>)"
  by (simp add: attempt_def)

lemma run_now [run_simps, simp]:
  "run_state (now f) w = (f (r_tick w), w\<lparr>r_tick := Suc (r_tick w)\<rparr>)"
  by (simp add: now_def)

section \<open>The Redis client\<close>

definition redis_Get :: "env \<Rightarrow> string \<Rightarrow> rstr res io" where
  "redis_Get e key = do {
     ok \<leftarrow> attempt e (OpGet key);
     w \<leftarrow> State_Monad.get;
     State_Monad.return
       (if \<not> ok then Inl (''failed to get key '' @ key)
        else case r_strs w key of None \<Rightarrow> Inl (''key not found: '' @ key) | Some v \<Rightarrow> Inr v)}"

definition redis_Set :: "env \<Rightarrow> string \<Rightarrow> rstr \<Rightarrow> unit res io" where
  "redis_Set e key v = do {
     ok \<leftarrow> attempt e (OpSet key);
     if \<not> ok then State_Monad.return (Inl (''failed to set key '' @ key))
     else do {
       State_Monad.update (\<lambda>w. w\<lparr>r_strs := (r_strs w)(key := Some v)\<rparr>);
       State_Monad.return (Inr ())}}"

definition redis_SetNX :: "env \<Rightarrow> string \<Rightarrow> rstr \<Rightarrow> bool res io" where
  "redis_SetNX e key v = do {
     ok \<leftarrow> attempt e (OpSetNX key);
     w \<leftarrow> State_Monad.get;
     if \<not> ok then State_Monad.return (Inl (''failed to setnx key '' @ key))
     else if r_strs w key = None then do {
       State_Monad.set (w\<lparr>r_strs := (r_strs w)(key := Some v)\<rparr>);
       State_Monad.return (Inr True)}
     else State_Monad.return (Inr False)}"

definition redis_AddToStream :: "env \<Rightarrow> string \<Rightarrow> entry \<Rightarrow> unit res io" where
  "redis_AddToStream e stream x = do {
     ok \<leftarrow> attempt e (OpXAdd stream);
     if \<not> ok then State_Monad.return (Inl (''failed to add to stream '' @ stream))
     else do {
       State_Monad.update (\<lambda>w. w\<lparr>r_streams := (r_streams w)(stream := r_streams w stream @ [x])\<rparr>);
       State_Monad.return (Inr ())}}"

definition redis_PublishEvent :: "env \<Rightarrow> string \<Rightarrow> gval \<Rightarrow> unit res io" where
  "redis_PublishEvent e channel msg = do {
     ok \<leftarrow> attempt e (OpPublish channel);
     if \<not> ok then State_Monad.return (Inl (''failed to publish to channel '' @ channel))
     else do {
       State_Monad.update (\<lambda>w. w\<lparr>r_published := r_published w @ [(channel, msg)]\<rparr>);
       State_Monad.return (Inr ())}}"

text \<open>\<open>HINCRBY\<close> on the only field the program keeps in a loop hash, \<open>current_iteration\<close>, and \<open>DEL\<close>
  of that hash.\<close>

definition redis_IncrementHash :: "env \<Rightarrow> string \<Rightarrow> int \<Rightarrow> int res io" where
  "redis_IncrementHash e key inc = do {
     ok \<leftarrow> attempt e (OpHIncr key);
     w \<leftarrow> State_Monad.get;
     if \<not> ok then State_Monad.return (Inl (''failed to increment hash '' @ key))
     else (let v = (case r_loops w key of None \<Rightarrow> 0 | Some i \<Rightarrow> i) + inc in do {
       State_Monad.set (w\<lparr>r_loops := (r_loops w)(key := Some v)\<rparr>);
       State_Monad.return (Inr v)})}"

definition redis_DeleteLoop :: "env \<Rightarrow> string \<Rightarrow> unit res io" where
  "redis_DeleteLoop e key = do {
     ok \<leftarrow> attempt e (OpDel key);
     if \<not> ok then State_Monad.return (Inl ''failed to delete keys'')
     else do {
       State_Monad.update (\<lambda>w. w\<lparr>r_loops := (r_loops w)(key := None)\<rparr>);
       State_Monad.return (Inr ())}}"

text \<open>\<open>DEL\<close> of a key of any type, and \<open>KEYS prefix*\<close> followed by a \<open>DEL\<close> of every loop hash found: each
  deletion of the pipeline may fail on its own.\<close>

definition redis_Del :: "env \<Rightarrow> string \<Rightarrow> unit res io" where
  "redis_Del e key = do {
     ok \<leftarrow> attempt e (OpDel key);
     if \<not> ok then State_Monad.return (Inl ''failed to delete keys'')
     else do {
       State_Monad.update (\<lambda>w. w\<lparr>r_strs := (r_strs w)(key := None), r_ints := (r_ints w)(key := None),
          r_sets := (r_sets w)(key := {}), r_hash := (r_hash w)(key := []), r_loops := (r_loops w)(key := None)\<rparr>);
       State_Monad.return (Inr ())}}"

definition redis_DelLoops :: "env \<Rightarrow> string \<Rightarrow> unit io" where
  "redis_DelLoops e pre = do {
     ok \<leftarrow> attempt e (OpKeys pre);
     if \<not> ok then State_Monad.return ()
     else State_Monad.update (\<lambda>w. w\<lparr>r_loops :=
        (\<lambda>k. if prefix pre k \<and> \<not> fault e (r_tick w) (OpDel k) then None else r_loops w k)\<rparr>)}"

text \<open>\<open>DECR\<close>, and a transaction: the queued commands run atomically at \<open>Exec\<close>, each with a result of its own. The counters kept
  this way count open approvals and stay far from the ends of int64.\<close>

definition int_of :: "world \<Rightarrow> string \<Rightarrow> int" where
  "int_of w key = (case r_ints w key of None \<Rightarrow> 0 | Some i \<Rightarrow> i)"

definition add_int :: "string \<Rightarrow> int \<Rightarrow> world \<Rightarrow> world" where
  "add_int key d w = w\<lparr>r_ints := (r_ints w)(key := Some (int_of w key + d))\<rparr>"

definition redis_Decrement :: "env \<Rightarrow> string \<Rightarrow> int res io" where
  "redis_Decrement e key = do {
     ok \<leftarrow> attempt e (OpExec (''DECR '' @ key));
     w \<leftarrow> State_Monad.get;
     if \<not> ok then State_Monad.return (Inl (''failed to decrement key '' @ key))
     else do {
       State_Monad.set (add_int key (- 1) w);
       State_Monad.return (Inr (int_of w key - 1))}}"

datatype tx_cmd = TxSetNX string rstr | TxIncr string | TxDecr string

datatype tx_reply = TBool bool | TInt int

fun tx_step :: "tx_cmd \<Rightarrow> world \<Rightarrow> tx_reply \<times> world" where
  "tx_step (TxSetNX key v) w =
     (if r_strs w key = None then (TBool True, w\<lparr>r_strs := (r_strs w)(key := Some v)\<rparr>) else (TBool False, w))"
| "tx_step (TxIncr key) w = (TInt (int_of w key + 1), add_int key 1 w)"
| "tx_step (TxDecr key) w = (TInt (int_of w key - 1), add_int key (- 1) w)"

fun tx_run :: "tx_cmd list \<Rightarrow> world \<Rightarrow> tx_reply list \<times> world" where
  "tx_run [] w = ([], w)"
| "tx_run (c # cs) w = (let (r, w1) = tx_step c w; (rs, w2) = tx_run cs w1 in (r # rs, w2))"

definition redis_TxExec :: "env \<Rightarrow> tx_cmd list \<Rightarrow> tx_reply list res io" where
  "redis_TxExec e cmds = do {
     ok \<leftarrow> attempt e (OpExec ''EXEC'');
     w \<leftarrow> State_Monad.get;
     if \<not> ok then State_Monad.return (Inl ''failed to execute transaction: '')
     else do {
       State_Monad.set (snd (tx_run cmds w));
       State_Monad.return (Inr (fst (tx_run cmds w)))}}"

section \<open>The content store in Redis\<close>

text \<open>\<open>RedisCASClient.Put\<close> and \<open>Get\<close>. A blob read back is the byte slice of its JSON text, \<open>GRaw\<close>
  of the document; callers that need the document unmarshal it.\<close>

definition cas_id :: "env \<Rightarrow> gval \<Rightarrow> string" where
  "cas_id e d = ''sha256:'' @ sha256 e d"

definition cas_Put :: "env \<Rightarrow> gval \<Rightarrow> string res io" where
  "cas_Put e d = do {
     r \<leftarrow> redis_Set e (''cas:'' @ cas_id e d) (RDoc d);
     State_Monad.return (case r of
        Inl err \<Rightarrow> Inl (''failed to store in CAS: '' @ err)
      | Inr _ \<Rightarrow> Inr (cas_id e d))}"

definition cas_Get :: "env \<Rightarrow> string \<Rightarrow> gval res io" where
  "cas_Get e ref = do {
     r \<leftarrow> redis_Get e (''cas:'' @ ref);
     State_Monad.return (case r of
        Inr (RDoc d) \<Rightarrow> Inr (GRaw d)
      | _ \<Rightarrow> Inl (''CAS entry not found: '' @ ref))}"

section \<open>Laws of the client\<close>

lemma reliable_fault [simp]: "reliable e \<Longrightarrow> fault e t op = False"
  by (simp add: reliable_def)

lemma run_Get [run_simps]:
  "reliable e \<Longrightarrow> run_state (redis_Get e key) w =
     ((case r_strs w key of None \<Rightarrow> Inl (''key not found: '' @ key) | Some v \<Rightarrow> Inr v), w\<lparr>r_tick := Suc (r_tick w)\<rparr>)"
  by (simp add: redis_Get_def)

lemma run_Set [run_simps]:
  "reliable e \<Longrightarrow> run_state (redis_Set e key v) w =
     (Inr (), w\<lparr>r_tick := Suc (r_tick w), r_strs := (r_strs w)(key := Some v)\<rparr>)"
  by (simp add: redis_Set_def)

lemma run_AddToStream [run_simps]:
  "reliable e \<Longrightarrow> run_state (redis_AddToStream e stream x) w =
     (Inr (), w\<lparr>r_tick := Suc (r_tick w), r_streams := (r_streams w)(stream := r_streams w stream @ [x])\<rparr>)"
  by (simp add: redis_AddToStream_def)

lemma run_PublishEvent [run_simps]:
  "reliable e \<Longrightarrow> run_state (redis_PublishEvent e c m) w =
     (Inr (), w\<lparr>r_tick := Suc (r_tick w), r_published := r_published w @ [(c, m)]\<rparr>)"
  by (simp add: redis_PublishEvent_def)

text \<open>What the clients of a content store rely on, against an abstract map of blobs: a successful
  \<open>put\<close> returns the document's address and adds exactly that blob, \<open>get\<close> returns only stored
  blobs, and a command that fails changes no blob.\<close>

locale content_store =
  fixes put :: "gval \<Rightarrow> ('s, string res) state"
    and get :: "string \<Rightarrow> ('s, gval res) state"
    and addr :: "gval \<Rightarrow> string"
    and blobs :: "'s \<Rightarrow> string \<Rightarrow> gval option"
  assumes put_ok: "run_state (put d) s = (Inr r, s') \<Longrightarrow> r = addr d \<and> blobs s' = (blobs s)(addr d := Some d)"
    and put_err: "run_state (put d) s = (Inl x, s') \<Longrightarrow> blobs s' = blobs s"
    and get_ok: "run_state (get ref) s = (Inr v, s') \<Longrightarrow> blobs s ref = Some (unmarshal v) \<and> blobs s' = blobs s"
    and get_err: "run_state (get ref) s = (Inl x, s') \<Longrightarrow> blobs s' = blobs s"
begin

lemma get_after_put:
  assumes "run_state (put d) s = (Inr r, s1)" and "run_state (get r) s1 = (Inr v, s2)"
  shows "unmarshal v = d"
  using put_ok [OF assms(1)] get_ok [OF assms(2)] by simp

lemma put_keeps_other:
  assumes "run_state (put d) s = (x, s')" and "ref \<noteq> addr d"
  shows "blobs s' ref = blobs s ref"
proof (cases x)
  case (Inl e)
  then show ?thesis using put_err [of d s e s'] assms(1) by simp
next
  case (Inr r)
  then show ?thesis using put_ok assms by auto
qed

text \<open>A stored document stays readable under any number of later stores that do not collide.\<close>

lemma stored_stays:
  assumes "blobs s (addr d) = Some d" and "\<And>x. x \<in> set ds \<Longrightarrow> addr x = addr d \<Longrightarrow> x = d"
  shows "blobs (snd (run_state (for_each (\<lambda>x. State_Monad.bind (put x) (\<lambda>_. State_Monad.return ())) ds) s)) (addr d) = Some d"
proof (rule for_each_invariant [where P = "\<lambda>s. blobs s (addr d) = Some d"])
  fix x s
  assume x: "x \<in> set ds" and s: "blobs s (addr d) = Some d"
  obtain r s1 where p: "run_state (put x) s = (r, s1)" by (cases "run_state (put x) s")
  have "blobs s1 (addr d) = Some d"
  proof (cases "addr x = addr d")
    case True
    with assms(2) x have "x = d" by blast
    with p s put_ok put_err show ?thesis by (cases r) fastforce+
  next
    case False
    with put_keeps_other [OF p, of "addr d"] s show ?thesis by simp
  qed
  then show "blobs (snd (run_state (State_Monad.bind (put x) (\<lambda>_. State_Monad.return ())) s)) (addr d) = Some d"
    by (simp add: p)
qed (rule assms(1))

end

text \<open>The Redis client provides it, for every environment.\<close>

definition cas_blobs :: "world \<Rightarrow> string \<Rightarrow> gval option" where
  "cas_blobs w ref = (case r_strs w (''cas:'' @ ref) of Some (RDoc d) \<Rightarrow> Some d | _ \<Rightarrow> None)"

lemma cas_blobs_cong: "r_strs w = r_strs w' \<Longrightarrow> cas_blobs w = cas_blobs w'"
  by (simp add: cas_blobs_def fun_eq_iff)

interpretation redis_cas: content_store "cas_Put e" "cas_Get e" "cas_id e" cas_blobs for e
proof
  fix d s r s'
  assume "run_state (cas_Put e d) s = (Inr r, s')"
  then show "r = cas_id e d \<and> cas_blobs s' = (cas_blobs s)(cas_id e d := Some d)"
    by (auto simp: cas_Put_def redis_Set_def cas_blobs_def fun_eq_iff split: if_splits)
next
  fix d s x s'
  assume "run_state (cas_Put e d) s = (Inl x, s')"
  then show "cas_blobs s' = cas_blobs s"
    by (auto simp: cas_Put_def redis_Set_def split: if_splits intro: cas_blobs_cong)
next
  fix ref s v s'
  assume "run_state (cas_Get e ref) s = (Inr v, s')"
  then show "cas_blobs s ref = Some (unmarshal v) \<and> cas_blobs s' = cas_blobs s"
    by (auto simp: cas_Get_def redis_Get_def cas_blobs_def split: sum.splits rstr.splits option.splits if_splits)
next
  fix ref s x s'
  assume "run_state (cas_Get e ref) s = (Inl x, s')"
  then show "cas_blobs s' = cas_blobs s"
    by (auto simp: cas_Get_def redis_Get_def intro: cas_blobs_cong)
qed

end
