(* ===== verification/Token_Counter.thy ===== *)
theory Token_Counter
  imports Redis_Store
begin

text \<open>
  The token counter of a run: the Lua script \<open>scripts/apply_delta.lua\<close> and the counter and context
  operations of \<open>common/sdk/sdk.go\<close>.

  The script is atomic. Redis integers are signed 64-bit; \<open>INCRBY\<close> refuses an increment that
  overflows, and the script has then already recorded the operation as applied.

  The lemmas show that a sequence of operations is equivalent to an abstract specification in
  which every operation key counts exactly once, whatever the order and however often each is
  repeated.
\<close>

section \<open>The script\<close>

definition int64_min :: int where "int64_min = - (2 ^ 63)"
definition int64_max :: int where "int64_max = 2 ^ 63 - 1"

definition counter_of :: "world \<Rightarrow> string \<Rightarrow> int" where
  "counter_of w key = (case r_ints w key of None \<Rightarrow> 0 | Some c \<Rightarrow> c)"

definition apply_delta_script ::
  "string \<Rightarrow> string \<Rightarrow> string \<Rightarrow> string \<Rightarrow> int \<Rightarrow> world \<Rightarrow> (int \<times> int \<times> int) res \<times> world" where
  "apply_delta_script applied_set counter_key run_id op_key delta w =
     (if op_key \<in> r_sets w applied_set then
        (case r_ints w counter_key of
           Some current \<Rightarrow> (Inr (current, 0, 0), w)
         | None \<Rightarrow> (Inr (0, 0, 1), w))
      else
        let w1 = w\<lparr>r_sets := (r_sets w)(applied_set := insert op_key (r_sets w applied_set))\<rparr>;
            new_value = counter_of w counter_key + delta
        in if new_value < int64_min \<or> int64_max < new_value
           then (Inl ''ERR increment or decrement would overflow'', w1)
           else
             let w2 = w1\<lparr>r_ints := (r_ints w1)(counter_key := Some new_value)\<rparr>
             in if new_value = 0
                then (Inr (new_value, 1, 1), w2\<lparr>r_published := r_published w2 @ [(''completion_events'', GStr run_id)]\<rparr>)
                else (Inr (new_value, 1, 0), w2))"

section \<open>The SDK operations\<close>

record apply_delta_result =
  ad_counter_value :: int
  ad_changed :: bool
  ad_hit_zero :: bool

definition applied_key :: "string \<Rightarrow> string" where "applied_key run = ''applied:'' @ run"
definition counter_key :: "string \<Rightarrow> string" where "counter_key run = ''counter:'' @ run"
definition context_key :: "string \<Rightarrow> string" where "context_key run = ''context:'' @ run"

definition ApplyDelta :: "env \<Rightarrow> string \<Rightarrow> string \<Rightarrow> int \<Rightarrow> apply_delta_result res io" where
  "ApplyDelta e run opKey delta = do {
     ok \<leftarrow> attempt e (OpEval (counter_key run));
     if \<not> ok then State_Monad.return (Inl ''apply delta failed: '')
     else do {
       r \<leftarrow> State (apply_delta_script (applied_key run) (counter_key run) run opKey delta);
       State_Monad.return (case r of
          Inl err \<Rightarrow> Inl (''apply delta failed: '' @ err)
        | Inr (v, changed, hitZero) \<Rightarrow>
            Inr \<lparr>ad_counter_value = v, ad_changed = (changed = 1), ad_hit_zero = (hitZero = 1)\<rparr>)}}"

definition consume_op :: "string \<Rightarrow> string \<Rightarrow> string" where
  "consume_op run nodeID = ''consume:'' @ run @ '':'' @ nodeID"

definition emit_op :: "string \<Rightarrow> string \<Rightarrow> string \<Rightarrow> string" where
  "emit_op run fromNode emitID = ''emit:'' @ run @ '':'' @ fromNode @ '':'' @ emitID"

definition Consume :: "env \<Rightarrow> string \<Rightarrow> string \<Rightarrow> unit res io" where
  "Consume e run nodeID = do {
     r \<leftarrow> ApplyDelta e run (consume_op run nodeID) (- 1);
     State_Monad.return (case r of Inl err \<Rightarrow> Inl err | Inr _ \<Rightarrow> Inr ())}"

definition Emit :: "env \<Rightarrow> string \<Rightarrow> string \<Rightarrow> string list \<Rightarrow> unit res io" where
  "Emit e run fromNode toNodes =
     (if toNodes = [] then State_Monad.return (Inr ())
      else do {
        emitID \<leftarrow> now (uuid e);
        r \<leftarrow> ApplyDelta e run (emit_op run fromNode emitID) (int (length toNodes));
        State_Monad.return (case r of Inl err \<Rightarrow> Inl err | Inr _ \<Rightarrow> Inr ())})"

definition GetCounter :: "env \<Rightarrow> string \<Rightarrow> int res io" where
  "GetCounter e run = do {
     ok \<leftarrow> attempt e (OpGet (counter_key run));
     w \<leftarrow> State_Monad.get;
     State_Monad.return (if ok then Inr (counter_of w (counter_key run)) else Inl ''failed to get counter: '')}"

definition InitializeCounter :: "env \<Rightarrow> string \<Rightarrow> int \<Rightarrow> unit res io" where
  "InitializeCounter e run v = do {
     ok \<leftarrow> attempt e (OpSet (counter_key run));
     if \<not> ok then State_Monad.return (Inl ''failed to initialize counter: '')
     else do {
       State_Monad.update (\<lambda>w. w\<lparr>r_ints := (r_ints w)(counter_key run := Some v)\<rparr>);
       State_Monad.return (Inr ())}}"

definition StoreContext :: "env \<Rightarrow> string \<Rightarrow> string \<Rightarrow> string \<Rightarrow> unit res io" where
  "StoreContext e run nodeID outputRef = do {
     ok \<leftarrow> attempt e (OpHSet (context_key run));
     if \<not> ok then State_Monad.return (Inl ''failed to store context: '')
     else do {
       State_Monad.update (\<lambda>w. w\<lparr>r_hash := (r_hash w)(context_key run :=
          AList.update (nodeID @ '':output'') outputRef (r_hash w (context_key run)))\<rparr>);
       State_Monad.return (Inr ())}}"

fun load_outputs :: "env \<Rightarrow> string smap \<Rightarrow> gval smap \<Rightarrow> gval smap io" where
  "load_outputs e [] ctx = State_Monad.return ctx"
| "load_outputs e ((key, ref) # rest) ctx = do {
     r \<leftarrow> cas_Get e ref;
     load_outputs e rest (case r of Inl _ \<Rightarrow> ctx | Inr d \<Rightarrow> AList.update key d ctx)}"

definition LoadContext :: "env \<Rightarrow> string \<Rightarrow> gval smap res io" where
  "LoadContext e run = do {
     ok \<leftarrow> attempt e (OpHGetAll (context_key run));
     w \<leftarrow> State_Monad.get;
     if \<not> ok then State_Monad.return (Inl ''failed to load context: '')
     else do {
       ctx \<leftarrow> load_outputs e (range_map (mord e) (context_key run) (r_hash w (context_key run))) [];
       State_Monad.return (Inr ctx)}}"

definition LoadNodeOutput :: "env \<Rightarrow> string \<Rightarrow> string \<Rightarrow> gval res io" where
  "LoadNodeOutput e run nodeID = do {
     ok \<leftarrow> attempt e (OpHGet (context_key run));
     w \<leftarrow> State_Monad.get;
     if \<not> ok then State_Monad.return (Inl ''failed to get node output reference: '')
     else (case map_of (r_hash w (context_key run)) (nodeID @ '':output'') of
        None \<Rightarrow> State_Monad.return (Inl (''node output not found: '' @ nodeID))
      | Some ref \<Rightarrow> do {
          r \<leftarrow> cas_Get e ref;
          State_Monad.return (case r of
             Inl err \<Rightarrow> Inl (''failed to load node output from CAS: '' @ err)
           | Inr v \<Rightarrow> Inr (unmarshal v))})}"

definition LoadPayload :: "env \<Rightarrow> string \<Rightarrow> gval res io" where
  "LoadPayload e ref = do {
     r \<leftarrow> cas_Get e ref;
     State_Monad.return (case r of Inl err \<Rightarrow> Inl err | Inr v \<Rightarrow> Inr (unmarshal v))}"

definition StoreOutput :: "env \<Rightarrow> gval \<Rightarrow> string res io" where
  "StoreOutput e d = cas_Put e d"

text \<open>\<open>LoadConfig\<close> and \<open>LoadContext\<close> hand out raw byte slices, unlike the two other loads.\<close>

definition LoadConfig :: "env \<Rightarrow> string \<Rightarrow> gval res io" where
  "LoadConfig e ref = cas_Get e ref"

section \<open>Exactly-once accounting\<close>

text \<open>A ledger counts every operation key at most once. \<open>fits\<close> says when an amount can be booked.\<close>

locale ledger =
  fixes book :: "'k \<Rightarrow> int \<Rightarrow> 's \<Rightarrow> 's"
    and booked :: "'s \<Rightarrow> 'k set"
    and total :: "'s \<Rightarrow> int"
    and lo hi :: int
  assumes book_again: "k \<in> booked s \<Longrightarrow> booked (book k d s) = booked s \<and> total (book k d s) = total s"
    and book_new: "k \<notin> booked s \<Longrightarrow> lo \<le> total s + d \<Longrightarrow> total s + d \<le> hi \<Longrightarrow>
          booked (book k d s) = insert k (booked s) \<and> total (book k d s) = total s + d"
begin

lemma booked_book:
  "lo \<le> total s + d \<Longrightarrow> total s + d \<le> hi \<Longrightarrow> booked (book k d s) = insert k (booked s)"
  using book_again [of k s d] book_new [of k s d] by (cases "k \<in> booked s") auto

text \<open>Any sequence of bookings in which a key always carries the same amount ends with the total of
  the distinct new keys.\<close>

lemma fold_book:
  assumes "\<bar>total s\<bar> + (\<Sum>k \<leftarrow> ks. \<bar>f k\<bar>) \<le> min (- lo) hi"
  shows "booked (fold (\<lambda>k. book k (f k)) ks s) = booked s \<union> set ks
    \<and> total (fold (\<lambda>k. book k (f k)) ks s) = total s + (\<Sum>k \<in> set ks - booked s. f k)"
  using assms
proof (induction ks arbitrary: s)
  case (Cons k ks)
  have nonneg: "0 \<le> (\<Sum>k \<leftarrow> ks. \<bar>f k\<bar>)" by (rule sum_list_nonneg) auto
  show ?case
  proof (cases "k \<in> booked s")
    case True
    note b = book_again [OF True, of "f k"]
    have "\<bar>total (book k (f k) s)\<bar> + (\<Sum>k \<leftarrow> ks. \<bar>f k\<bar>) \<le> min (- lo) hi" using Cons.prems b by auto
    from Cons.IH [OF this] b True show ?thesis by (auto simp: insert_Diff_if)
  next
    case False
    have "lo \<le> total s + f k" "total s + f k \<le> hi" using Cons.prems nonneg by auto
    note b = book_new [OF False this]
    have "\<bar>total (book k (f k) s)\<bar> + (\<Sum>k \<leftarrow> ks. \<bar>f k\<bar>) \<le> min (- lo) hi" using Cons.prems b by auto
    from Cons.IH [OF this] b
    have 1: "booked (fold (\<lambda>k. book k (f k)) ks (book k (f k) s)) = insert k (booked s) \<union> set ks"
      and 2: "total (fold (\<lambda>k. book k (f k)) ks (book k (f k) s))
        = total s + f k + (\<Sum>k \<in> set ks - insert k (booked s). f k)" by auto
    have "set (k # ks) - booked s = insert k (set ks - insert k (booked s))" using False by auto
    then have "(\<Sum>k \<in> set (k # ks) - booked s. f k) = f k + (\<Sum>k \<in> set ks - insert k (booked s). f k)" by simp
    with 1 2 show ?thesis by simp
  qed
qed simp

lemma fold_book_order:
  assumes "\<bar>total s\<bar> + (\<Sum>k \<leftarrow> ks. \<bar>f k\<bar>) \<le> min (- lo) hi" and "\<bar>total s\<bar> + (\<Sum>k \<leftarrow> ls. \<bar>f k\<bar>) \<le> min (- lo) hi"
    and "set ks = set ls"
  shows "total (fold (\<lambda>k. book k (f k)) ks s) = total (fold (\<lambda>k. book k (f k)) ls s)"
  using fold_book [OF assms(1)] fold_book [OF assms(2)] assms(3) by simp

end

text \<open>The script on the keys of one run.\<close>

definition script_step :: "string \<Rightarrow> string \<Rightarrow> int \<Rightarrow> world \<Rightarrow> world" where
  "script_step run opKey delta w =
     snd (apply_delta_script (applied_key run) (counter_key run) run opKey delta w)"

abbreviation applied_ops :: "string \<Rightarrow> world \<Rightarrow> string set" where
  "applied_ops run w \<equiv> r_sets w (applied_key run)"

abbreviation run_counter :: "string \<Rightarrow> world \<Rightarrow> int" where
  "run_counter run w \<equiv> counter_of w (counter_key run)"

lemma script_seen:
  "opKey \<in> r_sets w a \<Longrightarrow> snd (apply_delta_script a c run opKey delta w) = w"
  by (simp add: apply_delta_script_def split: option.splits)

lemma counter_of_upd [simp]: "counter_of (w\<lparr>r_ints := (r_ints w)(k := Some v)\<rparr>) k = v"
  by (simp add: counter_of_def)

lemma counter_of_cong: "r_ints w = r_ints w' \<Longrightarrow> counter_of w k = counter_of w' k"
  by (simp add: counter_of_def)

lemma script_fresh:
  assumes "opKey \<notin> applied_ops run w" and "int64_min \<le> run_counter run w + d" and "run_counter run w + d \<le> int64_max"
  shows "applied_ops run (script_step run opKey d w) = insert opKey (applied_ops run w)
    \<and> run_counter run (script_step run opKey d w) = run_counter run w + d"
  using assms by (auto simp: script_step_def apply_delta_script_def Let_def counter_of_def)

interpretation run_ledger: ledger "script_step run" "applied_ops run" "run_counter run" int64_min int64_max for run
proof
  show "k \<in> applied_ops run w \<Longrightarrow>
      applied_ops run (script_step run k d w) = applied_ops run w \<and> run_counter run (script_step run k d w) = run_counter run w"
    for k w d
    by (simp add: script_step_def script_seen)
qed (rule script_fresh)

lemma run_ApplyDelta:
  assumes "reliable e"
  shows "snd (run_state (ApplyDelta e run k d) w) = script_step run k d (w\<lparr>r_tick := Suc (r_tick w)\<rparr>)"
  using assms by (auto simp: ApplyDelta_def script_step_def split: prod.splits)

text \<open>Ticks do not matter to the script.\<close>

lemma script_step_tick: "script_step run k d (w\<lparr>r_tick := t\<rparr>) = (script_step run k d w)\<lparr>r_tick := t\<rparr>"
  by (auto simp: script_step_def apply_delta_script_def counter_of_def Let_def split: option.splits)

definition ApplyDeltas :: "env \<Rightarrow> string \<Rightarrow> (string \<times> int) list \<Rightarrow> unit io" where
  "ApplyDeltas e run ops = for_each (\<lambda>(k, d). do {_ \<leftarrow> ApplyDelta e run k d; State_Monad.return ()}) ops"

lemma run_ApplyDeltas:
  assumes "reliable e"
  shows "\<exists>t. snd (run_state (ApplyDeltas e run (map (\<lambda>k. (k, f k)) ks)) w)
      = (fold (\<lambda>k. script_step run k (f k)) ks w)\<lparr>r_tick := t\<rparr>"
proof (induction ks arbitrary: w)
  case Nil
  show ?case by (simp add: ApplyDeltas_def) (metis world.surjective world.update_convs(1))
next
  case (Cons k ks)
  obtain r w1 where a: "run_state (ApplyDelta e run k (f k)) w = (r, w1)" by (cases "run_state (ApplyDelta e run k (f k)) w")
  have w1: "w1 = (script_step run k (f k) w)\<lparr>r_tick := Suc (r_tick w)\<rparr>"
    using run_ApplyDelta [OF assms, of run k "f k" w] a by (simp add: script_step_tick)
  have tick: "fold (\<lambda>k. script_step run k (f k)) ks (v\<lparr>r_tick := t\<rparr>) = (fold (\<lambda>k. script_step run k (f k)) ks v)\<lparr>r_tick := t\<rparr>" for v t
    by (induction ks arbitrary: v) (simp_all add: script_step_tick)
  from Cons.IH [of w1] show ?case by (auto simp: ApplyDeltas_def a w1 tick)
qed

section \<open>Properties of the counter\<close>

text \<open>An environment in which everything works, for concrete runs: ids and times are the tick.\<close>

definition calm_env :: env where
  "calm_env = \<lparr>fault = (\<lambda>_ _. False), nano = (\<lambda>t. t), unix = int, uuid = show_nat, uuid_ok = (\<lambda>_. True), sha256 = (\<lambda>_. ''0''),
     cel_compile = (\<lambda>_. None), cel_eval = (\<lambda>_ _ _. Inr (GBool True)), gjson = (\<lambda>_ _. None),
     http_get = (\<lambda>_ _ _. HFail ''no server''), mord = (\<lambda>_ ks. ks),
     num_text = (\<lambda>x. show_int \<lfloor>x\<rfloor>), time_text = show_nat\<rparr>"

lemma reliable_calm [simp]: "reliable calm_env"
  by (simp add: reliable_def calm_env_def)

text \<open>C10. Exactly-once accounting: after any sequence of counter operations of a run, in any order and
  with any repetitions, the counter is its old value plus the amounts of the distinct operation
  keys that had not been applied before, and exactly those keys have been added to the
  applied set. (An operation key always carries the same amount; the sum of all amounts fits into a
  signed 64-bit integer.)\<close>

theorem counter_exactly_once:
  assumes "reliable e"
    and "\<bar>run_counter run w\<bar> + (\<Sum>k \<leftarrow> ks. \<bar>f k\<bar>) \<le> int64_max"
  defines "w' \<equiv> snd (run_state (ApplyDeltas e run (map (\<lambda>k. (k, f k)) ks)) w)"
  shows "applied_ops run w' = applied_ops run w \<union> set ks
    \<and> run_counter run w' = run_counter run w + (\<Sum>k \<in> set ks - applied_ops run w. f k)"
proof -
  obtain t where t: "w' = (fold (\<lambda>k. script_step run k (f k)) ks w)\<lparr>r_tick := t\<rparr>"
    using run_ApplyDeltas [OF assms(1)] unfolding w'_def by blast
  have "\<bar>run_counter run w\<bar> + (\<Sum>k \<leftarrow> ks. \<bar>f k\<bar>) \<le> min (- int64_min) int64_max"
    using assms(2) by (simp add: int64_min_def int64_max_def)
  from run_ledger.fold_book [OF this] show ?thesis by (simp add: t counter_of_def)
qed

theorem counter_exactly_once_witness:
  "reliable calm_env
   \<and> run_counter ''r'' (snd (run_state (ApplyDeltas calm_env ''r'' (map (\<lambda>k. (k, if k = ''emit'' then 2 else - 1))
        [''c1'', ''emit'', ''c1'', ''c2'', ''emit''])) empty_world)) = 0"
proof -
  let ?f = "\<lambda>k. if k = ''emit'' then 2 else - 1 :: int"
  let ?ks = "[''c1'', ''emit'', ''c1'', ''c2'', ''emit'']"
  have "\<bar>run_counter ''r'' empty_world\<bar> + (\<Sum>k \<leftarrow> ?ks. \<bar>?f k\<bar>) \<le> int64_max"
    by (simp add: empty_world_def counter_of_def int64_max_def)
  from counter_exactly_once [OF reliable_calm this]
  have "run_counter ''r'' (snd (run_state (ApplyDeltas calm_env ''r'' (map (\<lambda>k. (k, ?f k)) ?ks)) empty_world))
    = run_counter ''r'' empty_world + (\<Sum>k \<in> set ?ks - applied_ops ''r'' empty_world. ?f k)" by blast
  also have "set ?ks - applied_ops ''r'' empty_world = {''c1'', ''c2'', ''emit''}"
    by (auto simp: empty_world_def)
  also have "run_counter ''r'' empty_world + (\<Sum>k \<in> {''c1'', ''c2'', ''emit''}. ?f k) = 0"
    by (simp add: empty_world_def counter_of_def)
  finally show ?thesis by simp
qed

text \<open>A repeated operation changes nothing: if its key is in the applied set, the counter, the applied
  set, every other key and the list of published events stay as they are, and the result reports
  \<open>Changed = false\<close>.\<close>

theorem ApplyDelta_idempotent:
  assumes "reliable e" and "opKey \<in> applied_ops run w"
  shows "\<exists>r. run_state (ApplyDelta e run opKey delta) w = (Inr r, w\<lparr>r_tick := Suc (r_tick w)\<rparr>) \<and> \<not> ad_changed r"
  using assms by (auto simp: ApplyDelta_def apply_delta_script_def split: option.splits)

theorem ApplyDelta_idempotent_witness:
  "\<exists>r. run_state (ApplyDelta calm_env ''r'' ''k'' 5) (empty_world\<lparr>r_sets := (\<lambda>_. {''k''})\<rparr>)
      = (Inr r, empty_world\<lparr>r_sets := (\<lambda>_. {''k''}), r_tick := 1\<rparr>) \<and> \<not> ad_changed r"
  using ApplyDelta_idempotent [OF reliable_calm, where opKey = "''k''" and run = "''r''" and w = "empty_world\<lparr>r_sets := (\<lambda>_. {''k''})\<rparr>" and delta = 5]
  by (simp add: empty_world_def)

text \<open>The completion event of a run is published by exactly those operations that are new and bring the
  counter to zero; no other operation publishes anything.\<close>

theorem ApplyDelta_publishes_iff_zero:
  assumes "reliable e" and "int64_min \<le> run_counter run w + delta" and "run_counter run w + delta \<le> int64_max"
  shows "r_published (snd (run_state (ApplyDelta e run opKey delta) w)) =
    (if opKey \<notin> applied_ops run w \<and> run_counter run w + delta = 0
     then r_published w @ [(''completion_events'', GStr run)] else r_published w)"
  unfolding run_ApplyDelta [OF assms(1)] script_step_tick
  using assms(2,3) by (auto simp: script_step_def apply_delta_script_def Let_def split: option.splits)

theorem ApplyDelta_publishes_iff_zero_witness:
  "r_published (snd (run_state (ApplyDelta calm_env ''r'' ''k'' (- 1)) (empty_world\<lparr>r_ints := (\<lambda>_. Some 1)\<rparr>)))
     = [(''completion_events'', GStr ''r'')]"
  using ApplyDelta_publishes_iff_zero [OF reliable_calm, where run = "''r''" and w = "empty_world\<lparr>r_ints := (\<lambda>_. Some 1)\<rparr>" and delta = "- 1" and opKey = "''k''"]
  by (simp add: empty_world_def counter_of_def int64_min_def int64_max_def)

end
