(* ===== verification/Control_Flow.thy ===== *)
theory Control_Flow
  imports Token_Counter
begin

text \<open>
  Conditions and control flow: \<open>cmd/workflow-runner/condition/evaluator.go\<close> and
  \<open>cmd/workflow-runner/operators/control_flow.go\<close>.

  CEL itself is a library: \<open>cel_compile e expr\<close> is the compilation error of an expression, if any,
  and \<open>cel_eval e expr output ctx\<close> the result of running the compiled program. The evaluator's
  cache is part of the state; the lemmas show it is transparent.
\<close>

section \<open>The condition evaluator\<close>

text \<open>\<open>strings.ReplaceAll(expr, "$.", "output.")\<close>.\<close>

fun normalize_expr :: "string \<Rightarrow> string" where
  "normalize_expr [] = []"
| "normalize_expr [c] = [c]"
| "normalize_expr (c # d # s) =
     (if c = CHR ''$'' \<and> d = CHR ''.'' then ''output.'' @ normalize_expr s else c # normalize_expr (d # s))"

definition evaluateCEL :: "env \<Rightarrow> string \<Rightarrow> gval \<Rightarrow> gval \<Rightarrow> bool res io" where
  "evaluateCEL e expr output ctx =
     (let normalizedExpr = normalize_expr expr in do {
       w \<leftarrow> State_Monad.get;
       err \<leftarrow> (if normalizedExpr \<in> r_cel_cache w then State_Monad.return None
               else (case cel_compile e normalizedExpr of
                  Some x \<Rightarrow> State_Monad.return (Some x)
                | None \<Rightarrow> do {
                    State_Monad.set (w\<lparr>r_cel_cache := insert normalizedExpr (r_cel_cache w)\<rparr>);
                    State_Monad.return None}));
       State_Monad.return (case err of
          Some x \<Rightarrow> Inl x
        | None \<Rightarrow> (case cel_eval e normalizedExpr output ctx of
             Inl x \<Rightarrow> Inl (''CEL evaluation error: '' @ x)
           | Inr (GBool b) \<Rightarrow> Inr b
           | Inr _ \<Rightarrow> Inl ''CEL expression did not return boolean''))})"

definition Evaluate :: "env \<Rightarrow> condition option \<Rightarrow> gval \<Rightarrow> gval smap \<Rightarrow> bool res io" where
  "Evaluate e cond output ctx =
     (case cond of
        None \<Rightarrow> State_Monad.return (Inl ''nil condition'')
      | Some c \<Rightarrow>
        if c_type c = ''cel'' then evaluateCEL e (c_expression c) output (GObj ctx)
        else State_Monad.return (Inl (''unsupported condition type: '' @ c_type c)))"

definition ClearCache :: "unit io" where
  "ClearCache = State_Monad.update (\<lambda>w. w\<lparr>r_cel_cache := {}\<rparr>)"

definition CacheSize :: "world \<Rightarrow> nat" where
  "CacheSize w = card (r_cel_cache w)"

section \<open>Loops\<close>

definition loop_key :: "string \<Rightarrow> string \<Rightarrow> string" where
  "loop_key run nodeID = ''loop:'' @ run @ '':'' @ nodeID"

definition load_context_or_empty :: "env \<Rightarrow> string \<Rightarrow> gval smap io" where
  "load_context_or_empty e run = do {
     r \<leftarrow> LoadContext e run;
     State_Monad.return (case r of Inl _ \<Rightarrow> [] | Inr c \<Rightarrow> c)}"

definition HandleLoop :: "env \<Rightarrow> string \<Rightarrow> string \<Rightarrow> string \<Rightarrow> loop_config \<Rightarrow> string list res io" where
  "HandleLoop e run nodeID resultRef l = do {
     it \<leftarrow> redis_IncrementHash e (loop_key run nodeID) 1;
     (case it of
        Inl err \<Rightarrow> State_Monad.return (Inl (''failed to increment loop iteration: '' @ err))
      | Inr iteration \<Rightarrow>
        if l_max_iterations l \<le> iteration then do {
          _ \<leftarrow> redis_DeleteLoop e (loop_key run nodeID);
          State_Monad.return (Inr (l_timeout_path l))}
        else (case l_condition l of
           None \<Rightarrow> State_Monad.return (Inr [l_loop_back_to l])
         | Some c \<Rightarrow> do {
             out \<leftarrow> LoadPayload e resultRef;
             (case out of
                Inl _ \<Rightarrow> do {
                  _ \<leftarrow> redis_DeleteLoop e (loop_key run nodeID);
                  State_Monad.return (Inr (l_break_path l))}
              | Inr output \<Rightarrow> do {
                  ctx \<leftarrow> load_context_or_empty e run;
                  met \<leftarrow> Evaluate e (Some c) output ctx;
                  (case met of
                     Inr True \<Rightarrow> State_Monad.return (Inr [l_loop_back_to l])
                   | _ \<Rightarrow> do {
                       _ \<leftarrow> redis_DeleteLoop e (loop_key run nodeID);
                       State_Monad.return (Inr (l_break_path l))})})}))}"

section \<open>Branches\<close>

fun first_match :: "env \<Rightarrow> gval \<Rightarrow> gval smap \<Rightarrow> branch_rule list \<Rightarrow> string list option io" where
  "first_match e output ctx [] = State_Monad.return None"
| "first_match e output ctx (r # rs) =
     (case br_condition r of
        None \<Rightarrow> first_match e output ctx rs
      | Some c \<Rightarrow> do {
          met \<leftarrow> Evaluate e (Some c) output ctx;
          (case met of
             Inr True \<Rightarrow> State_Monad.return (Some (br_next_nodes r))
           | _ \<Rightarrow> first_match e output ctx rs)})"

definition HandleBranch :: "env \<Rightarrow> string \<Rightarrow> string \<Rightarrow> branch_config \<Rightarrow> string list res io" where
  "HandleBranch e run resultRef b = do {
     out \<leftarrow> LoadPayload e resultRef;
     (case out of
        Inl _ \<Rightarrow> State_Monad.return (Inr (b_default b))
      | Inr output \<Rightarrow> do {
          ctx \<leftarrow> load_context_or_empty e run;
          m \<leftarrow> first_match e output ctx (b_rules b);
          State_Monad.return (Inr (case m of Some next \<Rightarrow> next | None \<Rightarrow> b_default b))})}"

section \<open>The router\<close>

definition DetermineNextNodes :: "env \<Rightarrow> string \<Rightarrow> string \<Rightarrow> string \<Rightarrow> node \<Rightarrow> string list res io" where
  "DetermineNextNodes e run nodeID resultRef n =
     (case n_loop n of
        Some l \<Rightarrow>
          if l_enabled l then HandleLoop e run nodeID resultRef l
          else (case n_branch n of
             Some b \<Rightarrow> if b_enabled b then HandleBranch e run resultRef b else State_Monad.return (Inr (n_dependents n))
           | None \<Rightarrow> State_Monad.return (Inr (n_dependents n)))
      | None \<Rightarrow>
          (case n_branch n of
             Some b \<Rightarrow> if b_enabled b then HandleBranch e run resultRef b else State_Monad.return (Inr (n_dependents n))
           | None \<Rightarrow> State_Monad.return (Inr (n_dependents n))))"

section \<open>What the operators change\<close>

text \<open>Everything except ticks, the evaluator's cache and the loop counters.\<close>

definition core :: "world \<Rightarrow> world" where
  "core w = w\<lparr>r_tick := 0, r_cel_cache := {}, r_loops := (\<lambda>_. None)\<rparr>"

lemma core_fields:
  assumes "core w = core w'"
  shows "r_strs w = r_strs w'" "r_ints w = r_ints w'" "r_sets w = r_sets w'" "r_hash w = r_hash w'"
    "r_streams w = r_streams w'" "r_signals w = r_signals w'" "r_published w = r_published w'"
    "r_spawned w = r_spawned w'" "r_runs w = r_runs w'" "r_pending w = r_pending w'" "r_crashed w = r_crashed w'"
  using assms by (cases w; cases w'; simp add: core_def)+

lemma core_upd [simp]:
  "core (w\<lparr>r_tick := t\<rparr>) = core w" "core (w\<lparr>r_cel_cache := c\<rparr>) = core w" "core (w\<lparr>r_loops := l\<rparr>) = core w"
  by (simp_all add: core_def)

text \<open>An operation that keeps the core and the loop counters.\<close>

definition pure_read :: "'a io \<Rightarrow> bool" where
  "pure_read m \<longleftrightarrow> (\<forall>w. core (snd (run_state m w)) = core w \<and> r_loops (snd (run_state m w)) = r_loops w)"

lemma pure_read_return [intro, simp]: "pure_read (State_Monad.return x)"
  by (simp add: pure_read_def)

lemma pure_read_bind [intro]: "pure_read m \<Longrightarrow> (\<And>x. pure_read (f x)) \<Longrightarrow> pure_read (State_Monad.bind m f)"
  by (simp add: pure_read_def case_prod_unfold)

lemma pure_read_get [intro, simp]: "pure_read State_Monad.get"
  by (simp add: pure_read_def)

lemma pure_read_attempt [intro, simp]: "pure_read (attempt e op)"
  by (simp add: pure_read_def)

lemma pure_read_Get [intro, simp]: "pure_read (redis_Get e k)"
  unfolding redis_Get_def by (intro pure_read_bind pure_read_attempt pure_read_get pure_read_return)

lemma pure_read_cas_Get [intro, simp]: "pure_read (cas_Get e k)"
  unfolding cas_Get_def by (intro pure_read_bind pure_read_Get pure_read_return)

lemma pure_read_LoadPayload [intro, simp]: "pure_read (LoadPayload e k)"
  unfolding LoadPayload_def by (intro pure_read_bind pure_read_cas_Get pure_read_return)

lemma pure_read_load_outputs [intro, simp]: "pure_read (load_outputs e xs ctx)"
  by (induction e xs ctx rule: load_outputs.induct) (auto intro!: pure_read_bind)

lemma pure_read_LoadContext [intro, simp]: "pure_read (LoadContext e run)"
  unfolding LoadContext_def by (auto intro!: pure_read_bind)

lemma pure_read_context_or_empty [intro, simp]: "pure_read (load_context_or_empty e run)"
  unfolding load_context_or_empty_def by (auto intro!: pure_read_bind)

lemma pure_read_LoadNodeOutput [intro, simp]: "pure_read (LoadNodeOutput e run n)"
  unfolding LoadNodeOutput_def by (auto intro!: pure_read_bind split: option.split)

lemma pure_read_evaluateCEL [intro, simp]: "pure_read (evaluateCEL e expr out ctx)"
  by (auto simp: pure_read_def evaluateCEL_def Let_def split: option.splits)

lemma pure_read_Evaluate [intro, simp]: "pure_read (Evaluate e c out ctx)"
  unfolding Evaluate_def by (auto split: option.split)

lemma pure_read_first_match [intro, simp]: "pure_read (first_match e out ctx rs)"
proof (induction rs)
  case (Cons r rs)
  have "pure_read (case met of Inr True \<Rightarrow> State_Monad.return (Some (br_next_nodes r)) | _ \<Rightarrow> first_match e out ctx rs)"
    for met :: "bool res"
    using Cons.IH by (auto split: sum.split bool.split)
  then show ?case using Cons.IH by (auto split: option.split intro!: pure_read_bind)
qed simp

lemma pure_read_HandleBranch [intro, simp]: "pure_read (HandleBranch e run ref b)"
  unfolding HandleBranch_def by (auto intro!: pure_read_bind split: sum.split)

lemma pure_readD:
  "pure_read m \<Longrightarrow> run_state m w = (x, w') \<Longrightarrow> core w' = core w \<and> r_loops w' = r_loops w"
  by (metis pure_read_def snd_conv)

section \<open>The evaluator's cache is transparent\<close>

definition cache_ok :: "env \<Rightarrow> world \<Rightarrow> bool" where
  "cache_ok e w \<longleftrightarrow> (\<forall>x \<in> r_cel_cache w. cel_compile e x = None)"

definition eval_condition :: "env \<Rightarrow> condition option \<Rightarrow> gval \<Rightarrow> gval smap \<Rightarrow> bool res" where
  "eval_condition e cond output ctx =
     (case cond of
        None \<Rightarrow> Inl ''nil condition''
      | Some c \<Rightarrow>
        if c_type c = ''cel'' then
          (case cel_compile e (normalize_expr (c_expression c)) of
             Some x \<Rightarrow> Inl x
           | None \<Rightarrow> (case cel_eval e (normalize_expr (c_expression c)) output (GObj ctx) of
                Inl x \<Rightarrow> Inl (''CEL evaluation error: '' @ x)
              | Inr (GBool b) \<Rightarrow> Inr b
              | Inr _ \<Rightarrow> Inl ''CEL expression did not return boolean''))
        else Inl (''unsupported condition type: '' @ c_type c))"

lemma Evaluate_spec:
  assumes "cache_ok e w"
  shows "fst (run_state (Evaluate e cond output ctx) w) = eval_condition e cond output ctx
    \<and> cache_ok e (snd (run_state (Evaluate e cond output ctx) w))"
proof (cases cond)
  case None
  then show ?thesis using assms by (simp add: Evaluate_def eval_condition_def)
next
  case (Some c)
  let ?x = "normalize_expr (c_expression c)"
  show ?thesis
  proof (cases "?x \<in> r_cel_cache w")
    case True
    then show ?thesis using assms
      by (auto simp: Some Evaluate_def eval_condition_def evaluateCEL_def Let_def cache_ok_def)
  next
    case False
    then show ?thesis using assms
      by (cases "cel_compile e ?x")
        (auto simp: Some Evaluate_def eval_condition_def evaluateCEL_def Let_def cache_ok_def)
  qed
qed

section \<open>What a condition sees\<close>

lemma cas_blobs_upd [simp]:
  "cas_blobs (w\<lparr>r_tick := t\<rparr>) = cas_blobs w" "cas_blobs (w\<lparr>r_loops := l\<rparr>) = cas_blobs w"
  by (simp_all add: cas_blobs_def fun_eq_iff)

lemma run_cas_Get [run_simps]:
  "reliable e \<Longrightarrow> run_state (cas_Get e ref) w =
     ((case cas_blobs w ref of Some d \<Rightarrow> Inr (GRaw d) | None \<Rightarrow> Inl (''CAS entry not found: '' @ ref)),
      w\<lparr>r_tick := Suc (r_tick w)\<rparr>)"
  by (simp add: cas_Get_def run_Get cas_blobs_def split: option.split rstr.split)

lemma run_LoadPayload [run_simps]:
  "reliable e \<Longrightarrow> run_state (LoadPayload e ref) w =
     ((case cas_blobs w ref of Some d \<Rightarrow> Inr d | None \<Rightarrow> Inl (''CAS entry not found: '' @ ref)),
      w\<lparr>r_tick := Suc (r_tick w)\<rparr>)"
  by (simp add: LoadPayload_def run_cas_Get split: option.split)

text \<open>The context of a run as a function of the state: the raw text of every recorded output that is
  still in the content store.\<close>

definition context_at :: "env \<Rightarrow> string \<Rightarrow> world \<Rightarrow> gval smap" where
  "context_at e run w =
     fold (\<lambda>(key, ref) ctx. case cas_blobs w ref of None \<Rightarrow> ctx | Some d \<Rightarrow> AList.update key (GRaw d) ctx)
       (range_map (mord e) (context_key run) (r_hash w (context_key run))) []"

lemma run_load_outputs:
  assumes "reliable e"
  shows "\<exists>t. run_state (load_outputs e xs ctx) w =
     (fold (\<lambda>(key, ref) ctx. case cas_blobs w ref of None \<Rightarrow> ctx | Some d \<Rightarrow> AList.update key (GRaw d) ctx) xs ctx,
      w\<lparr>r_tick := t\<rparr>)"
proof (induction xs arbitrary: ctx w)
  case Nil
  show ?case by (simp add: exI [of _ "r_tick w"])
next
  case (Cons p xs)
  obtain k ref where p: "p = (k, ref)" by (cases p)
  let ?c = "case cas_blobs w ref of None \<Rightarrow> ctx | Some d \<Rightarrow> AList.update k (GRaw d) ctx"
  have c: "(case (case cas_blobs w ref of None \<Rightarrow> Inl (''CAS entry not found: '' @ ref) | Some d \<Rightarrow> Inr (GRaw d)) of
      Inl _ \<Rightarrow> ctx | Inr d \<Rightarrow> AList.update k d ctx) = ?c"
    by (simp split: option.split)
  from Cons.IH [of ?c "w\<lparr>r_tick := Suc (r_tick w)\<rparr>"] show ?case
    by (simp add: p run_cas_Get [OF assms] c)
qed

lemma run_load_context:
  assumes "reliable e"
  shows "\<exists>t. run_state (load_context_or_empty e run) w = (context_at e run w, w\<lparr>r_tick := t\<rparr>)"
proof -
  let ?xs = "range_map (mord e) (context_key run) (r_hash w (context_key run))"
  obtain t where "run_state (load_outputs e ?xs []) (w\<lparr>r_tick := Suc (r_tick w)\<rparr>) =
      (context_at e run w, w\<lparr>r_tick := t\<rparr>)"
    using run_load_outputs [OF assms, of ?xs "[]" "w\<lparr>r_tick := Suc (r_tick w)\<rparr>"]
    by (auto simp: context_at_def cas_blobs_def)
  with assms show ?thesis
    by (auto simp: load_context_or_empty_def LoadContext_def)
qed

section \<open>Properties of branches\<close>

lemma cache_ok_tick [simp]: "cache_ok e (w\<lparr>r_tick := t\<rparr>) = cache_ok e w"
  by (simp add: cache_ok_def)

definition rule_holds :: "env \<Rightarrow> gval \<Rightarrow> gval smap \<Rightarrow> branch_rule \<Rightarrow> bool" where
  "rule_holds e out ctx r \<longleftrightarrow>
     br_condition r \<noteq> None \<and> eval_condition e (br_condition r) out ctx = Inr True"

lemma run_first_match:
  assumes "cache_ok e w"
  shows "fst (run_state (first_match e out ctx rs) w) = map_option br_next_nodes (find (rule_holds e out ctx) rs)"
  using assms
proof (induction rs arbitrary: w)
  case (Cons r rs)
  show ?case
  proof (cases "br_condition r")
    case None
    then show ?thesis using Cons by (simp add: rule_holds_def)
  next
    case (Some c)
    obtain m w1 where m: "run_state (Evaluate e (Some c) out ctx) w = (m, w1)"
      by (cases "run_state (Evaluate e (Some c) out ctx) w")
    with Evaluate_spec [OF Cons.prems, of "Some c" out ctx]
    have "m = eval_condition e (Some c) out ctx" "cache_ok e w1" by auto
    with Cons.IH [of w1] Some m show ?thesis
      by (auto simp: rule_holds_def split: sum.split bool.split)
  qed
qed simp

text \<open>C11. A branch takes the first rule, in the order of its rule list, whose condition evaluates to true on
  the node's output and the run's context; a rule without condition, a rule whose condition does not compile,
  fails or is not boolean is skipped; when no rule applies, or the output cannot be loaded, the
  default path is taken. \<open>HandleBranch\<close> never fails.\<close>

theorem HandleBranch_first_rule:
  assumes "reliable e" and "cache_ok e w"
  shows "fst (run_state (HandleBranch e run ref b) w) =
    Inr (case cas_blobs w ref of
           None \<Rightarrow> b_default b
         | Some out \<Rightarrow> (case find (rule_holds e out (context_at e run w)) (b_rules b) of
             None \<Rightarrow> b_default b
           | Some r \<Rightarrow> br_next_nodes r))"
proof (cases "cas_blobs w ref")
  case None
  then show ?thesis by (simp add: HandleBranch_def run_LoadPayload [OF assms(1)])
next
  case (Some out)
  let ?w = "w\<lparr>r_tick := Suc (r_tick w)\<rparr>"
  obtain t where t: "run_state (load_context_or_empty e run) ?w = (context_at e run ?w, ?w\<lparr>r_tick := t\<rparr>)"
    using run_load_context [OF assms(1)] by blast
  have c: "context_at e run ?w = context_at e run w" by (simp add: context_at_def)
  obtain m w2 where m: "run_state (first_match e out (context_at e run w) (b_rules b)) (w\<lparr>r_tick := t\<rparr>) = (m, w2)"
    by (cases "run_state (first_match e out (context_at e run w) (b_rules b)) (w\<lparr>r_tick := t\<rparr>)")
  have "m = map_option br_next_nodes (find (rule_holds e out (context_at e run w)) (b_rules b))"
    using run_first_match [of e "w\<lparr>r_tick := t\<rparr>"] assms(2) m by (metis cache_ok_tick fst_conv)
  then show ?thesis using m t
    by (simp add: HandleBranch_def run_LoadPayload [OF assms(1)] Some c split: option.split)
qed

definition threshold_env :: env where
  "threshold_env = calm_env\<lparr>cel_eval := (\<lambda>expr out ctx.
     if expr = ''output.ok'' then Inr out else Inl ''no such attribute'')\<rparr>"

definition example_branch :: branch_config where
  "example_branch = \<lparr>b_enabled = True, b_type = ''conditional'',
     b_rules = [\<lparr>br_condition = Some (createCELCondition ''ctx.missing''), br_next_nodes = [''X'']\<rparr>,
                \<lparr>br_condition = Some (createCELCondition ''$.ok''), br_next_nodes = [''Y'']\<rparr>],
     b_default = [''D''], b_available_next_nodes = []\<rparr>"

theorem HandleBranch_first_rule_witness:
  "fst (run_state (HandleBranch threshold_env ''r'' ''h'' example_branch)
      (empty_world\<lparr>r_strs := (\<lambda>k. if k = ''cas:h'' then Some (RDoc (GBool True)) else None)\<rparr>)) = Inr [''Y'']
   \<and> fst (run_state (HandleBranch threshold_env ''r'' ''h'' example_branch)
      (empty_world\<lparr>r_strs := (\<lambda>k. if k = ''cas:h'' then Some (RDoc (GBool False)) else None)\<rparr>)) = Inr [''D'']"
proof -
  have r: "reliable threshold_env" by (simp add: reliable_def threshold_env_def calm_env_def)
  have c: "cache_ok threshold_env (empty_world\<lparr>r_strs := f\<rparr>)" for f by (simp add: cache_ok_def empty_world_def)
  show ?thesis
    unfolding HandleBranch_first_rule [OF r c]
    by (simp add: cas_blobs_def example_branch_def rule_holds_def createCELCondition_def eval_condition_def threshold_env_def calm_env_def)
qed

section \<open>Properties of loops\<close>

definition iterations :: "world \<Rightarrow> string \<Rightarrow> string \<Rightarrow> int" where
  "iterations w run nodeID = (case r_loops w (loop_key run nodeID) of None \<Rightarrow> 0 | Some i \<Rightarrow> i)"

text \<open>One visit of a loop node either goes back and counts, or leaves and forgets the count.\<close>

lemma run_DeleteLoop [run_simps]:
  "reliable e \<Longrightarrow> run_state (redis_DeleteLoop e k) w = (Inr (), w\<lparr>r_tick := Suc (r_tick w), r_loops := (r_loops w)(k := None)\<rparr>)"
  by (simp add: redis_DeleteLoop_def)

lemma run_IncrementHash [run_simps]:
  "reliable e \<Longrightarrow> run_state (redis_IncrementHash e k i) w =
     (let v = (case r_loops w k of None \<Rightarrow> 0 | Some j \<Rightarrow> j) + i
      in (Inr v, w\<lparr>r_tick := Suc (r_tick w), r_loops := (r_loops w)(k := Some v)\<rparr>))"
  by (simp add: redis_IncrementHash_def Let_def)

lemma HandleLoop_step:
  assumes "reliable e" and "run_state (HandleLoop e run n ref l) w = (r, w')"
  shows "(if l_max_iterations l \<le> iterations w run n + 1
          then r = Inr (l_timeout_path l) \<and> r_loops w' (loop_key run n) = None
          else r = Inr [l_loop_back_to l] \<and> r_loops w' (loop_key run n) = Some (iterations w run n + 1)
             \<or> l_condition l \<noteq> None \<and> r = Inr (l_break_path l) \<and> r_loops w' (loop_key run n) = None)
         \<and> core w' = core w"
proof -
  let ?k = "loop_key run n" and ?i = "iterations w run n + 1"
  let ?w1 = "w\<lparr>r_tick := Suc (r_tick w), r_loops := (r_loops w)(?k := Some ?i)\<rparr>"
  have inc: "run_state (redis_IncrementHash e ?k 1) w = (Inr ?i, ?w1)"
    by (simp add: run_IncrementHash [OF assms(1)] iterations_def Let_def)
  show ?thesis
  proof (cases "l_max_iterations l \<le> ?i")
    case True
    with assms(2) inc show ?thesis by (auto simp: HandleLoop_def run_DeleteLoop [OF assms(1)])
  next
    case cont: False
    show ?thesis
    proof (cases "l_condition l")
      case None
      with assms(2) inc cont show ?thesis by (auto simp: HandleLoop_def)
    next
      case (Some c)
      let ?w2 = "?w1\<lparr>r_tick := Suc (Suc (r_tick w))\<rparr>"
      show ?thesis
      proof (cases "cas_blobs ?w1 ref")
        case None
        with assms(2) inc cont Some show ?thesis
          by (auto simp: HandleLoop_def run_DeleteLoop [OF assms(1)] run_LoadPayload [OF assms(1)])
      next
        case (Some out)
        obtain t where t: "run_state (load_context_or_empty e run) ?w2 = (context_at e run ?w2, ?w2\<lparr>r_tick := t\<rparr>)"
          using run_load_context [OF assms(1)] by blast
        obtain m w3 where m: "run_state (Evaluate e (Some c) out (context_at e run ?w2)) (?w2\<lparr>r_tick := t\<rparr>) = (m, w3)"
          by (cases "run_state (Evaluate e (Some c) out (context_at e run ?w2)) (?w2\<lparr>r_tick := t\<rparr>)")
        have w3: "core w3 = core w" "r_loops w3 = (r_loops w)(?k := Some ?i)"
          using pure_readD [OF pure_read_Evaluate m] by simp_all
        have "(r, w') = (case m of Inr True \<Rightarrow> (Inr [l_loop_back_to l], w3)
            | _ \<Rightarrow> (Inr (l_break_path l), w3\<lparr>r_tick := Suc (r_tick w3), r_loops := (r_loops w3)(?k := None)\<rparr>))"
          using assms(2) inc cont Some \<open>l_condition l = Some c\<close> m t
          by (simp add: HandleLoop_def run_DeleteLoop [OF assms(1)] run_LoadPayload [OF assms(1)]
              split: sum.splits bool.splits)
        with cont w3 \<open>l_condition l = Some c\<close> show ?thesis by (auto split: sum.splits bool.splits)
      qed
    qed
  qed
qed

text \<open>Successive visits of a loop node, each with the result of its body, with anything else the
  system does (\<open>gap\<close>) in between.\<close>

fun loop_visits :: "env \<Rightarrow> string \<Rightarrow> string \<Rightarrow> loop_config \<Rightarrow> (string \<times> (world \<Rightarrow> world)) list \<Rightarrow> world
    \<Rightarrow> (string list res \<times> int option) list" where
  "loop_visits e run n l [] w = []"
| "loop_visits e run n l ((ref, gap) # vs) w =
     (case run_state (HandleLoop e run n ref l) (gap w) of
        (r, w1) \<Rightarrow> (r, r_loops w1 (loop_key run n)) # loop_visits e run n l vs w1)"

lemma length_loop_visits [simp]: "length (loop_visits e run n l vs w) = length vs"
  by (induction vs arbitrary: w) (auto split: prod.split)

lemma loop_visits_leave:
  assumes "reliable e" and "\<forall>v \<in> set vs. \<forall>w. r_loops (snd v w) (loop_key run n) = r_loops w (loop_key run n)"
    and "vs \<noteq> []" and "l_max_iterations l - iterations w run n \<le> int (length vs)"
  shows "\<exists>i < length vs. int i \<le> max 0 (l_max_iterations l - iterations w run n - 1)
    \<and> loop_visits e run n l vs w ! i \<in> {(Inr (l_timeout_path l), None), (Inr (l_break_path l), None)}"
  using assms(2-4)
proof (induction vs arbitrary: w)
  case (Cons v vs)
  obtain ref gap where v: "v = (ref, gap)" by (cases v)
  obtain r w1 where r: "run_state (HandleLoop e run n ref l) (gap w) = (r, w1)"
    by (cases "run_state (HandleLoop e run n ref l) (gap w)")
  have it: "iterations (gap w) run n = iterations w run n" using Cons.prems(1) v by (simp add: iterations_def)
  note step = HandleLoop_step [OF assms(1) r, unfolded it]
  show ?case
  proof (cases "(r, r_loops w1 (loop_key run n)) \<in> {(Inr (l_timeout_path l), None), (Inr (l_break_path l), None)}")
    case True
    then show ?thesis by (intro exI [of _ 0]) (simp add: v r)
  next
    case False
    with step have less: "iterations w run n + 1 < l_max_iterations l"
      and w1: "iterations w1 run n = iterations w run n + 1"
      by (auto simp: iterations_def split: if_splits)
    then have ne: "vs \<noteq> []" using Cons.prems(3) by auto
    obtain i where "i < length vs" "int i \<le> max 0 (l_max_iterations l - iterations w1 run n - 1)"
      "loop_visits e run n l vs w1 ! i \<in> {(Inr (l_timeout_path l), None), (Inr (l_break_path l), None)}"
      using Cons.IH [OF _ ne, of w1] Cons.prems w1 by auto
    then show ?thesis using less w1 by (intro exI [of _ "Suc i"]) (simp add: v r)
  qed
qed simp

text \<open>C12. A loop ends: among any \<open>max_iterations\<close> consecutive visits of a loop node that starts with no
  recorded iteration, one takes the timeout path or the break path and deletes the iteration counter, whatever the
  condition, the outputs and the rest of the system do in between. (Operations between the visits do not touch the
  node's own loop counter.)\<close>

theorem loop_terminates:
  assumes "reliable e" and "\<forall>v \<in> set vs. \<forall>w. r_loops (snd v w) (loop_key run n) = r_loops w (loop_key run n)"
    and "r_loops w (loop_key run n) = None" and "length vs = max 1 (nat (l_max_iterations l))"
  shows "\<exists>i < length vs.
    loop_visits e run n l vs w ! i \<in> {(Inr (l_timeout_path l), None), (Inr (l_break_path l), None)}"
proof -
  have it: "iterations w run n = 0" using assms(3) by (simp add: iterations_def)
  have "vs \<noteq> []" using assms(4) by (cases vs) auto
  moreover have "l_max_iterations l - iterations w run n \<le> int (length vs)" using assms(4) it by simp
  ultimately show ?thesis using loop_visits_leave [OF assms(1,2)] by blast
qed

definition example_loop :: loop_config where
  "example_loop = \<lparr>l_enabled = True, l_condition = None, l_max_iterations = 3, l_loop_back_to = ''A'',
     l_break_path = [''B''], l_timeout_path = [''T'']\<rparr>"

theorem loop_terminates_witness:
  "\<exists>i < 3. loop_visits calm_env ''r'' ''L'' example_loop (replicate 3 (''h'', id)) empty_world ! i
     \<in> {(Inr [''T''], None), (Inr [''B''], None)}"
  using loop_terminates [OF reliable_calm, where vs = "replicate 3 (''h'', id)" and w = empty_world and run = "''r''"
      and n = "''L''" and l = example_loop]
  by (simp add: example_loop_def empty_world_def)

text \<open>A visit of a loop node goes back at most while fewer than \<open>max_iterations\<close> iterations are counted,
  and it changes nothing but the node's own iteration counter, the evaluator's cache and the clock: counters, outputs, streams and
  signals stay as they are.\<close>

theorem HandleLoop_outcomes:
  assumes "reliable e" and "run_state (HandleLoop e run n ref l) w = (r, w')"
  shows "(r = Inr [l_loop_back_to l] \<and> r_loops w' (loop_key run n) = Some (iterations w run n + 1)
            \<and> iterations w run n + 1 < l_max_iterations l
         \<or> r = Inr (l_timeout_path l) \<and> r_loops w' (loop_key run n) = None \<and> l_max_iterations l \<le> iterations w run n + 1
         \<or> r = Inr (l_break_path l) \<and> r_loops w' (loop_key run n) = None \<and> l_condition l \<noteq> None
            \<and> iterations w run n + 1 < l_max_iterations l)
      \<and> core w' = core w"
  using HandleLoop_step [OF assms] by (auto split: if_splits)

theorem HandleLoop_outcomes_witness:
  "\<exists>r w'. run_state (HandleLoop calm_env ''r'' ''L'' ''h'' example_loop) empty_world = (r, w')
     \<and> r = Inr [''A''] \<and> r_loops w' (loop_key ''r'' ''L'') = Some 1 \<and> core w' = core empty_world"
proof -
  obtain r w' where w: "run_state (HandleLoop calm_env ''r'' ''L'' ''h'' example_loop) empty_world = (r, w')"
    by (cases "run_state (HandleLoop calm_env ''r'' ''L'' ''h'' example_loop) empty_world")
  have i: "iterations empty_world ''r'' ''L'' = 0" by (simp add: iterations_def empty_world_def)
  from HandleLoop_outcomes [OF reliable_calm w] w show ?thesis by (auto simp: i example_loop_def)
qed

end
