(* ===== verification/Lifecycle.thy ===== *)
theory Lifecycle
  imports Control_Flow
begin

text \<open>
  The life cycle of a run: \<open>cmd/workflow-runner/workflow_lifecycle\<close> (completion check, events, status),
  \<open>cmd/workflow-runner/consumer/status_update_consumer.go\<close> with the \<open>UpdateStatus\<close> query of
  \<open>common/repository/run.go\<close>, and the two supervisors of \<open>cmd/workflow-runner/supervisor\<close>.

  A status change is written to Redis (the hot path) and queued on the stream \<open>run.status.updates\<close>;
  the consumer copies the queue into the \<open>run\<close> table. A consumer group hands out each entry once, in order: its
  cursor is the number of entries handed out. The lemmas show that the table follows the hot
  path under every interleaving of writers and consumer, and what the supervisors require before they end a run.
\<close>

section \<open>Loading the IR\<close>

definition ir_key :: "string \<Rightarrow> string" where "ir_key run = ''ir:'' @ run"

definition loadIR :: "env \<Rightarrow> string \<Rightarrow> ir res io" where
  "loadIR e run = do {
     r \<leftarrow> redis_Get e (ir_key run);
     State_Monad.return (case r of
        Inl err \<Rightarrow> Inl (''failed to get IR from Redis: '' @ err)
      | Inr (RIr i) \<Rightarrow> Inr i
      | Inr _ \<Rightarrow> Inl ''failed to unmarshal IR: '')}"

text \<open>\<open>ir.Metadata["username"].(string)\<close>.\<close>

definition ir_username :: "ir \<Rightarrow> string option" where
  "ir_username i = as_string (mget (ir_metadata i) ''username'')"

section \<open>Events and status\<close>

definition PublishWorkflowEvent :: "env \<Rightarrow> string \<Rightarrow> gval smap \<Rightarrow> unit io" where
  "PublishWorkflowEvent e username event = do {
     _ \<leftarrow> redis_PublishEvent e (''workflow:events:'' @ username) (GObj event);
     State_Monad.return ()}"

definition status_key :: "string \<Rightarrow> string" where "status_key run = ''run:status:'' @ run"

definition status_stream :: string where "status_stream = ''run.status.updates''"

text \<open>The pipeline sends both commands; each may fail on its own.\<close>

definition UpdateRunStatus :: "env \<Rightarrow> string \<Rightarrow> string \<Rightarrow> unit io" where
  "UpdateRunStatus e run status = do {
     _ \<leftarrow> now (unix e);
     _ \<leftarrow> redis_Set e (status_key run) (RText status);
     _ \<leftarrow> redis_AddToStream e status_stream (EStatus run status);
     State_Monad.return ()}"

definition CheckCompletion :: "env \<Rightarrow> string \<Rightarrow> unit io" where
  "CheckCompletion e run = do {
     c \<leftarrow> GetCounter e run;
     (case c of
        Inl _ \<Rightarrow> State_Monad.return ()
      | Inr counter \<Rightarrow>
        if counter = 0 then do {
          i \<leftarrow> loadIR e run;
          (case i of
             Inl _ \<Rightarrow> State_Monad.return ()
           | Inr ir \<Rightarrow> (case ir_username ir of
                None \<Rightarrow> State_Monad.return ()
              | Some username \<Rightarrow> do {
                  t \<leftarrow> now (unix e);
                  PublishWorkflowEvent e username
                    [(''type'', GStr ''workflow_completed''), (''run_id'', GStr run), (''counter'', GNum 0),
                     (''timestamp'', GNum (of_int t))]}));
          UpdateRunStatus e run ''COMPLETED''}
        else State_Monad.return ())}"

section \<open>The status consumer\<close>

definition known_status :: "string \<Rightarrow> bool" where
  "known_status s \<longleftrightarrow> s \<in> {''COMPLETED'', ''FAILED'', ''RUNNING'', ''QUEUED''}"

definition UpdateStatus :: "env \<Rightarrow> string \<Rightarrow> string \<Rightarrow> unit res io" where
  "UpdateStatus e run status = do {
     ok \<leftarrow> attempt e (OpExec ''UPDATE run'');
     if \<not> ok then State_Monad.return (Inl ''failed to update run status: '')
     else do {
       State_Monad.update (\<lambda>w. w\<lparr>r_runs := AList.map_entry run (\<lambda>r. r\<lparr>rr_status := status\<rparr>) (r_runs w)\<rparr>);
       State_Monad.return (Inr ())}}"

definition handleMessage :: "env \<Rightarrow> entry \<Rightarrow> unit res io" where
  "handleMessage e message =
     (case message of
        EStatus run status \<Rightarrow>
        if \<not> uuid_ok e run then State_Monad.return (Inl ''invalid run_id: '')
        else if \<not> known_status status then State_Monad.return (Inl (''unknown status: '' @ status))
        else do {
          r \<leftarrow> UpdateStatus e run status;
          State_Monad.return (case r of
             Inl err \<Rightarrow> Inl (''failed to update run status in database: '' @ err)
           | Inr _ \<Rightarrow> Inr ())}
      | _ \<Rightarrow> State_Monad.return (Inl ''message missing update field''))"

text \<open>One read of the consumer group; the first component of the result is the new cursor. A message whose
  handling failed is acknowledged all the same.\<close>

definition processNextMessage :: "env \<Rightarrow> nat \<Rightarrow> (nat \<times> unit res) io" where
  "processNextMessage e cursor = do {
     ok \<leftarrow> attempt e (OpExec ''XREADGROUP'');
     w \<leftarrow> State_Monad.get;
     if \<not> ok then State_Monad.return (cursor, Inl ''XREADGROUP error: '')
     else if cursor < length (r_streams w status_stream) then do {
       _ \<leftarrow> handleMessage e (r_streams w status_stream ! cursor);
       _ \<leftarrow> attempt e (OpExec ''XACK'');
       State_Monad.return (Suc cursor, Inr ())}
     else State_Monad.return (cursor, Inr ())}"

section \<open>The completion supervisor\<close>

definition markCompleted :: "env \<Rightarrow> string \<Rightarrow> unit res io" where
  "markCompleted e run = do {
     t \<leftarrow> now (nano e);
     ok \<leftarrow> attempt e (OpExec ''UPDATE run'');
     if \<not> ok then State_Monad.return (Inl ''failed to update run status: '')
     else do {
       State_Monad.update (\<lambda>w. w\<lparr>r_runs := AList.map_entry run
         (\<lambda>r. r\<lparr>rr_status := ''COMPLETED'', rr_ended_at := Some (int t), rr_last_event_at := int t\<rparr>) (r_runs w)\<rparr>);
       State_Monad.return (Inr ())}}"

definition cleanup_keys :: "string \<Rightarrow> string list" where
  "cleanup_keys run = [counter_key run, applied_key run, context_key run, ir_key run]"

definition cleanup :: "env \<Rightarrow> string \<Rightarrow> unit io" where
  "cleanup e run = do {
     redis_DelLoops e (''loop:'' @ run @ '':'');
     for_each (\<lambda>k. State_Monad.bind (redis_Del e k) (\<lambda>_. State_Monad.return ())) (cleanup_keys run)}"

definition handleCompletionEvent :: "env \<Rightarrow> string \<Rightarrow> unit io" where
  "handleCompletionEvent e run = do {
     ok1 \<leftarrow> attempt e (OpGet (counter_key run));
     w1 \<leftarrow> State_Monad.get;
     if \<not> ok1 then State_Monad.return ()
     else if counter_of w1 (counter_key run) \<noteq> 0 then State_Monad.return ()
     else do {
       ok2 \<leftarrow> attempt e (OpSCard (''pending_approvals:'' @ run));
       w2 \<leftarrow> State_Monad.get;
       if \<not> ok2 then State_Monad.return ()
       else if 0 < card (r_sets w2 (''pending_approvals:'' @ run)) then State_Monad.return ()
       else do {
         ok3 \<leftarrow> attempt e (OpKeys (''pending_tokens:'' @ run @ '':''));
         w3 \<leftarrow> State_Monad.get;
         if \<not> ok3 then State_Monad.return ()
         else if filter (\<lambda>k. HasPrefix k (''pending_tokens:'' @ run @ '':'')) (r_pending w3) \<noteq> [] then State_Monad.return ()
         else do {
           m \<leftarrow> markCompleted e run;
           (case m of Inl _ \<Rightarrow> State_Monad.return () | Inr _ \<Rightarrow> cleanup e run)}}}}"

section \<open>The timeout detector\<close>

definition cleanupFailedRun :: "env \<Rightarrow> string \<Rightarrow> unit io" where
  "cleanupFailedRun e run = do {
     redis_DelLoops e (''loop:'' @ run @ '':'');
     ok \<leftarrow> attempt e (OpKeys (''pending_tokens:'' @ run @ '':''));
     (if ok then State_Monad.update (\<lambda>w. w\<lparr>r_pending :=
        filter (\<lambda>k. \<not> (HasPrefix k (''pending_tokens:'' @ run @ '':'') \<and> \<not> fault e (r_tick w) (OpDel k))) (r_pending w)\<rparr>)
      else State_Monad.return ());
     for_each (\<lambda>k. State_Monad.bind (redis_Del e k) (\<lambda>_. State_Monad.return ())) (cleanup_keys run)}"

text \<open>\<open>UPDATE ... WHERE run_id = $2 AND status = 'RUNNING'\<close>.\<close>

definition markFailed :: "env \<Rightarrow> string \<Rightarrow> unit res io" where
  "markFailed e run = do {
     t \<leftarrow> now (nano e);
     ok \<leftarrow> attempt e (OpExec ''UPDATE run'');
     w \<leftarrow> State_Monad.get;
     if \<not> ok then State_Monad.return (Inl ''failed to update run status: '')
     else if map_option rr_status (map_of (r_runs w) run) \<noteq> Some ''RUNNING'' then State_Monad.return (Inr ())
     else do {
       State_Monad.set (w\<lparr>r_runs := AList.map_entry run
         (\<lambda>r. r\<lparr>rr_status := ''FAILED'', rr_ended_at := Some (int t), rr_last_event_at := int t\<rparr>) (r_runs w)\<rparr>);
       cleanupFailedRun e run;
       State_Monad.return (Inr ())}}"

definition timeout_getCounter :: "env \<Rightarrow> string \<Rightarrow> int res io" where
  "timeout_getCounter e run = do {
     ok \<leftarrow> attempt e (OpGet (counter_key run));
     w \<leftarrow> State_Monad.get;
     State_Monad.return (if ok then Inr (counter_of w (counter_key run)) else Inl ''redis: '')}"

definition hanging :: "int \<Rightarrow> run_row \<Rightarrow> bool" where
  "hanging cutoff r \<longleftrightarrow> rr_status r = ''RUNNING'' \<and> rr_last_event_at r < cutoff"

text \<open>The query has no \<open>ORDER BY\<close>: the order of the rows, and so which hundred come back, is \<open>mord\<close>'s.\<close>

definition hanging_runs :: "env \<Rightarrow> int \<Rightarrow> run_row smap \<Rightarrow> string list" where
  "hanging_runs e cutoff rows =
     take 100 (map fst (filter (\<lambda>(_, r). hanging cutoff r) (range_map (mord e) ''run'' rows)))"

definition fail_run :: "env \<Rightarrow> string \<Rightarrow> unit io" where
  "fail_run e run = do {
     c \<leftarrow> timeout_getCounter e run;
     (case c of
        Inl _ \<Rightarrow> State_Monad.return ()
      | Inr _ \<Rightarrow> do {_ \<leftarrow> markFailed e run; State_Monad.return ()})}"

definition checkHangingWorkflows :: "env \<Rightarrow> int \<Rightarrow> unit res io" where
  "checkHangingWorkflows e timeout = do {
     t \<leftarrow> now (nano e);
     ok \<leftarrow> attempt e (OpExec ''SELECT run'');
     w \<leftarrow> State_Monad.get;
     if \<not> ok then State_Monad.return (Inl ''failed to query hanging workflows: '')
     else do {
       for_each (fail_run e) (hanging_runs e (int t - timeout) (r_runs w));
       State_Monad.return (Inr ())}}"

section \<open>The table follows the hot path\<close>

text \<open>What one queue entry does to the table.\<close>

fun apply_entry :: "entry \<Rightarrow> run_row smap \<Rightarrow> run_row smap" where
  "apply_entry (EStatus run status) rows = AList.map_entry run (\<lambda>r. r\<lparr>rr_status := status\<rparr>) rows"
| "apply_entry _ rows = rows"

definition good_entry :: "env \<Rightarrow> entry \<Rightarrow> bool" where
  "good_entry e x \<longleftrightarrow> (\<exists>run status. x = EStatus run status \<and> uuid_ok e run \<and> known_status status)"

text \<open>Writers (\<open>UpdateRunStatus\<close>), the consumer and anything else that leaves status keys, the status stream
  and the table alone, in any order.\<close>

inductive sync_step :: "env \<Rightarrow> world \<times> nat \<Rightarrow> world \<times> nat \<Rightarrow> bool" for e where
  status_write: "uuid_ok e run \<Longrightarrow> known_status status \<Longrightarrow>
    sync_step e (w, c) (snd (run_state (UpdateRunStatus e run status) w), c)"
| status_read: "run_state (processNextMessage e c) w = ((c', r), w') \<Longrightarrow> sync_step e (w, c) (w', c')"
| unrelated: "r_streams w' status_stream = r_streams w status_stream \<Longrightarrow> r_runs w' = r_runs w \<Longrightarrow>
    (\<And>run. r_strs w' (status_key run) = r_strs w (status_key run)) \<Longrightarrow> sync_step e (w, c) (w', c)"

inductive_cases sync_stepE: "sync_step e (w, c) s"

text \<open>The table once the queue is drained, and the invariant: it agrees with the hot path.\<close>

definition settled :: "world \<Rightarrow> nat \<Rightarrow> run_row smap" where
  "settled w c = fold apply_entry (drop c (r_streams w status_stream)) (r_runs w)"

definition agree :: "world \<Rightarrow> run_row smap \<Rightarrow> bool" where
  "agree w rows \<longleftrightarrow> (\<forall>run row s. map_of rows run = Some row \<longrightarrow> r_strs w (status_key run) = Some (RText s) \<longrightarrow> rr_status row = s)"

definition sync_inv :: "env \<Rightarrow> world \<times> nat \<Rightarrow> bool" where
  "sync_inv e = (\<lambda>(w, c). c \<le> length (r_streams w status_stream)
     \<and> list_all (good_entry e) (drop c (r_streams w status_stream)) \<and> agree w (settled w c))"

lemma status_key_inject [simp]: "status_key run = status_key run' \<longleftrightarrow> run = run'"
  by (simp add: status_key_def)

lemma run_UpdateRunStatus:
  assumes "reliable e"
  shows "snd (run_state (UpdateRunStatus e run status) w) =
    w\<lparr>r_tick := r_tick w + 3, r_strs := (r_strs w)(status_key run := Some (RText status)),
      r_streams := (r_streams w)(status_stream := r_streams w status_stream @ [EStatus run status])\<rparr>"
  using assms by (simp add: UpdateRunStatus_def run_Set run_AddToStream)

lemma run_handleMessage:
  assumes "reliable e" and "good_entry e x"
  shows "snd (run_state (handleMessage e x) w) = w\<lparr>r_tick := Suc (r_tick w), r_runs := apply_entry x (r_runs w)\<rparr>"
  using assms by (auto simp: good_entry_def handleMessage_def UpdateStatus_def)

lemma run_processNextMessage:
  assumes "reliable e" and "sync_inv e (w, c)"
  shows "\<exists>t. run_state (processNextMessage e c) w =
    (if c < length (r_streams w status_stream)
     then ((Suc c, Inr ()), w\<lparr>r_runs := apply_entry (r_streams w status_stream ! c) (r_runs w), r_tick := t\<rparr>)
     else ((c, Inr ()), w\<lparr>r_tick := t\<rparr>))"
proof (cases "c < length (r_streams w status_stream)")
  case True
  then have "good_entry e (r_streams w status_stream ! c)"
    using assms(2) by (auto simp: sync_inv_def Cons_nth_drop_Suc [symmetric])
  from run_handleMessage [OF assms(1) this, of "w\<lparr>r_tick := Suc (r_tick w)\<rparr>"] True show ?thesis
    by (intro exI [of _ "Suc (Suc (Suc (r_tick w)))"]) (simp add: processNextMessage_def assms(1) case_prod_unfold)
qed (simp add: processNextMessage_def assms(1) exI)

lemma settled_consume:
  "c < length (r_streams w status_stream) \<Longrightarrow>
   settled (w\<lparr>r_runs := apply_entry (r_streams w status_stream ! c) (r_runs w), r_tick := t\<rparr>) (Suc c) = settled w c"
  by (simp add: settled_def Cons_nth_drop_Suc [symmetric])

lemma agree_cong: "(\<And>run. r_strs w' (status_key run) = r_strs w (status_key run)) \<Longrightarrow> agree w' rows = agree w rows"
  by (simp add: agree_def)

lemma agree_write:
  "agree w rows \<Longrightarrow> agree (w\<lparr>r_tick := t, r_strs := (r_strs w)(status_key run := Some (RText status)), r_streams := x\<rparr>)
     (apply_entry (EStatus run status) rows)"
  by (auto simp: agree_def map_of_map_entry)

lemma sync_inv_consume:
  assumes "reliable e" and inv: "sync_inv e (w, c)" and "run_state (processNextMessage e c) w = ((c', r), w')"
  shows "sync_inv e (w', c')"
proof -
  obtain t where t: "((c', r), w') =
    (if c < length (r_streams w status_stream)
     then ((Suc c, Inr ()), w\<lparr>r_runs := apply_entry (r_streams w status_stream ! c) (r_runs w), r_tick := t\<rparr>)
     else ((c, Inr ()), w\<lparr>r_tick := t\<rparr>))"
    using run_processNextMessage [OF assms(1,2)] assms(3) by auto
  show ?thesis
  proof (cases "c < length (r_streams w status_stream)")
    case True
    with t have e: "c' = Suc c" "w' = w\<lparr>r_runs := apply_entry (r_streams w status_stream ! c) (r_runs w), r_tick := t\<rparr>"
      by simp_all
    have "agree w' (settled w' c')" using inv
      unfolding e settled_consume [OF True] by (simp add: sync_inv_def agree_def)
    with inv True show ?thesis by (auto simp: sync_inv_def e Cons_nth_drop_Suc [symmetric])
  next
    case False
    with t have "c' = c" "w' = w\<lparr>r_tick := t\<rparr>" by simp_all
    with inv show ?thesis by (simp add: sync_inv_def settled_def agree_def)
  qed
qed

lemma sync_inv_step:
  assumes "reliable e" and "sync_step e s s'" and "sync_inv e s"
  shows "sync_inv e s'"
  using assms(2)
proof cases
  case (status_write run status w c)
  have "agree w (settled w c)" using assms(3) status_write(1) by (simp add: sync_inv_def)
  from agree_write [OF this] show ?thesis using assms(3) status_write
    by (auto simp: sync_inv_def run_UpdateRunStatus [OF assms(1)] settled_def good_entry_def)
next
  case (status_read c w c' r w')
  then show ?thesis using sync_inv_consume [OF assms(1)] assms(3) by blast
next
  case (unrelated w' w c)
  then show ?thesis using assms(3) agree_cong [of w' w] by (auto simp: sync_inv_def settled_def)
qed

lemma sync_inv_reachable:
  assumes "reliable e" and "(sync_step e)\<^sup>*\<^sup>* s s'" and "sync_inv e s"
  shows "sync_inv e s'"
  using assms(2,3) by (induction rule: rtranclp_induct) (auto intro: sync_inv_step [OF assms(1)])

text \<open>Reading on until the queue is empty.\<close>

fun drain :: "env \<Rightarrow> nat \<Rightarrow> nat \<Rightarrow> world \<Rightarrow> world \<times> nat" where
  "drain e 0 c w = (w, c)"
| "drain e (Suc n) c w = (case run_state (processNextMessage e c) w of ((c', r), w') \<Rightarrow> drain e n c' w')"

lemma drain_done:
  assumes "reliable e" and "sync_inv e (w, c)" and "length (r_streams w status_stream) \<le> c + n"
  shows "sync_inv e (drain e n c w) \<and> snd (drain e n c w) = length (r_streams w status_stream)
    \<and> r_streams (fst (drain e n c w)) = r_streams w \<and> r_strs (fst (drain e n c w)) = r_strs w"
  using assms(2,3)
proof (induction n arbitrary: c w)
  case 0
  then have "c = length (r_streams w status_stream)" by (simp add: sync_inv_def)
  with 0 show ?case by simp
next
  case (Suc n)
  obtain c' r w' where p: "run_state (processNextMessage e c) w = ((c', r), w')"
    by (cases "run_state (processNextMessage e c) w") auto
  have inv: "sync_inv e (w', c')" by (rule sync_inv_consume [OF assms(1) Suc.prems(1) p])
  obtain t where t: "((c', r), w') =
    (if c < length (r_streams w status_stream)
     then ((Suc c, Inr ()), w\<lparr>r_runs := apply_entry (r_streams w status_stream ! c) (r_runs w), r_tick := t\<rparr>)
     else ((c, Inr ()), w\<lparr>r_tick := t\<rparr>))"
    using run_processNextMessage [OF assms(1) Suc.prems(1)] p by auto
  have "r_streams w' = r_streams w" "r_strs w' = r_strs w" "length (r_streams w status_stream) \<le> c' + n"
    using t Suc.prems(2) by (simp_all split: if_splits)
  then show ?case using Suc.IH [OF inv] p by simp
qed


definition one_run :: world where
  "one_run = empty_world\<lparr>r_runs := [(''r'', \<lparr>rr_status = ''QUEUED'', rr_last_event_at = 0, rr_ended_at = None\<rparr>)]\<rparr>"


section \<open>The supervisors\<close>

lemma Del_keeps_runs [simp]: "r_runs (snd (run_state (redis_Del e k) w)) = r_runs w"
  by (simp add: redis_Del_def)

lemma DelLoops_keeps_runs [simp]: "r_runs (snd (run_state (redis_DelLoops e k) w)) = r_runs w"
  by (simp add: redis_DelLoops_def)

lemma del_all_keeps_runs [simp]:
  "r_runs (snd (run_state (for_each (\<lambda>k. State_Monad.bind (redis_Del e k) (\<lambda>_. State_Monad.return ())) ks) w)) = r_runs w"
  by (rule for_each_invariant [where P = "\<lambda>v. r_runs v = r_runs w"]) (simp_all add: case_prod_unfold)

lemma cleanup_keeps_runs [simp]: "r_runs (snd (run_state (cleanup e run) w)) = r_runs w"
  by (simp add: cleanup_def case_prod_unfold)

lemma cleanupFailedRun_keeps_runs [simp]: "r_runs (snd (run_state (cleanupFailedRun e run) w)) = r_runs w"
  by (simp add: cleanupFailedRun_def case_prod_unfold)

text \<open>The completion supervisor completes a run only when its counter is zero, it has no pending approvals and no
  pending tokens; then it sets the row of that run alone to \<open>COMPLETED\<close>. In every other case, and whenever
  a command fails before the update, the table stays as it is. This holds for every pattern of failures.\<close>

theorem supervisor_completes_only_finished:
  assumes "r_runs (snd (run_state (handleCompletionEvent e run) w)) \<noteq> r_runs w"
  shows "counter_of w (counter_key run) = 0 \<and> card (r_sets w (''pending_approvals:'' @ run)) = 0
    \<and> (\<forall>k \<in> set (r_pending w). \<not> HasPrefix k (''pending_tokens:'' @ run @ '':''))
    \<and> (\<exists>t. r_runs (snd (run_state (handleCompletionEvent e run) w)) = AList.map_entry run
         (\<lambda>r. r\<lparr>rr_status := ''COMPLETED'', rr_ended_at := Some t, rr_last_event_at := t\<rparr>) (r_runs w))"
  using assms
  by (auto simp: handleCompletionEvent_def markCompleted_def counter_of_def case_prod_unfold filter_empty_conv
      split: if_splits sum.splits)

theorem supervisor_completes_only_finished_witness:
  "\<exists>t. r_runs (snd (run_state (handleCompletionEvent calm_env ''r'') one_run)) = AList.map_entry ''r''
         (\<lambda>r. r\<lparr>rr_status := ''COMPLETED'', rr_ended_at := Some t, rr_last_event_at := t\<rparr>) (r_runs one_run)"
proof -
  have "r_runs (snd (run_state (handleCompletionEvent calm_env ''r'') one_run)) \<noteq> r_runs one_run"
    by (simp add: handleCompletionEvent_def markCompleted_def counter_of_def case_prod_unfold one_run_def
        empty_world_def calm_env_def)
  from supervisor_completes_only_finished [OF this] show ?thesis by blast
qed

lemma fail_run_other:
  "run' \<noteq> run \<Longrightarrow> map_of (r_runs (snd (run_state (fail_run e run) w))) run' = map_of (r_runs w) run'"
  by (simp add: fail_run_def timeout_getCounter_def markFailed_def case_prod_unfold map_of_map_entry split: sum.split)

lemma fail_run_this:
  "reliable e \<Longrightarrow> map_option rr_status (map_of (r_runs w) run) = Some ''RUNNING'' \<Longrightarrow>
   map_option rr_status (map_of (r_runs (snd (run_state (fail_run e run) w))) run) = Some ''FAILED''"
  by (auto simp: fail_run_def timeout_getCounter_def markFailed_def case_prod_unfold map_of_map_entry)

lemma fail_runs_other:
  assumes "run \<notin> set rs"
  shows "map_of (r_runs (snd (run_state (for_each (fail_run e) rs) w))) run = map_of (r_runs w) run"
  by (rule for_each_invariant [where P = "\<lambda>v. map_of (r_runs v) run = map_of (r_runs w) run"])
    (use assms fail_run_other in metis)+

lemma fail_runs_this:
  assumes "reliable e" and "run \<in> set rs" and "distinct rs"
    and "map_option rr_status (map_of (r_runs w) run) = Some ''RUNNING''"
  shows "map_option rr_status (map_of (r_runs (snd (run_state (for_each (fail_run e) rs) w))) run) = Some ''FAILED''"
  using assms(2-4)
proof (induction rs arbitrary: w)
  case (Cons r rs)
  let ?w1 = "snd (run_state (fail_run e r) w)"
  have unfold: "snd (run_state (for_each (fail_run e) (r # rs)) w) = snd (run_state (for_each (fail_run e) rs) ?w1)"
    by (simp add: case_prod_unfold)
  show ?case
  proof (cases "r = run")
    case True
    with Cons.prems have "run \<notin> set rs" by simp
    with fail_runs_other fail_run_this [OF assms(1) Cons.prems(3)] True show ?thesis unfolding unfold by metis
  next
    case False
    with Cons.prems have run: "run \<in> set rs" "distinct rs" by simp_all
    have "map_option rr_status (map_of (r_runs ?w1) run) = Some ''RUNNING''"
      using fail_run_other [of run r e w] False Cons.prems(3) by simp
    from Cons.IH [OF run this] show ?thesis unfolding unfold .
  qed
qed simp

lemma distinct_range_map:
  assumes "perm_order ord" and "distinct (map fst m)"
  shows "distinct (map fst (range_map ord lbl m))"
proof -
  have k: "k \<in> set (ord lbl (map fst m)) \<Longrightarrow> \<exists>v. map_of m k = Some v" for k
    using perm_order_set [OF assms(1), of lbl "map fst m"] by (cases "map_of m k") (auto simp: map_of_eq_None_iff)
  have "map fst (List.map_filter (\<lambda>k. map_option (Pair k) (map_of m k)) ks) = ks"
    if "\<And>k. k \<in> set ks \<Longrightarrow> \<exists>v. map_of m k = Some v" for ks
    using that by (induction ks) (fastforce simp: List.map_filter_simps)+
  with k perm_order_distinct [OF assms(1), of lbl "map fst m"] assms(2) show ?thesis
    by (simp add: range_map_def)
qed

lemma hanging_runs_in:
  assumes "perm_order (mord e)" and "distinct (map fst rows)" and "run \<in> set (hanging_runs e cutoff rows)"
  shows "\<exists>row. map_of rows run = Some row \<and> hanging cutoff row"
  using assms(3) set_range_map [OF assms(1,2), of "''run''"] assms(2)
  by (fastforce simp: hanging_runs_def map_of_eq_Some_iff dest!: in_set_takeD)

text \<open>The timeout detector fails exactly the runs it should: a run that is not \<open>RUNNING\<close>, or whose last event is not
  older than the timeout, keeps its row whatever fails; and when no command fails and at most a hundred
  runs hang, every hanging run becomes \<open>FAILED\<close>. (Run ids are the primary key of the table.)\<close>

theorem timeout_fails_exactly_hanging:
  fixes e :: env and timeout :: int
  assumes "perm_order (mord e)" and "distinct (map fst (r_runs w))" and "map_of (r_runs w) run = Some row"
  defines "cutoff \<equiv> int (nano e (r_tick w)) - timeout"
    and "w' \<equiv> snd (run_state (checkHangingWorkflows e timeout) w)"
  shows "(\<not> hanging cutoff row \<longrightarrow> map_of (r_runs w') run = Some row)
    \<and> (hanging cutoff row \<and> reliable e \<and> length (filter (\<lambda>(_, r). hanging cutoff r) (r_runs w)) \<le> 100 \<longrightarrow>
        map_option rr_status (map_of (r_runs w') run) = Some ''FAILED'')"
proof (intro conjI impI)
  let ?rs = "hanging_runs e cutoff (r_runs w)"
  let ?w1 = "w\<lparr>r_tick := Suc (Suc (r_tick w))\<rparr>"
  have w': "r_runs w' = r_runs w \<or> w' = snd (run_state (for_each (fail_run e) ?rs) ?w1)"
    and rel: "reliable e \<Longrightarrow> w' = snd (run_state (for_each (fail_run e) ?rs) ?w1)"
    by (auto simp: w'_def checkHangingWorkflows_def cutoff_def case_prod_unfold)
  {
    assume "\<not> hanging cutoff row"
    then have "run \<notin> set ?rs" using hanging_runs_in [OF assms(1,2)] assms(3) by fastforce
    from fail_runs_other [OF this, of e ?w1] w' assms(3) show "map_of (r_runs w') run = Some row" by auto
  next
    assume h: "hanging cutoff row \<and> reliable e \<and> length (filter (\<lambda>(_, r). hanging cutoff r) (r_runs w)) \<le> 100"
    let ?m = "range_map (mord e) ''run'' (r_runs w)"
    have d: "distinct (map fst ?m)" by (rule distinct_range_map [OF assms(1,2)])
    have s: "set ?m = set (r_runs w)" by (rule set_range_map [OF assms(1,2)])
    have "mset ?m = mset (r_runs w)"
      using d s assms(2) by (simp add: distinct_map set_eq_iff_mset_eq_distinct)
    then have "length (filter (\<lambda>(_, r). hanging cutoff r) ?m) = length (filter (\<lambda>(_, r). hanging cutoff r) (r_runs w))"
      by (metis mset_filter size_mset)
    then have "?rs = map fst (filter (\<lambda>(_, r). hanging cutoff r) ?m)" using h by (simp add: hanging_runs_def)
    moreover have "(run, row) \<in> set ?m" using s assms(2,3) by (simp add: map_of_eq_Some_iff)
    ultimately have "run \<in> set ?rs" using h by force
    moreover have "distinct ?rs" unfolding hanging_runs_def
      by (intro distinct_take distinct_map_filter d)
    ultimately show "map_option rr_status (map_of (r_runs w') run) = Some ''FAILED''"
      using fail_runs_this [of e run ?rs ?w1] rel h assms(3) by (simp add: hanging_def)
  }
qed

theorem timeout_fails_exactly_hanging_witness:
  "\<exists>row. map_of (r_runs one_run) ''r'' = Some row \<and> \<not> hanging (- 5) row
     \<and> map_of (r_runs (snd (run_state (checkHangingWorkflows calm_env 5) one_run))) ''r'' = Some row"
proof -
  obtain row where row: "map_of (r_runs one_run) ''r'' = Some row" by (simp add: one_run_def)
  have h: "\<not> hanging (int (nano calm_env (r_tick one_run)) - 5) row" using row
    by (auto simp: one_run_def hanging_def)
  have "perm_order (mord calm_env)" "distinct (map fst (r_runs one_run))"
    by (simp_all add: calm_env_def one_run_def)
  from timeout_fails_exactly_hanging [OF this row, of 5] h row show ?thesis
    by (auto simp: calm_env_def one_run_def empty_world_def)
qed

end
