(* ===== verification/Resolver.thy ===== *)
theory Resolver
  imports Lifecycle "HOL-Library.List_Lexorder" "HOL-Library.Char_ord"
begin

text \<open>
  Variable substitution in node configurations: \<open>cmd/workflow-runner/resolver/resolver.go\<close>.

  \<open>json_text\<close> is the text \<open>json.Marshal\<close> writes: object keys sorted, the characters Go escapes escaped; the
  decimal text of a number is a parameter (\<open>num_text\<close>, the standard library's shortest representation of a
  float64). The path language of gjson is a parameter of the environment. The lemmas show that a
  configuration without references is returned as it is, that a reference yields what the node stored,
  and what interpolation computes.
\<close>

section \<open>JSON text\<close>

definition escape_char :: "char \<Rightarrow> string" where
  "escape_char c =
     (let n = (of_char c :: nat);
          hex = (\<lambda>d :: nat. if d < 10 then char_of (48 + d) else char_of (87 + d) :: char)
      in if n = 34 then [char_of (92 :: nat), c]
         else if n = 92 then [c, c]
         else if n = 8 then [char_of (92 :: nat), CHR ''b'']
         else if n = 12 then [char_of (92 :: nat), CHR ''f'']
         else if n = 10 then [char_of (92 :: nat), CHR ''n'']
         else if n = 13 then [char_of (92 :: nat), CHR ''r'']
         else if n = 9 then [char_of (92 :: nat), CHR ''t'']
         else if n < 32 \<or> n \<in> {38, 60, 62} then [char_of (92 :: nat)] @ ''u00'' @ [hex (n div 16), hex (n mod 16)]
         else [c])"

definition json_string :: "string \<Rightarrow> string" where
  "json_string s = [char_of (34 :: nat)] @ concat (map escape_char s) @ [char_of (34 :: nat)]"

definition comma_join :: "string list \<Rightarrow> string" where
  "comma_join xs = concat (if xs = [] then [] else hd xs # map (Cons (CHR '','')) (tl xs))"

text \<open>An object is given as its entries with the values already rendered.\<close>

definition json_object :: "string smap \<Rightarrow> string" where
  "json_object kvs = ''{'' @ comma_join (map (\<lambda>(k, v). json_string k @ '':'' @ v) (sort_key fst kvs)) @ ''}''"

primrec json_text :: "(rat \<Rightarrow> string) \<Rightarrow> gval \<Rightarrow> string" where
  "json_text num GNil = ''null''"
| "json_text num (GBool b) = (if b then ''true'' else ''false'')"
| "json_text num (GNum x) = num x"
| "json_text num (GStr s) = json_string s"
| "json_text num (GRaw d) = json_text num d"
| "json_text num (GArr xs) = ''['' @ comma_join (map (json_text num) xs) @ '']''"
| "json_text num (GObj m) = json_object (map (map_prod id (json_text num)) m)"
| "json_text num (GOther s) = json_string s"

section \<open>Placeholders\<close>

text \<open>The matches of the pattern \<open>${...}\<close>, leftmost first and not overlapping: the group inside the
  braces, one or more characters other than a closing brace.\<close>

function find_placeholders :: "string \<Rightarrow> string list" where
  "find_placeholders [] = []"
| "find_placeholders (c # s) =
     (if c = CHR ''$'' \<and> s \<noteq> [] \<and> hd s = CHR ''{'' then
        (let body = takeWhile (\<lambda>x. x \<noteq> CHR ''}'') (tl s); rest = dropWhile (\<lambda>x. x \<noteq> CHR ''}'') (tl s)
         in if body \<noteq> [] \<and> rest \<noteq> [] then body # find_placeholders (tl rest) else find_placeholders s)
      else find_placeholders s)"
  by pat_completeness auto
termination
proof (relation "measure length")
  show "(tl rest, c # s) \<in> measure length"
    if "rest = dropWhile (\<lambda>x. x \<noteq> CHR ''}'') (tl s)" "body = takeWhile (\<lambda>x. x \<noteq> CHR ''}'') (tl s)"
    for c s body rest
    using that length_dropWhile_le [of "\<lambda>x. x \<noteq> CHR ''}''" "tl s"] by simp
qed auto

definition placeholder :: "string \<Rightarrow> string" where
  "placeholder expr = ''${'' @ expr @ ''}''"

text \<open>\<open>strings.Replace(s, old, new, 1)\<close> for a non-empty \<open>old\<close>.\<close>

fun replace_first :: "string \<Rightarrow> string \<Rightarrow> string \<Rightarrow> string" where
  "replace_first old new [] = []"
| "replace_first old new (c # s) =
     (if prefix old (c # s) then new @ drop (length old) (c # s) else c # replace_first old new s)"

section \<open>The resolver\<close>

text \<open>\<open>strings.SplitN(s, ".", 2)\<close>.\<close>

definition split_dot :: "string \<Rightarrow> string \<times> string option" where
  "split_dot s =
     (let rest = dropWhile (\<lambda>c. c \<noteq> CHR ''.'') s
      in (takeWhile (\<lambda>c. c \<noteq> CHR ''.'') s, if rest = [] then None else Some (tl rest)))"

definition resolveNodeReference :: "env \<Rightarrow> string \<Rightarrow> string \<Rightarrow> gval res io" where
  "resolveNodeReference e run expr =
     (case split_dot (TrimPrefix expr ''$nodes.'') of (nodeID, field) \<Rightarrow> do {
        out \<leftarrow> LoadNodeOutput e run nodeID;
        State_Monad.return (case out of
           Inl _ \<Rightarrow> Inl (''node output not found: '' @ nodeID)
         | Inr v \<Rightarrow> (case field of
              None \<Rightarrow> Inr v
            | Some path \<Rightarrow> (case gjson e v path of
                 None \<Rightarrow> Inl (''field not found: '' @ path @ '' in node '' @ nodeID)
               | Some x \<Rightarrow> Inr x)))})"

definition value_text :: "(rat \<Rightarrow> string) \<Rightarrow> gval \<Rightarrow> string" where
  "value_text num v = (case v of GStr s \<Rightarrow> s | _ \<Rightarrow> json_text num v)"

text \<open>A placeholder holds no closing brace, so an expression that is itself interpolated has no
  placeholder of its own and is returned as it stands: \<open>resolveString\<close> on the inside of a placeholder
  is a reference or the text.\<close>

definition resolve_inner :: "env \<Rightarrow> string \<Rightarrow> string \<Rightarrow> gval res io" where
  "resolve_inner e run expr =
     (if HasPrefix expr ''$nodes.'' then resolveNodeReference e run expr
      else State_Monad.return (Inr (GStr expr)))"

fun interpolate :: "env \<Rightarrow> (rat \<Rightarrow> string) \<Rightarrow> string \<Rightarrow> string list \<Rightarrow> string \<Rightarrow> string res io" where
  "interpolate e num run [] result = State_Monad.return (Inr result)"
| "interpolate e num run (expr # exprs) result = do {
     v \<leftarrow> resolve_inner e run expr;
     (case v of
        Inl err \<Rightarrow> State_Monad.return (Inl (''failed to resolve interpolation '' @ placeholder expr @ '': '' @ err))
      | Inr x \<Rightarrow> interpolate e num run exprs (replace_first (placeholder expr) (value_text num x) result))}"

definition resolveInterpolation :: "env \<Rightarrow> (rat \<Rightarrow> string) \<Rightarrow> string \<Rightarrow> string \<Rightarrow> string res io" where
  "resolveInterpolation e num run str = interpolate e num run (find_placeholders str) str"

definition resolveString :: "env \<Rightarrow> (rat \<Rightarrow> string) \<Rightarrow> string \<Rightarrow> string \<Rightarrow> gval res io" where
  "resolveString e num run str =
     (if HasPrefix str ''$nodes.'' then resolveNodeReference e run str
      else if Contains str ''${'' then do {
        r \<leftarrow> resolveInterpolation e num run str;
        State_Monad.return (case r of Inl err \<Rightarrow> Inl err | Inr s \<Rightarrow> Inr (GStr s))}
      else State_Monad.return (Inr (GStr str)))"

lemma find_placeholders_none: "CHR ''}'' \<notin> set s \<Longrightarrow> find_placeholders s = []"
proof (induction s)
  case (Cons c s)
  then have "dropWhile (\<lambda>x. x \<noteq> CHR ''}'') (tl s) = []" by (cases s) (auto simp: dropWhile_eq_Nil_conv)
  with Cons show ?case by (simp add: Let_def)
qed simp

lemma resolve_inner_eq:
  "CHR ''}'' \<notin> set expr \<Longrightarrow> resolveString e num run expr = resolve_inner e run expr"
  by (simp add: resolveString_def resolve_inner_def resolveInterpolation_def find_placeholders_none)

lemma placeholders_no_brace: "expr \<in> set (find_placeholders s) \<Longrightarrow> CHR ''}'' \<notin> set expr"
  by (induction s rule: find_placeholders.induct) (auto simp: Let_def dest: set_takeWhileD split: if_splits)

text \<open>Values, maps and arrays. A Go map has no order: the resolved map is listed in the key order of the
  given one; \<open>mord\<close> only decides which of several errors is reported.\<close>

lemma size_obj: "(k, v) \<in> set m \<Longrightarrow> size v < size (GObj m)"
  by (induction m) (auto simp: less_Suc_eq trans_less_add1 trans_less_add2)

lemma size_arr: "v \<in> set xs \<Longrightarrow> size v < size (GArr xs)"
  by (induction xs) (auto simp: less_Suc_eq trans_less_add1 trans_less_add2)

abbreviation max_size :: "gval list \<Rightarrow> nat" where
  "max_size vs \<equiv> foldr max (map size vs) 0"

lemma max_size_less: "0 < n \<Longrightarrow> (\<And>v. v \<in> set vs \<Longrightarrow> size v < n) \<Longrightarrow> max_size vs < n"
  by (induction vs) auto

lemma max_size_range_map: "max_size (map snd (range_map ord lbl m)) < size (GObj m)"
proof (rule max_size_less)
  fix v
  assume "v \<in> set (map snd (range_map ord lbl m))"
  then obtain k where "(k, v) \<in> set m" by (auto simp: range_map_def in_map_filter dest!: map_of_SomeD)
  then show "size v < size (GObj m)" by (rule size_obj)
qed simp

lemma max_size_arr: "max_size xs < size (GArr xs)"
proof (rule max_size_less)
  show "v \<in> set xs \<Longrightarrow> size v < size (GArr xs)" for v by (rule size_arr)
qed simp

definition relist :: "gval smap \<Rightarrow> gval smap \<Rightarrow> gval smap" where
  "relist m r = List.map_filter (\<lambda>(k, _). map_option (Pair k) (map_of r k)) m"

function resolveValue :: "env \<Rightarrow> (rat \<Rightarrow> string) \<Rightarrow> string \<Rightarrow> gval \<Rightarrow> gval res io"
  and resolveMap :: "env \<Rightarrow> (rat \<Rightarrow> string) \<Rightarrow> string \<Rightarrow> gval smap \<Rightarrow> gval smap res io"
  and resolveArray :: "env \<Rightarrow> (rat \<Rightarrow> string) \<Rightarrow> string \<Rightarrow> gval list \<Rightarrow> gval list res io" where
  "resolveValue e num run value =
     (case value of
        GStr s \<Rightarrow> resolveString e num run s
      | GObj m \<Rightarrow> do {
          r \<leftarrow> resolveMap e num run (range_map (mord e) ''config'' m);
          State_Monad.return (case r of Inl err \<Rightarrow> Inl err | Inr r \<Rightarrow> Inr (GObj (relist m r)))}
      | GArr xs \<Rightarrow> do {
          r \<leftarrow> resolveArray e num run xs;
          State_Monad.return (case r of Inl err \<Rightarrow> Inl err | Inr ys \<Rightarrow> Inr (GArr ys))}
      | _ \<Rightarrow> State_Monad.return (Inr value))"
| "resolveMap e num run kvs =
     (case kvs of
        [] \<Rightarrow> State_Monad.return (Inr [])
      | (k, v) # rest \<Rightarrow> do {
          x \<leftarrow> resolveValue e num run v;
          (case x of
             Inl err \<Rightarrow> State_Monad.return (Inl err)
           | Inr x \<Rightarrow> do {
               r \<leftarrow> resolveMap e num run rest;
               State_Monad.return (case r of Inl err \<Rightarrow> Inl err | Inr r \<Rightarrow> Inr ((k, x) # r))})})"
| "resolveArray e num run vs =
     (case vs of
        [] \<Rightarrow> State_Monad.return (Inr [])
      | v # rest \<Rightarrow> do {
          x \<leftarrow> resolveValue e num run v;
          (case x of
             Inl err \<Rightarrow> State_Monad.return (Inl err)
           | Inr x \<Rightarrow> do {
               r \<leftarrow> resolveArray e num run rest;
               State_Monad.return (case r of Inl err \<Rightarrow> Inl err | Inr r \<Rightarrow> Inr (x # r))})})"
  by pat_completeness auto
termination
  by (relation "measures [\<lambda>x. case x of Inl (e, num, run, v) \<Rightarrow> size v
      | Inr (Inl (e, num, run, kvs)) \<Rightarrow> max_size (map snd kvs) | Inr (Inr (e, num, run, vs)) \<Rightarrow> max_size vs,
      \<lambda>x. case x of Inl _ \<Rightarrow> 0
      | Inr (Inl (e, num, run, kvs)) \<Rightarrow> Suc (length kvs) | Inr (Inr (e, num, run, vs)) \<Rightarrow> Suc (length vs)]")
    (use max_size_range_map max_size_arr in \<open>auto simp: max_def\<close>)

declare resolveValue.simps [simp del] resolveMap.simps [simp del] resolveArray.simps [simp del]

text \<open>\<open>ResolveConfig\<close> runs the loop of \<open>resolveMap\<close> and names the key in the error.\<close>

fun resolve_keys :: "env \<Rightarrow> (rat \<Rightarrow> string) \<Rightarrow> string \<Rightarrow> gval smap \<Rightarrow> gval smap res io" where
  "resolve_keys e num run [] = State_Monad.return (Inr [])"
| "resolve_keys e num run ((k, v) # rest) = do {
     x \<leftarrow> resolveValue e num run v;
     (case x of
        Inl err \<Rightarrow> State_Monad.return (Inl (''failed to resolve config key '' @ k @ '': '' @ err))
      | Inr x \<Rightarrow> do {
          r \<leftarrow> resolve_keys e num run rest;
          State_Monad.return (case r of Inl err \<Rightarrow> Inl err | Inr r \<Rightarrow> Inr ((k, x) # r))})}"

definition ResolveConfig :: "env \<Rightarrow> (rat \<Rightarrow> string) \<Rightarrow> string \<Rightarrow> gval smap \<Rightarrow> gval smap res io" where
  "ResolveConfig e num run config = do {
     r \<leftarrow> resolve_keys e num run (range_map (mord e) ''config'' config);
     State_Monad.return (case r of Inl err \<Rightarrow> Inl err | Inr r \<Rightarrow> Inr (relist config r))}"

section \<open>Configurations without references\<close>

primrec plain :: "gval \<Rightarrow> bool" where
  "plain GNil = True"
| "plain (GBool b) = True"
| "plain (GNum x) = True"
| "plain (GStr s) = (\<not> HasPrefix s ''$nodes.'' \<and> \<not> Contains s ''${'')"
| "plain (GRaw d) = True"
| "plain (GArr xs) = list_all plain xs"
| "plain (GObj m) = (distinct (map fst m) \<and> list_all (\<lambda>(k, p). p) (map (map_prod id plain) m))"
| "plain (GOther s) = True"

lemma plain_GObj: "plain (GObj m) \<longleftrightarrow> distinct (map fst m) \<and> (\<forall>v \<in> snd ` set m. plain v)"
  by (auto simp: list_all_iff case_prod_unfold map_prod_def)

lemma map_filter_ident: "(\<And>x. x \<in> set m \<Longrightarrow> f x = Some x) \<Longrightarrow> List.map_filter f m = m"
  by (induction m) (simp_all add: List.map_filter_simps)

lemma map_of_range_map:
  assumes "perm_order ord" and "distinct (map fst m)"
  shows "map_of (range_map ord lbl m) = map_of m"
  using map_of_inject_set [OF distinct_range_map [OF assms] assms(2)] set_range_map [OF assms] by blast

lemma relist_range_map:
  assumes "perm_order ord" and "distinct (map fst m)"
  shows "relist m (range_map ord lbl m) = m"
  unfolding relist_def map_of_range_map [OF assms]
  using assms(2) by (intro map_filter_ident) (auto simp: map_of_eq_Some_iff)

lemma snd_range_map: "\<forall>v \<in> snd ` set m. P v \<Longrightarrow> \<forall>v \<in> snd ` set (range_map ord lbl m). P v"
  by (force simp: range_map_def in_map_filter dest!: map_of_SomeD)

lemma resolve_plain:
  assumes "perm_order (mord e)"
  shows "plain v \<Longrightarrow> run_state (resolveValue e num run v) w = (Inr v, w)"
    and "(\<forall>v \<in> snd ` set kvs. plain v) \<Longrightarrow> run_state (resolveMap e num run kvs) w = (Inr kvs, w)"
    and "list_all plain vs \<Longrightarrow> run_state (resolveArray e num run vs) w = (Inr vs, w)"
  using assms
proof (induction e num run v and e num run kvs and e num run vs arbitrary: w and w and w
    rule: resolveValue_resolveMap_resolveArray.induct)
  case (1 e num run v)
  show ?case
  proof (cases v)
    case (GStr s)
    then show ?thesis using "1.prems" by (simp add: resolveValue.simps resolveString_def)
  next
    case (GArr xs)
    then show ?thesis using "1.IH"(1) "1.prems" by (simp add: resolveValue.simps)
  next
    case (GObj m)
    have p: "distinct (map fst m)" "\<forall>v \<in> snd ` set m. plain v" using "1.prems"(1) unfolding GObj plain_GObj by blast+
    then have "\<forall>v \<in> snd ` set (range_map (mord e) ''config'' m). plain v" by (intro snd_range_map)
    then show ?thesis using "1.IH"(2) GObj "1.prems"(2) p(1)
      by (simp add: resolveValue.simps relist_range_map)
  qed (simp_all add: resolveValue.simps)
next
  case (2 e num run kvs)
  then show ?case by (cases kvs) (auto simp: resolveMap.simps)
next
  case (3 e num run vs)
  then show ?case by (cases vs) (auto simp: resolveArray.simps)
qed

lemma resolve_keys_plain:
  assumes "perm_order (mord e)"
  shows "(\<forall>v \<in> snd ` set kvs. plain v) \<Longrightarrow> run_state (resolve_keys e num run kvs) w = (Inr kvs, w)"
  by (induction kvs) (auto simp: resolve_plain(1) [OF assms])

text \<open>A configuration that contains no reference (no string, at any depth, starts with \<open>$nodes.\<close> or contains
  \<open>${\<close>) is resolved to itself, without reading anything.\<close>

theorem ResolveConfig_plain:
  assumes "perm_order (mord e)" and "plain (GObj config)"
  shows "run_state (ResolveConfig e num run config) w = (Inr config, w)"
proof -
  have p: "distinct (map fst config)" "\<forall>v \<in> snd ` set config. plain v" using assms(2) unfolding plain_GObj by blast+
  then have "\<forall>v \<in> snd ` set (range_map (mord e) ''config'' config). plain v" by (intro snd_range_map)
  from resolve_keys_plain [OF assms(1) this] show ?thesis
    by (simp add: ResolveConfig_def relist_range_map [OF assms(1) p(1)])
qed

theorem ResolveConfig_plain_witness:
  "run_state (ResolveConfig calm_env (\<lambda>_. ''0'') ''r'' [(''url'', GStr ''http://a/$b''), (''n'', GArr [GNum 3, GObj [(''k'', GNil)]])]) empty_world
     = (Inr [(''url'', GStr ''http://a/$b''), (''n'', GArr [GNum 3, GObj [(''k'', GNil)]])], empty_world)"
proof -
  have 1: "perm_order (mord calm_env)" by (simp add: calm_env_def)
  have 2: "plain (GObj [(''url'', GStr ''http://a/$b''), (''n'', GArr [GNum 3, GObj [(''k'', GNil)]])])"
    by (simp add: HasPrefix_def Contains_def sublist_Cons_right)
  show ?thesis by (rule ResolveConfig_plain [OF 1 2])
qed

section \<open>References\<close>

lemma run_LoadNodeOutput:
  assumes "reliable e" and "map_of (r_hash w (context_key run)) (n @ '':output'') = Some ref" and "cas_blobs w ref = Some d"
  shows "fst (run_state (LoadNodeOutput e run n) w) = Inr d"
  using assms by (simp add: LoadNodeOutput_def run_cas_Get)

lemma split_dot_plain: "CHR ''.'' \<notin> set n \<Longrightarrow> split_dot n = (n, None)"
  by (auto simp: split_dot_def Let_def dropWhile_eq_Nil_conv takeWhile_eq_all_conv)

lemma split_dot_field: "CHR ''.'' \<notin> set n \<Longrightarrow> split_dot (n @ CHR ''.'' # path) = (n, Some path)"
  by (induction n) (auto simp: split_dot_def Let_def)

definition lookup_ref :: "env \<Rightarrow> string \<Rightarrow> world \<Rightarrow> string \<Rightarrow> string option \<Rightarrow> gval option" where
  "lookup_ref e run w n field =
     (case map_of (r_hash w (context_key run)) (n @ '':output'') of
        None \<Rightarrow> None
      | Some ref \<Rightarrow> (case cas_blobs w ref of
           None \<Rightarrow> None
         | Some d \<Rightarrow> (case field of None \<Rightarrow> Some d | Some path \<Rightarrow> gjson e d path)))"

lemma run_resolveNodeReference:
  assumes "reliable e" and "split_dot x = (n, field)" and "lookup_ref e run w n field = Some v"
  shows "\<exists>t. run_state (resolveNodeReference e run (''$nodes.'' @ x)) w = (Inr v, w\<lparr>r_tick := t\<rparr>)"
  using assms
  by (auto simp: resolveNodeReference_def TrimPrefix_def LoadNodeOutput_def run_cas_Get lookup_ref_def
      split: option.splits)

text \<open>C14. A reference yields what the node stored: after a node's result was put into the content store and recorded
  in the run's context, \<open>$nodes.<id>\<close> resolves to that document, and \<open>$nodes.<id>.<path>\<close> to what gjson finds
  under the path (an error if nothing is there).\<close>

theorem resolve_stored_output:
  assumes "reliable e" and "CHR ''.'' \<notin> set n"
    and "run_state (StoreOutput e d) w = (Inr ref, w1)"
    and "run_state (StoreContext e run n ref) w1 = (Inr (), w2)"
  shows "fst (run_state (resolveString e num run (''$nodes.'' @ n)) w2) = Inr d
    \<and> fst (run_state (resolveString e num run (''$nodes.'' @ n @ ''.'' @ path)) w2)
        = (case gjson e d path of Some v \<Rightarrow> Inr v | None \<Rightarrow> Inl (''field not found: '' @ path @ '' in node '' @ n))"
proof -
  have b: "cas_blobs w1 ref = Some d" using redis_cas.put_ok [of e d w ref w1] assms(3) by (simp add: StoreOutput_def)
  have w2: "map_of (r_hash w2 (context_key run)) (n @ '':output'') = Some ref" "cas_blobs w2 = cas_blobs w1"
    using assms(1,4) by (auto simp: StoreContext_def update_conv' cas_blobs_def fun_eq_iff)
  have out: "fst (run_state (LoadNodeOutput e run n) w2) = Inr d"
    by (rule run_LoadNodeOutput [OF assms(1) w2(1)]) (simp add: w2(2) b)
  then show ?thesis
    using split_dot_plain [OF assms(2)] split_dot_field [OF assms(2), of path]
    by (simp add: resolveString_def HasPrefix_def resolveNodeReference_def TrimPrefix_def case_prod_unfold split: option.split)
qed

theorem resolve_stored_output_witness:
  "\<exists>ref w1 w2. run_state (StoreOutput calm_env (GNum 7)) empty_world = (Inr ref, w1)
     \<and> run_state (StoreContext calm_env ''r'' ''a'' ref) w1 = (Inr (), w2)
     \<and> fst (run_state (resolveString calm_env (\<lambda>_. ''7'') ''r'' (''$nodes.'' @ ''a'')) w2) = Inr (GNum 7)"
proof -
  obtain ref w1 where 1: "run_state (StoreOutput calm_env (GNum 7)) empty_world = (Inr ref, w1)"
    by (simp add: StoreOutput_def cas_Put_def run_Set)
  obtain w2 where 2: "run_state (StoreContext calm_env ''r'' ''a'' ref) w1 = (Inr (), w2)"
    by (simp add: StoreContext_def)
  from resolve_stored_output [OF reliable_calm _ 1 2] 1 2 show ?thesis by fastforce
qed

section \<open>Interpolation\<close>

text \<open>A template: literal texts and placeholders alternating, then a literal tail.\<close>

definition template_text :: "(string \<times> string) list \<Rightarrow> string \<Rightarrow> string" where
  "template_text segs post = concat (map (\<lambda>(lit, x). lit @ placeholder (''$nodes.'' @ x)) segs) @ post"

definition template_ok :: "(string \<times> string) list \<Rightarrow> string \<Rightarrow> bool" where
  "template_ok segs post \<longleftrightarrow> CHR ''$'' \<notin> set post
     \<and> (\<forall>(lit, x) \<in> set segs. CHR ''$'' \<notin> set lit \<and> CHR ''}'' \<notin> set x)"

lemma find_placeholders_lit: "CHR ''$'' \<notin> set lit \<Longrightarrow> find_placeholders (lit @ s) = find_placeholders s"
  by (induction lit) auto

lemma takeWhile_body: "CHR ''}'' \<notin> set x \<Longrightarrow> takeWhile (\<lambda>c. c \<noteq> CHR ''}'') (x @ CHR ''}'' # s) = x"
  by (induction x) auto

lemma dropWhile_body: "CHR ''}'' \<notin> set x \<Longrightarrow> dropWhile (\<lambda>c. c \<noteq> CHR ''}'') (x @ CHR ''}'' # s) = CHR ''}'' # s"
  by (induction x) auto

lemma find_placeholders_hit:
  assumes "CHR ''}'' \<notin> set x" and "x \<noteq> []"
  shows "find_placeholders (placeholder x @ s) = x # find_placeholders s"
  using assms by (simp add: placeholder_def takeWhile_body dropWhile_body)

lemma find_placeholders_template:
  "template_ok segs post \<Longrightarrow> find_placeholders (template_text segs post) = map (\<lambda>(lit, x). ''$nodes.'' @ x) segs"
proof (induction segs)
  case Nil
  then show ?case using find_placeholders_lit [of post "[]"] by (simp add: template_ok_def template_text_def)
next
  case (Cons p segs)
  obtain lit x where p: "p = (lit, x)" by (cases p)
  have lit: "CHR ''$'' \<notin> set lit" and x: "CHR ''}'' \<notin> set (''$nodes.'' @ x)" and ok: "template_ok segs post"
    using Cons.prems by (auto simp: template_ok_def p)
  have "template_text (p # segs) post = lit @ placeholder (''$nodes.'' @ x) @ template_text segs post"
    by (simp add: template_text_def p)
  with find_placeholders_lit [OF lit] find_placeholders_hit [OF x] Cons.IH [OF ok] show ?case
    by (simp add: p)
qed

lemma replace_first_hit:
  "CHR ''$'' \<notin> set pre \<Longrightarrow> replace_first (placeholder x) v (pre @ placeholder x @ s) = pre @ v @ s"
proof (induction pre)
  case Nil
  then show ?case by (simp add: placeholder_def)
next
  case (Cons c pre)
  then show ?case by (auto simp: placeholder_def)
qed

lemma lookup_ref_tick [simp]: "lookup_ref e run (w\<lparr>r_tick := t\<rparr>) = lookup_ref e run w"
  by (simp add: lookup_ref_def fun_eq_iff split: option.split)

definition render :: "(rat \<Rightarrow> string) \<Rightarrow> (string \<Rightarrow> gval) \<Rightarrow> (string \<times> string) list \<Rightarrow> string \<Rightarrow> string" where
  "render num val segs post = concat (map (\<lambda>(lit, x). lit @ value_text num (val x)) segs) @ post"

lemma interpolate_template:
  assumes "reliable e"
    and "\<forall>(lit, x) \<in> set segs. case split_dot x of (n, field) \<Rightarrow> lookup_ref e run w n field = Some (val x)"
    and "\<forall>(lit, x) \<in> set segs. CHR ''$'' \<notin> set lit \<and> CHR ''$'' \<notin> set (value_text num (val x))"
    and "CHR ''$'' \<notin> set pre"
  shows "\<exists>t. run_state (interpolate e num run (map (\<lambda>(lit, x). ''$nodes.'' @ x) segs) (pre @ template_text segs post)) w
    = (Inr (pre @ render num val segs post), w\<lparr>r_tick := t\<rparr>)"
  using assms(2-4)
proof (induction segs arbitrary: pre w)
  case Nil
  show ?case by (simp add: template_text_def render_def exI [of _ "r_tick w"])
next
  case (Cons p segs)
  obtain lit x where p: "p = (lit, x)" by (cases p)
  obtain n field where x: "split_dot x = (n, field)" by (cases "split_dot x")
  have l: "lookup_ref e run w n field = Some (val x)" using Cons.prems(1) by (simp add: p x)
  obtain t where t: "run_state (resolve_inner e run (''$nodes.'' @ x)) w = (Inr (val x), w\<lparr>r_tick := t\<rparr>)"
    using run_resolveNodeReference [OF assms(1) x l] by (auto simp: resolve_inner_def HasPrefix_def)
  let ?pre = "pre @ lit @ value_text num (val x)"
  have pre: "CHR ''$'' \<notin> set (pre @ lit)" "CHR ''$'' \<notin> set ?pre" using Cons.prems(2,3) by (auto simp: p)
  have step: "replace_first (placeholder (''$nodes.'' @ x)) (value_text num (val x)) (pre @ template_text (p # segs) post)
      = ?pre @ template_text segs post"
    using replace_first_hit [OF pre(1), of "''$nodes.'' @ x" "value_text num (val x)" "template_text segs post"]
    by (simp add: template_text_def p)
  have "\<exists>t'. run_state (interpolate e num run (map (\<lambda>(lit, x). ''$nodes.'' @ x) segs) (?pre @ template_text segs post)) (w\<lparr>r_tick := t\<rparr>)
    = (Inr (?pre @ render num val segs post), w\<lparr>r_tick := t, r_tick := t'\<rparr>)"
    using Cons.IH [of "w\<lparr>r_tick := t\<rparr>" ?pre] Cons.prems(1,2) pre(2) by auto
  then show ?case using t step by (simp add: p render_def)
qed

text \<open>Interpolation: in a template of literal texts and references, every placeholder is replaced by the text
  of the value it refers to (a string as it is, anything else as JSON) and the literals stay, provided
  neither the literals nor the substituted values contain a dollar sign.\<close>

theorem interpolation_renders:
  assumes "reliable e" and "template_ok segs post" and "segs \<noteq> []"
    and "\<not> HasPrefix (template_text segs post) ''$nodes.''"
    and "\<forall>(lit, x) \<in> set segs. case split_dot x of (n, field) \<Rightarrow> lookup_ref e run w n field = Some (val x)"
    and "\<forall>(lit, x) \<in> set segs. CHR ''$'' \<notin> set (value_text num (val x))"
  shows "fst (run_state (resolveString e num run (template_text segs post)) w) = Inr (GStr (render num val segs post))"
proof -
  obtain lit x rest where s: "segs = (lit, x) # rest" using assms(3) by (cases segs) auto
  have c: "Contains (template_text segs post) ''${''"
    by (auto simp: Contains_def template_text_def s placeholder_def sublist_def)
  have lits: "\<forall>(lit, x) \<in> set segs. CHR ''$'' \<notin> set lit \<and> CHR ''$'' \<notin> set (value_text num (val x))"
    using assms(2,6) by (auto simp: template_ok_def)
  obtain t where "run_state (interpolate e num run (map (\<lambda>(lit, x). ''$nodes.'' @ x) segs) (template_text segs post)) w
      = (Inr (render num val segs post), w\<lparr>r_tick := t\<rparr>)"
    using interpolate_template [OF assms(1,5) lits, of "[]"] by auto
  then show ?thesis using assms(4) c
    by (simp add: resolveString_def resolveInterpolation_def find_placeholders_template [OF assms(2)])
qed

definition two_outputs :: world where
  "two_outputs = empty_world\<lparr>
     r_strs := (\<lambda>k. if k = ''cas:1'' then Some (RDoc (GStr ''Ann'')) else if k = ''cas:2'' then Some (RDoc (GArr [GBool True, GNil])) else None),
     r_hash := (\<lambda>k. if k = ''context:r'' then [(''a:output'', ''1''), (''b:output'', ''2'')] else [])\<rparr>"

theorem interpolation_renders_witness:
  "fst (run_state (resolveString calm_env (\<lambda>_. ''0'') ''r'' ''Hi ${$nodes.a}: ${$nodes.b}!'') two_outputs)
     = Inr (GStr ''Hi Ann: [true,null]!'')"
proof -
  let ?segs = "[(''Hi '', ''a''), ('': '', ''b'')]"
  let ?val = "\<lambda>x. if x = ''a'' then GStr ''Ann'' else GArr [GBool True, GNil]"
  have t: "template_text ?segs ''!'' = ''Hi ${$nodes.a}: ${$nodes.b}!''"
    by (simp add: template_text_def placeholder_def)
  have 1: "template_ok ?segs ''!''" by (simp add: template_ok_def)
  have 2: "\<not> HasPrefix (template_text ?segs ''!'') ''$nodes.''" by (simp add: HasPrefix_def t)
  have 3: "\<forall>(lit, x) \<in> set ?segs. case split_dot x of (n, field) \<Rightarrow> lookup_ref calm_env ''r'' two_outputs n field = Some (?val x)"
    by (simp add: split_dot_def lookup_ref_def two_outputs_def context_key_def cas_blobs_def empty_world_def)
  have 4: "\<forall>(lit, x) \<in> set ?segs. CHR ''$'' \<notin> set (value_text (\<lambda>_. ''0'') (?val x))"
    by (simp add: value_text_def comma_join_def)
  from interpolation_renders [OF reliable_calm 1 _ 2 3 4] show ?thesis
    by (simp add: t render_def value_text_def comma_join_def)
qed

end
