(* ===== verification/Orchestrator_Client.thy ===== *)
theory Orchestrator_Client
  imports Resolver
begin

text \<open>
  The HTTP client of the orchestrator's API: \<open>common/clients/orchestrator.go\<close>, \<open>http.go\<close> and \<open>context.go\<close>.

  The transport is the environment's \<open>http_get\<close>: it gets the user id that the client puts into the request header and
  the URL, and answers with a failure or a status and a JSON body. Bodies are decoded field by field the way
  \<open>encoding/json\<close> decodes into the Go structs (an absent or null field keeps its zero value, a field of
  another type is an error). The lemmas show what materialising a patched workflow computes.
\<close>

section \<open>Decoding\<close>

definition dec_string :: "gval smap \<Rightarrow> string \<Rightarrow> string res" where
  "dec_string m k = (case mget m k of GNil \<Rightarrow> Inr '''' | GStr s \<Rightarrow> Inr s
     | _ \<Rightarrow> Inl (''json: cannot unmarshal field '' @ k))"

definition dec_int :: "gval smap \<Rightarrow> string \<Rightarrow> int res" where
  "dec_int m k = (case mget m k of GNil \<Rightarrow> Inr 0
     | GNum x \<Rightarrow> if x = of_int \<lfloor>x\<rfloor> then Inr \<lfloor>x\<rfloor> else Inl (''json: cannot unmarshal field '' @ k)
     | _ \<Rightarrow> Inl (''json: cannot unmarshal field '' @ k))"

text \<open>An object into a map (null leaves the nil map, which reads as empty); the option tells nil apart.\<close>

definition dec_map :: "gval smap \<Rightarrow> string \<Rightarrow> gval smap option res" where
  "dec_map m k = (case mget m k of GNil \<Rightarrow> Inr None | GObj ob \<Rightarrow> Inr (Some ob)
     | _ \<Rightarrow> Inl (''json: cannot unmarshal field '' @ k))"

definition dec_list :: "gval smap \<Rightarrow> string \<Rightarrow> gval list res" where
  "dec_list m k = (case mget m k of GNil \<Rightarrow> Inr [] | GArr xs \<Rightarrow> Inr xs
     | _ \<Rightarrow> Inl (''json: cannot unmarshal field '' @ k))"

definition dec_object :: "gval \<Rightarrow> gval smap res" where
  "dec_object v = (case v of GNil \<Rightarrow> Inr [] | GObj ob \<Rightarrow> Inr ob | _ \<Rightarrow> Inl ''json: cannot unmarshal'')"

fun dec_all :: "(gval \<Rightarrow> 'a res) \<Rightarrow> gval list \<Rightarrow> 'a list res" where
  "dec_all f [] = Inr []"
| "dec_all f (v # vs) =
     (case f v of Inl e \<Rightarrow> Inl e
      | Inr x \<Rightarrow> (case dec_all f vs of Inl e \<Rightarrow> Inl e | Inr xs \<Rightarrow> Inr (x # xs)))"

section \<open>Workflow schemas\<close>

definition dec_node :: "gval \<Rightarrow> wf_node res" where
  "dec_node v =
     (case dec_object v of Inl e \<Rightarrow> Inl e
      | Inr m \<Rightarrow> (case (dec_string m ''id'', dec_string m ''type'', dec_map m ''config'', dec_int m ''timeout_ms'', dec_map m ''retry'') of
           (Inr i, Inr t, Inr c, Inr _, Inr _) \<Rightarrow> Inr \<lparr>w_id = i, w_type = t, w_config = (case c of None \<Rightarrow> [] | Some ob \<Rightarrow> ob)\<rparr>
         | _ \<Rightarrow> Inl ''json: cannot unmarshal node''))"

definition dec_edge :: "gval \<Rightarrow> wf_edge res" where
  "dec_edge v =
     (case dec_object v of Inl e \<Rightarrow> Inl e
      | Inr m \<Rightarrow> (case (dec_string m ''from'', dec_string m ''to'', dec_string m ''condition'') of
           (Inr f, Inr t, Inr c) \<Rightarrow> Inr \<lparr>e_from = f, e_to = t, e_condition = c\<rparr>
         | _ \<Rightarrow> Inl ''json: cannot unmarshal edge''))"

definition schema_of :: "gval smap \<Rightarrow> wf_schema res" where
  "schema_of m =
     (case (dec_list m ''nodes'', dec_list m ''edges'', dec_map m ''metadata'') of
        (Inr ns, Inr es, Inr meta) \<Rightarrow>
          (case (dec_all dec_node ns, dec_all dec_edge es) of
             (Inr ns', Inr es') \<Rightarrow> Inr \<lparr>s_nodes = ns', s_edges = es', s_metadata = (case meta of None \<Rightarrow> [] | Some ob \<Rightarrow> ob)\<rparr>
           | (Inl e, _) \<Rightarrow> Inl e
           | (_, Inl e) \<Rightarrow> Inl e)
      | _ \<Rightarrow> Inl ''json: cannot unmarshal workflow'')"

section \<open>Requests\<close>

text \<open>\<open>WithUserID\<close> and \<open>GetUserID\<close>: an empty id counts as none.\<close>

definition GetUserID :: "string option \<Rightarrow> string option" where
  "GetUserID ctx = (case ctx of Some u \<Rightarrow> if u = '''' then None else Some u | None \<Rightarrow> None)"

definition DoRequest :: "env \<Rightarrow> string option \<Rightarrow> string \<Rightarrow> http_reply io" where
  "DoRequest e ctx url = do {
     t \<leftarrow> now (\<lambda>t. t);
     State_Monad.return (http_get e t (GetUserID ctx) url)}"

text \<open>The shared shape of the client's requests: fail, refuse any status but 200, decode the body.\<close>

definition fetch :: "env \<Rightarrow> string option \<Rightarrow> string \<Rightarrow> string \<Rightarrow> (gval smap \<Rightarrow> 'a res) \<Rightarrow> 'a res io" where
  "fetch e ctx what url decode = do {
     r \<leftarrow> DoRequest e ctx url;
     State_Monad.return (case r of
        HFail err \<Rightarrow> Inl (''failed to fetch '' @ what @ '': '' @ err)
      | HReply code body \<Rightarrow>
        if code \<noteq> 200 then Inl (what @ '' request failed: status='' @ show_nat code)
        else (case dec_object body of
           Inl err \<Rightarrow> Inl (''failed to decode '' @ what @ '' response: '' @ err)
         | Inr m \<Rightarrow> (case decode m of
              Inl err \<Rightarrow> Inl (''failed to decode '' @ what @ '' response: '' @ err)
            | Inr x \<Rightarrow> Inr x)))}"

record patch_info =
  pt_seq :: int
  pt_cas_id :: string
  pt_operations :: "gval smap list"
  pt_description :: string

definition GetPatchOperations :: "env \<Rightarrow> string \<Rightarrow> string option \<Rightarrow> string \<Rightarrow> string \<Rightarrow> gval smap list res io" where
  "GetPatchOperations e base ctx run casID =
     fetch e ctx ''patch operations'' (base @ ''/api/v1/runs/'' @ run @ ''/patches/'' @ casID @ ''/operations'')
       (\<lambda>m. case dec_list m ''operations'' of Inl err \<Rightarrow> Inl err | Inr xs \<Rightarrow> dec_all dec_object xs)"

definition dec_patch :: "gval \<Rightarrow> (int \<times> string \<times> string) res" where
  "dec_patch v =
     (case dec_object v of Inl err \<Rightarrow> Inl err
      | Inr m \<Rightarrow> (case (dec_int m ''seq'', dec_string m ''cas_id'', dec_string m ''description'') of
           (Inr s, Inr c, Inr d) \<Rightarrow> Inr (s, c, d)
         | _ \<Rightarrow> Inl ''json: cannot unmarshal patch''))"

fun fetch_operations :: "env \<Rightarrow> string \<Rightarrow> string option \<Rightarrow> string \<Rightarrow> (int \<times> string \<times> string) list \<Rightarrow> patch_info list res io" where
  "fetch_operations e base ctx run [] = State_Monad.return (Inr [])"
| "fetch_operations e base ctx run ((sq, casID, desc) # ps) = do {
     ops \<leftarrow> GetPatchOperations e base ctx run casID;
     (case ops of
        Inl err \<Rightarrow> State_Monad.return (Inl (''failed to get operations for patch seq='' @ show_int sq @ '': '' @ err))
      | Inr operations \<Rightarrow> do {
          rest \<leftarrow> fetch_operations e base ctx run ps;
          State_Monad.return (case rest of
             Inl err \<Rightarrow> Inl err
           | Inr rs \<Rightarrow> Inr (\<lparr>pt_seq = sq, pt_cas_id = casID, pt_operations = operations, pt_description = desc\<rparr> # rs))})}"

definition GetRunPatchesWithOperations :: "env \<Rightarrow> string \<Rightarrow> string option \<Rightarrow> string \<Rightarrow> patch_info list res io" where
  "GetRunPatchesWithOperations e base ctx run = do {
     l \<leftarrow> fetch e ctx ''patches'' (base @ ''/api/v1/runs/'' @ run @ ''/patches'')
       (\<lambda>m. case dec_list m ''patches'' of Inl err \<Rightarrow> Inl err | Inr xs \<Rightarrow> dec_all dec_patch xs);
     (case l of
        Inl err \<Rightarrow> State_Monad.return (Inl err)
      | Inr ps \<Rightarrow> fetch_operations e base ctx run ps)}"

record run_response =
  rs_run_id :: string
  rs_base_kind :: string
  rs_base_ref :: string
  rs_status :: string
  rs_submitted_by :: string

definition GetRun :: "env \<Rightarrow> string \<Rightarrow> string option \<Rightarrow> string \<Rightarrow> run_response res io" where
  "GetRun e base ctx run =
     fetch e ctx ''run'' (base @ ''/api/v1/runs/'' @ run)
       (\<lambda>m. case (dec_string m ''run_id'', dec_string m ''base_kind'', dec_string m ''base_ref'', dec_string m ''status'',
                  dec_string m ''submitted_by'') of
          (Inr a, Inr b, Inr c, Inr d, Inr f) \<Rightarrow>
            Inr \<lparr>rs_run_id = a, rs_base_kind = b, rs_base_ref = c, rs_status = d, rs_submitted_by = f\<rparr>
        | _ \<Rightarrow> Inl ''json: cannot unmarshal run'')"

record artifact_response =
  af_artifact_id :: string
  af_kind :: string
  af_cas_id :: string
  af_created_by :: string
  af_content :: "gval smap option"

definition GetArtifact :: "env \<Rightarrow> string \<Rightarrow> string option \<Rightarrow> string \<Rightarrow> artifact_response res io" where
  "GetArtifact e base ctx artifactID =
     fetch e ctx ''artifact'' (base @ ''/api/v1/artifacts/'' @ artifactID)
       (\<lambda>m. case (dec_string m ''artifact_id'', dec_string m ''kind'', dec_string m ''cas_id'', dec_string m ''created_by'',
                  dec_map m ''content'') of
          (Inr a, Inr b, Inr c, Inr d, Inr x) \<Rightarrow>
            Inr \<lparr>af_artifact_id = a, af_kind = b, af_cas_id = c, af_created_by = d, af_content = x\<rparr>
        | _ \<Rightarrow> Inl ''json: cannot unmarshal artifact'')"

section \<open>Applying patches\<close>

text \<open>The workflow is a Go map, nil as \<open>None\<close>; assigning into the nil map panics.\<close>

datatype 'a outcome = Panic | Ret "'a res"

definition append_to :: "string \<Rightarrow> gval \<Rightarrow> gval smap option \<Rightarrow> gval smap option outcome" where
  "append_to field v workflow =
     (case workflow of
        None \<Rightarrow> Panic
      | Some m \<Rightarrow> Ret (Inr (Some (AList.update field
          (GArr ((case mget m field of GArr xs \<Rightarrow> xs | _ \<Rightarrow> []) @ [v])) m))))"

definition applyAdd :: "gval smap option \<Rightarrow> string \<Rightarrow> gval \<Rightarrow> gval smap option outcome" where
  "applyAdd workflow path v =
     (if path = ''/nodes/-'' then append_to ''nodes'' v workflow
      else if path = ''/edges/-'' then append_to ''edges'' v workflow
      else Ret (Inl (''unsupported add path: '' @ path)))"

definition applyRemove :: "gval smap option \<Rightarrow> string \<Rightarrow> gval smap option outcome" where
  "applyRemove workflow path = Ret (Inl ''remove operation not yet implemented'')"

definition applyReplace :: "gval smap option \<Rightarrow> string \<Rightarrow> gval \<Rightarrow> gval smap option outcome" where
  "applyReplace workflow path v = Ret (Inl ''replace operation not yet implemented'')"

definition applyOperation :: "gval smap option \<Rightarrow> gval smap \<Rightarrow> gval smap option outcome" where
  "applyOperation workflow operation =
     (case as_string (mget operation ''op'') of
        None \<Rightarrow> Ret (Inl ''operation missing 'op' field'')
      | Some op \<Rightarrow> (case as_string (mget operation ''path'') of
           None \<Rightarrow> Ret (Inl ''operation missing 'path' field'')
         | Some path \<Rightarrow>
           if op = ''add'' then applyAdd workflow path (mget operation ''value'')
           else if op = ''remove'' then applyRemove workflow path
           else if op = ''replace'' then applyReplace workflow path (mget operation ''value'')
           else Ret (Inl (''unsupported operation: '' @ op))))"

fun apply_operations :: "int \<Rightarrow> gval smap list \<Rightarrow> gval smap option \<Rightarrow> gval smap option outcome" where
  "apply_operations sq [] workflow = Ret (Inr workflow)"
| "apply_operations sq (op # ops) workflow =
     (case applyOperation workflow op of
        Panic \<Rightarrow> Panic
      | Ret (Inl err) \<Rightarrow> Ret (Inl (''failed to apply patch seq='' @ show_int sq @ '' operation: '' @ err))
      | Ret (Inr workflow') \<Rightarrow> apply_operations sq ops workflow')"

fun apply_patches :: "patch_info list \<Rightarrow> gval smap option \<Rightarrow> gval smap option outcome" where
  "apply_patches [] workflow = Ret (Inr workflow)"
| "apply_patches (p # ps) workflow =
     (case apply_operations (pt_seq p) (pt_operations p) workflow of
        Ret (Inr workflow') \<Rightarrow> apply_patches ps workflow'
      | r \<Rightarrow> r)"

definition MaterializeWorkflowForRun ::
  "env \<Rightarrow> string \<Rightarrow> string option \<Rightarrow> gval smap option \<Rightarrow> string \<Rightarrow> gval smap option outcome io" where
  "MaterializeWorkflowForRun e base ctx baseWorkflow run = do {
     ps \<leftarrow> GetRunPatchesWithOperations e base ctx run;
     State_Monad.return (case ps of
        Inl err \<Rightarrow> Ret (Inl (''failed to get run patches: '' @ err))
      | Inr [] \<Rightarrow> Ret (Inr baseWorkflow)
      | Inr patches \<Rightarrow> apply_patches patches baseWorkflow)}"

section \<open>What patches do\<close>

definition add_op :: "string \<Rightarrow> gval smap \<Rightarrow> bool" where
  "add_op field op \<longleftrightarrow> as_string (mget op ''op'') = Some ''add'' \<and> as_string (mget op ''path'') = Some (''/'' @ field @ ''/-'')"

definition items :: "string \<Rightarrow> gval smap \<Rightarrow> gval list" where
  "items field m = (case mget m field of GArr xs \<Rightarrow> xs | _ \<Rightarrow> [])"

definition appended :: "gval smap list \<Rightarrow> gval smap \<Rightarrow> gval smap \<Rightarrow> bool" where
  "appended ops m m' \<longleftrightarrow>
     (\<forall>f \<in> {''nodes'', ''edges''}. items f m' = items f m @ map (\<lambda>op. mget op ''value'') (filter (add_op f) ops))
     \<and> (\<forall>k. k \<noteq> ''nodes'' \<longrightarrow> k \<noteq> ''edges'' \<longrightarrow> mget m' k = mget m k)"

lemma mget_update [simp]: "mget (AList.update k v m) k' = (if k' = k then v else mget m k')"
  by (simp add: mget_def update_conv')

lemma applyOperation_add:
  assumes "add_op ''nodes'' op \<or> add_op ''edges'' op"
  shows "\<exists>m'. applyOperation (Some m) op = Ret (Inr (Some m')) \<and> appended [op] m m'"
  using assms by (auto simp: add_op_def applyOperation_def applyAdd_def append_to_def appended_def items_def)

lemma applyOperation_other:
  "\<not> (add_op ''nodes'' op \<or> add_op ''edges'' op) \<Longrightarrow> \<exists>err. applyOperation (Some m) op = Ret (Inl err)"
  by (auto simp: add_op_def applyOperation_def applyAdd_def applyRemove_def applyReplace_def split: option.split)

lemma appended_append: "appended xs m m1 \<Longrightarrow> appended ys m1 m2 \<Longrightarrow> appended (xs @ ys) m m2"
  by (auto simp: appended_def)

lemma appended_Nil [simp]: "appended [] m m"
  by (simp add: appended_def)

abbreviation only_adds :: "gval smap list \<Rightarrow> bool" where
  "only_adds ops \<equiv> \<forall>op \<in> set ops. add_op ''nodes'' op \<or> add_op ''edges'' op"

lemma apply_operations_spec:
  "if only_adds ops then \<exists>m'. apply_operations sq ops (Some m) = Ret (Inr (Some m')) \<and> appended ops m m'
   else \<exists>err. apply_operations sq ops (Some m) = Ret (Inl err)"
proof (induction ops arbitrary: m)
  case (Cons op ops)
  show ?case
  proof (cases "add_op ''nodes'' op \<or> add_op ''edges'' op")
    case True
    then obtain m1 where m1: "applyOperation (Some m) op = Ret (Inr (Some m1))" "appended [op] m m1"
      using applyOperation_add by blast
    from Cons.IH [of m1] m1 True appended_append [OF m1(2)] show ?thesis by (auto split: if_splits)
  next
    case False
    then obtain err where "applyOperation (Some m) op = Ret (Inl err)" using applyOperation_other by blast
    with False show ?thesis by simp
  qed
qed simp

text \<open>Materialising the patches of a run succeeds exactly when every operation of every patch appends to \<open>/nodes/-\<close> or
  \<open>/edges/-\<close>; the result then has the base's nodes and edges followed by the appended ones in the order of patches and
  operations, and every other field of the workflow is unchanged. Any other operation, \<open>remove\<close> and
  \<open>replace\<close> included, makes the whole materialisation fail.\<close>

theorem patches_apply_iff_additions:
  "if only_adds (concat (map pt_operations ps))
   then \<exists>m'. apply_patches ps (Some m) = Ret (Inr (Some m')) \<and> appended (concat (map pt_operations ps)) m m'
   else \<exists>err. apply_patches ps (Some m) = Ret (Inl err)"
proof (induction ps arbitrary: m)
  case (Cons p ps)
  show ?case
  proof (cases "only_adds (pt_operations p)")
    case True
    with apply_operations_spec [of "pt_operations p" "pt_seq p" m] obtain m1 where
      m1: "apply_operations (pt_seq p) (pt_operations p) (Some m) = Ret (Inr (Some m1))" "appended (pt_operations p) m m1"
      by auto
    have "only_adds (concat (map pt_operations (p # ps))) = only_adds (concat (map pt_operations ps))"
      using True by auto
    with Cons.IH [of m1] m1(1) appended_append [OF m1(2)] show ?thesis by (auto split: if_splits)
  next
    case False
    with apply_operations_spec [of "pt_operations p" "pt_seq p" m] obtain err where
      err: "apply_operations (pt_seq p) (pt_operations p) (Some m) = Ret (Inl err)" by auto
    have "\<not> only_adds (concat (map pt_operations (p # ps)))" using False by auto
    with err show ?thesis by simp
  qed
qed simp

theorem patches_apply_iff_additions_witness:
  "\<exists>err. apply_patches [\<lparr>pt_seq = 1, pt_cas_id = ''c'', pt_operations = [[(''op'', GStr ''remove''), (''path'', GStr ''/nodes/0'')]],
        pt_description = ''''\<rparr>] (Some []) = Ret (Inl err)"
  using patches_apply_iff_additions [of "[\<lparr>pt_seq = 1, pt_cas_id = ''c'',
      pt_operations = [[(''op'', GStr ''remove''), (''path'', GStr ''/nodes/0'')]], pt_description = ''''\<rparr>]" "[]"]
  by (simp add: add_op_def mget_def)

end
