(* ===== verification/Rate_Limit.thy ===== *)
theory Rate_Limit
  imports Token_Counter
begin

text \<open>
  Rate limiting: \<open>common/ratelimit\<close> (the Lua script \<open>rate_limit.lua\<close>, the limiter, the tiers and the workflow
  inspector) and \<open>common/middleware/ratelimit_middleware.go\<close>.

  A limit counter is a Redis integer with an expiry, kept with the time in milliseconds at which it
  expires; a counter whose time has come reads as absent. The script is atomic. The lemmas show which requests of
  a window are admitted, how many an interval of one window's length can admit, and that the
  window is fixed and not sliding.
\<close>

section \<open>The script\<close>

type_synonym limits = "string \<Rightarrow> (int \<times> int) option"

definition live :: "limits \<Rightarrow> int \<Rightarrow> string \<Rightarrow> (int \<times> int) option" where
  "live st t key = (case st key of Some (c, x) \<Rightarrow> if t < x then Some (c, x) else None | None \<Rightarrow> None)"

record limit_result =
  lr_allowed :: bool
  lr_count :: int
  lr_limit :: int
  lr_retry :: int

text \<open>\<open>EXPIRE\<close> with a window that is not positive deletes the key; \<open>TTL\<close> rounds to the nearest second and
  is -2 for an absent key; \<open>INCR\<close> fails on overflow.\<close>

definition rate_limit_script :: "string \<Rightarrow> int \<Rightarrow> int \<Rightarrow> int \<Rightarrow> limits \<Rightarrow> limit_result res \<times> limits" where
  "rate_limit_script key limit window t st =
     (let old = live st t key;
          count = (case old of None \<Rightarrow> 1 | Some (c, _) \<Rightarrow> c + 1)
      in if int64_max < count then (Inl ''ERR increment or decrement would overflow'', st)
         else
           (let st' = (if count = 1 \<and> window \<le> 0 then st(key := None)
                       else st(key := Some (count, case old of Some (_, x) \<Rightarrow> if count = 1 then t + 1000 * window else x
                                                             | None \<Rightarrow> t + 1000 * window)));
                ttl = (case live st' t key of None \<Rightarrow> - 2 | Some (_, x) \<Rightarrow> (x - t + 500) div 1000)
            in if limit < count then
                 (Inr \<lparr>lr_allowed = False, lr_count = count, lr_limit = limit, lr_retry = (if ttl < 0 then 0 else ttl)\<rparr>, st')
               else (Inr \<lparr>lr_allowed = True, lr_count = count, lr_limit = limit, lr_retry = 0\<rparr>, st')))"

section \<open>The limiter\<close>

text \<open>\<open>ok\<close> says whether the command reached Redis.\<close>

definition checkLimit :: "bool \<Rightarrow> string \<Rightarrow> int \<Rightarrow> int \<Rightarrow> int \<Rightarrow> limits \<Rightarrow> limit_result res \<times> limits" where
  "checkLimit ok key limit windowSec t st =
     (if \<not> ok then (Inl ''rate limit check failed: '', st)
      else (case rate_limit_script key limit windowSec t st of
         (Inl err, st') \<Rightarrow> (Inl (''rate limit check failed: '' @ err), st')
       | (Inr r, st') \<Rightarrow> (Inr r, st')))"

definition global_key :: string where "global_key = ''rate_limit:global''"
definition user_key :: "string \<Rightarrow> string" where "user_key username = ''rate_limit:user:'' @ username"

definition CheckGlobalLimit :: "bool \<Rightarrow> int \<Rightarrow> int \<Rightarrow> limits \<Rightarrow> limit_result res \<times> limits" where
  "CheckGlobalLimit ok limit t st = checkLimit ok global_key limit 60 t st"

definition CheckUserLimit :: "bool \<Rightarrow> string \<Rightarrow> int \<Rightarrow> int \<Rightarrow> int \<Rightarrow> limits \<Rightarrow> limit_result res \<times> limits" where
  "CheckUserLimit ok username limit windowSec t st = checkLimit ok (user_key username) limit windowSec t st"

definition CheckWorkflowLimit :: "bool \<Rightarrow> string \<Rightarrow> string \<Rightarrow> int \<Rightarrow> int \<Rightarrow> int \<Rightarrow> limits \<Rightarrow> limit_result res \<times> limits" where
  "CheckWorkflowLimit ok username workflowTag limit windowSec t st =
     checkLimit ok (''rate_limit:workflow:'' @ username @ '':'' @ workflowTag) limit windowSec t st"

definition GetCurrentCount :: "string \<Rightarrow> int \<Rightarrow> limits \<Rightarrow> int" where
  "GetCurrentCount key t st = (case live st t key of None \<Rightarrow> 0 | Some (c, _) \<Rightarrow> c)"

definition ResetLimit :: "string \<Rightarrow> limits \<Rightarrow> limits" where
  "ResetLimit key st = st(key := None)"

section \<open>Tiers\<close>

datatype tier = TierSimple | TierStandard | TierHeavy

fun tier_String :: "tier \<Rightarrow> string" where
  "tier_String TierSimple = ''simple''"
| "tier_String TierStandard = ''standard''"
| "tier_String TierHeavy = ''heavy''"

record tier_config =
  tc_tier :: tier
  tc_limit :: int
  tc_window :: int
  tc_description :: string

fun DefaultTierConfigs :: "tier \<Rightarrow> tier_config" where
  "DefaultTierConfigs TierSimple = \<lparr>tc_tier = TierSimple, tc_limit = 100, tc_window = 60,
     tc_description = ''Simple workflows (no agent nodes) - 100 runs/minute''\<rparr>"
| "DefaultTierConfigs TierStandard = \<lparr>tc_tier = TierStandard, tc_limit = 20, tc_window = 60,
     tc_description = ''Standard workflows (1-2 agent nodes) - 20 runs/minute''\<rparr>"
| "DefaultTierConfigs TierHeavy = \<lparr>tc_tier = TierHeavy, tc_limit = 5, tc_window = 60,
     tc_description = ''Heavy workflows (3+ agent nodes) - 5 runs/minute''\<rparr>"

definition GetLimitForTier :: "tier \<Rightarrow> int" where
  "GetLimitForTier t = tc_limit (DefaultTierConfigs t)"

definition GetWindowForTier :: "tier \<Rightarrow> int" where
  "GetWindowForTier t = tc_window (DefaultTierConfigs t)"

definition GetDescription :: "tier \<Rightarrow> string" where
  "GetDescription t = tc_description (DefaultTierConfigs t)"

definition GetAllTiers :: "tier_config list" where
  "GetAllTiers = map DefaultTierConfigs [TierSimple, TierStandard, TierHeavy]"

definition tier_key :: "string \<Rightarrow> tier \<Rightarrow> string" where
  "tier_key username t = ''rate_limit:user:'' @ username @ '':tier:'' @ tier_String t"

definition CheckTieredLimit :: "bool \<Rightarrow> string \<Rightarrow> tier \<Rightarrow> int \<Rightarrow> limits \<Rightarrow> limit_result res \<times> limits" where
  "CheckTieredLimit ok username tr t st = checkLimit ok (tier_key username tr) (GetLimitForTier tr) 60 t st"

record profile =
  p_tier :: tier
  p_agents :: nat
  p_has_agents :: bool
  p_total :: nat

definition determineTier :: "nat \<Rightarrow> tier" where
  "determineTier n = (if n = 0 then TierSimple else if n \<le> 2 then TierStandard else TierHeavy)"

definition is_agent :: "gval \<Rightarrow> bool" where
  "is_agent v = (case as_obj v of None \<Rightarrow> False | Some n \<Rightarrow> as_string (mget n ''type'') = Some ''agent'')"

definition InspectWorkflow :: "gval smap \<Rightarrow> profile" where
  "InspectWorkflow workflow =
     (let vals = (case mget workflow ''nodes'' of GArr xs \<Rightarrow> xs | GObj m \<Rightarrow> map snd m | _ \<Rightarrow> []);
          agents = length (filter is_agent vals)
      in \<lparr>p_tier = determineTier agents, p_agents = agents, p_has_agents = (0 < agents), p_total = length vals\<rparr>)"

section \<open>The middleware\<close>

text \<open>\<open>header\<close> is the value of \<open>X-Internal-Service\<close>, \<open>secret\<close> that of \<open>INTERNAL_SERVICE_SECRET\<close> (empty when absent).\<close>

definition isInternalRequest :: "string \<Rightarrow> string \<Rightarrow> bool" where
  "isInternalRequest header secret =
     (if header = '''' then False
      else header = (if secret = '''' then ''default-internal-secret-change-in-prod'' else secret))"

datatype verdict = Forward | TooManyRequests limit_result

definition verdict_of :: "limit_result res \<Rightarrow> verdict" where
  "verdict_of r = (case r of Inl _ \<Rightarrow> Forward | Inr x \<Rightarrow> if lr_allowed x then Forward else TooManyRequests x)"

definition GlobalRateLimitMiddleware ::
  "string \<Rightarrow> string \<Rightarrow> bool \<Rightarrow> int \<Rightarrow> int \<Rightarrow> limits \<Rightarrow> verdict \<times> limits" where
  "GlobalRateLimitMiddleware header secret ok limit t st =
     (if isInternalRequest header secret then (Forward, st)
      else (case CheckGlobalLimit ok limit t st of (r, st') \<Rightarrow> (verdict_of r, st')))"

definition UserRateLimitMiddleware ::
  "string \<Rightarrow> string \<Rightarrow> string option \<Rightarrow> bool \<Rightarrow> int \<Rightarrow> int \<Rightarrow> limits \<Rightarrow> verdict \<times> limits" where
  "UserRateLimitMiddleware header secret username ok limit t st =
     (if isInternalRequest header secret then (Forward, st)
      else (case username of
         None \<Rightarrow> (Forward, st)
       | Some u \<Rightarrow> if u = '''' then (Forward, st)
                   else (case CheckUserLimit ok u limit 60 t st of (r, st') \<Rightarrow> (verdict_of r, st'))))"

section \<open>Windows\<close>

text \<open>A sequence of checks on one key at the given times; \<open>True\<close> for an admitted request.\<close>

fun admit :: "string \<Rightarrow> int \<Rightarrow> int \<Rightarrow> int list \<Rightarrow> limits \<Rightarrow> bool list" where
  "admit key limit window [] st = []"
| "admit key limit window (t # ts) st =
     (case checkLimit True key limit window t st of
        (r, st') \<Rightarrow> (case r of Inr x \<Rightarrow> lr_allowed x | Inl _ \<Rightarrow> False) # admit key limit window ts st')"

lemma length_admit [simp]: "length (admit key limit window ts st) = length ts"
  by (induction ts arbitrary: st) (auto split: prod.split)

text \<open>One check, with room to count: in a live window it adds one, otherwise it opens a window.\<close>

lemma check_live:
  assumes "live st t key = Some (c, x)" and "1 \<le> c" and "c < int64_max"
  shows "\<exists>r. checkLimit True key limit window t st = (Inr r, st(key := Some (c + 1, x))) \<and> lr_allowed r = (c < limit)
    \<and> (\<not> lr_allowed r \<longrightarrow> lr_retry r = (x - t + 500) div 1000)"
proof -
  have x: "t < x" using assms(1) by (auto simp: live_def split: option.splits if_splits)
  then have "0 \<le> (x - t + 500) div 1000" by simp
  with assms x show ?thesis
    by (simp add: checkLimit_def rate_limit_script_def Let_def live_def)
qed

lemma check_fresh:
  assumes "live st t key = None" and "0 < window"
  shows "\<exists>r. checkLimit True key limit window t st = (Inr r, st(key := Some (1, t + 1000 * window))) \<and> lr_allowed r = (1 \<le> limit)"
  using assms by (simp add: checkLimit_def rate_limit_script_def Let_def int64_max_def)

lemma admit_live:
  assumes "st key = Some (c, x)" and "1 \<le> c" and "c + int (length ts) \<le> int64_max" and "\<forall>t \<in> set ts. t < x"
  shows "admit key limit window ts st = map (\<lambda>i. c + int i < limit) [0..<length ts]"
  using assms
proof (induction ts arbitrary: st c)
  case (Cons t ts)
  have l: "live st t key = Some (c, x)" using Cons.prems(1,4) by (simp add: live_def)
  have c: "c < int64_max" using Cons.prems(3) by simp
  obtain r where r: "checkLimit True key limit window t st = (Inr r, st(key := Some (c + 1, x)))" "lr_allowed r = (c < limit)"
    using check_live [OF l Cons.prems(2) c] by blast
  have "admit key limit window ts (st(key := Some (c + 1, x))) = map (\<lambda>i. c + 1 + int i < limit) [0..<length ts]"
    using Cons.prems by (intro Cons.IH) auto
  moreover have "map (\<lambda>i. c + int i < limit) [0..<Suc (length ts)]
      = (c < limit) # map (\<lambda>i. c + 1 + int i < limit) [0..<length ts]"
    by (simp only: map_upt_Suc) (simp add: algebra_simps)
  ultimately show ?case using r by simp
qed simp

lemma admit_window:
  assumes "live st t key = None" and "0 < window" and "\<forall>u \<in> set ts. u < t + 1000 * window"
    and "int (length ts) < int64_max"
  shows "admit key limit window (t # ts) st = map (\<lambda>i. int i < limit) [0..<Suc (length ts)]"
proof -
  obtain r where r: "checkLimit True key limit window t st = (Inr r, st(key := Some (1, t + 1000 * window)))"
    "lr_allowed r = (1 \<le> limit)"
    using check_fresh [OF assms(1,2)] by blast
  have "admit key limit window ts (st(key := Some (1, t + 1000 * window)))
      = map (\<lambda>i. 1 + int i < limit) [0..<length ts]"
    using assms(3,4) by (intro admit_live) auto
  then show ?thesis using r by (simp only: map_upt_Suc) (auto simp: algebra_simps)
qed

text \<open>C15. Within a window the first \<open>limit\<close> requests are admitted and all others refused: when the counter is absent and the
  requests of the sequence come before the first one's window ends, request number \<open>i\<close> (from 0) is
  admitted exactly if \<open>i < limit\<close>.\<close>

theorem window_admits_exactly_limit:
  assumes "live st t key = None" and "0 < window" and "\<forall>u \<in> set ts. u < t + 1000 * window"
    and "int (length ts) < int64_max"
  shows "admit key limit window (t # ts) st = map (\<lambda>i. int i < limit) [0..<Suc (length ts)]"
  by (rule admit_window [OF assms])

theorem window_admits_exactly_limit_witness:
  "admit ''k'' 2 60 [0, 10, 59999, 59999] (\<lambda>_. None) = [True, True, False, False]"
  using window_admits_exactly_limit [where st = "\<lambda>_. None" and t = 0 and key = "''k''" and window = 60
      and ts = "[10, 59999, 59999]" and limit = 2]
  by (simp add: live_def int64_max_def upt_rec)

abbreviation admitted :: "bool list \<Rightarrow> int" where
  "admitted bs \<equiv> int (count_list bs True)"

lemma admitted_upt: "admitted (map (\<lambda>i. int i < limit) [0..<n]) \<le> max 0 limit"
proof -
  have "admitted (map (\<lambda>i. int i < limit) [0..<n]) \<le> max 0 (min (int n) limit)" by (induction n) auto
  then show ?thesis by linarith
qed

lemma admit_fresh:
  assumes "live st t key = None" and "0 < window" and "\<forall>u \<in> set ts. u < t + 1000 * window"
    and "int (length ts) < int64_max"
  shows "admitted (admit key limit window (t # ts) st) \<le> max 0 limit"
  unfolding admit_window [OF assms] by (rule admitted_upt)

lemma admit_interval:
  assumes "0 < window" and "st key = Some (c, x)" and "1 \<le> c" and "c + int (length ts) < int64_max"
    and "sorted ts" and "\<forall>u \<in> set ts. a \<le> u \<and> u < a + 1000 * window"
  shows "admitted (admit key limit window ts st) \<le> max 0 (limit - c) + max 0 limit"
  using assms(2-6)
proof (induction ts arbitrary: st c)
  case (Cons t ts)
  show ?case
  proof (cases "t < x")
    case True
    then have l: "live st t key = Some (c, x)" using Cons.prems(1) by (simp add: live_def)
    obtain r where r: "checkLimit True key limit window t st = (Inr r, st(key := Some (c + 1, x)))" "lr_allowed r = (c < limit)"
      using check_live [OF l Cons.prems(2), of limit window] Cons.prems(3) by auto
    have "admitted (admit key limit window ts (st(key := Some (c + 1, x)))) \<le> max 0 (limit - (c + 1)) + max 0 limit"
      using Cons.prems by (intro Cons.IH) auto
    then show ?thesis using r by (auto simp: max_def split: if_splits)
  next
    case False
    then have l: "live st t key = None" using Cons.prems(1) by (simp add: live_def)
    have "\<forall>u \<in> set ts. u < t + 1000 * window" using Cons.prems(5) by fastforce
    moreover have "int (length ts) < int64_max" using Cons.prems(2,3) by simp
    ultimately show ?thesis using admit_fresh [OF l assms(1), of ts limit] by linarith
  qed
qed simp

text \<open>In any interval of one window's length at most twice the limit is admitted, whatever happened before: the counter is
  in an arbitrary state (absent, expired or with any positive count) and requests come at
  non-decreasing times.\<close>

theorem interval_admits_at_most_twice:
  assumes "0 < window" and "sorted ts" and "\<forall>u \<in> set ts. a \<le> u \<and> u < a + 1000 * window"
    and "case st key of None \<Rightarrow> int (length ts) < int64_max | Some (c, _) \<Rightarrow> 1 \<le> c \<and> c + int (length ts) < int64_max"
  shows "admitted (admit key limit window ts st) \<le> 2 * max 0 limit"
proof (cases "st key")
  case None
  show ?thesis
  proof (cases ts)
    case (Cons t us)
    have "live st t key = None" using None by (simp add: live_def)
    moreover have "\<forall>u \<in> set us. u < t + 1000 * window" using assms(3) Cons by fastforce
    ultimately show ?thesis using admit_fresh [of st t key window us limit] assms(1,4) None Cons by simp
  qed simp
next
  case (Some p)
  obtain c x where p: "p = (c, x)" by (cases p)
  from admit_interval [OF assms(1), of st key c x ts a limit] assms Some p show ?thesis by auto
qed

theorem interval_admits_at_most_twice_witness:
  "admitted (admit ''k'' 5 60 [59999, 59999, 60000] (\<lambda>_. Some (1, 60000))) \<le> 10"
  using interval_admits_at_most_twice [where window = 60 and ts = "[59999, 59999, 60000]" and a = 59999
      and st = "\<lambda>_. Some (1, 60000)" and key = "''k''" and limit = 5]
  by (simp add: int64_max_def)

text \<open>The window is fixed, not sliding: with the limit of the heavy tier, nine requests are admitted within one
  millisecond, although no more than five per minute are meant to be.\<close>

theorem fixed_window_burst:
  "admitted (drop 1 (admit (tier_key ''ann'' TierHeavy) (GetLimitForTier TierHeavy) 60
     [0, 59999, 59999, 59999, 59999, 60000, 60000, 60000, 60000, 60000] (\<lambda>_. None))) = 9"
  by (simp add: checkLimit_def rate_limit_script_def Let_def live_def GetLimitForTier_def int64_max_def tier_key_def)

section \<open>Separation and classification\<close>

text \<open>Requests of one user never count against another user's limit, and the tiers of one user are counted apart:
  a check leaves the counter of every other key as it was.\<close>

theorem tiers_counted_apart:
  assumes "(u, tr) \<noteq> (u', tr')" and "CHR '':'' \<notin> set u" and "CHR '':'' \<notin> set u'"
  shows "GetCurrentCount (tier_key u' tr') t' (snd (CheckTieredLimit ok u tr t st)) = GetCurrentCount (tier_key u' tr') t' st"
proof -
  have inj: "u = u' \<and> tr = tr'" if "tier_key u tr = tier_key u' tr'"
  proof -
    have "u @ CHR '':'' # (''tier:'' @ tier_String tr) = u' @ CHR '':'' # (''tier:'' @ tier_String tr')"
      using that by (simp add: tier_key_def)
    then have "split_on (CHR '':'') (u @ CHR '':'' # (''tier:'' @ tier_String tr)) =
        split_on (CHR '':'') (u' @ CHR '':'' # (''tier:'' @ tier_String tr'))" by simp
    then have "u = u'" unfolding split_on_append [OF assms(2)] split_on_append [OF assms(3)] by simp
    moreover from this that have "tier_String tr = tier_String tr'" by (simp add: tier_key_def)
    then have "tr = tr'" by (cases tr; cases tr') simp_all
    ultimately show ?thesis by simp
  qed
  have "tier_key u' tr' \<noteq> tier_key u tr" using inj assms(1) by metis
  then have "snd (checkLimit ok (tier_key u tr) l w t st) (tier_key u' tr') = st (tier_key u' tr')" for l w
    by (auto simp: checkLimit_def rate_limit_script_def Let_def)
  then show ?thesis by (simp add: CheckTieredLimit_def GetCurrentCount_def live_def)
qed

theorem tiers_counted_apart_witness:
  "GetCurrentCount (tier_key ''ann'' TierSimple) 0 (snd (CheckTieredLimit True ''ann'' TierHeavy 0 (\<lambda>_. None)))
     = GetCurrentCount (tier_key ''ann'' TierSimple) 0 (\<lambda>_. None)"
  by (rule tiers_counted_apart) simp_all

end
