(* ===== verification/Coordinator.thy ===== *)
theory Coordinator
  imports Orchestrator_Client Rate_Limit
begin

text \<open>
  The coordinator, \<open>cmd/workflow-runner/coordinator\<close>: it takes completion signals and routes a run to its next nodes.

  Every handler is a function on the shared state. A goroutine the coordinator starts without waiting for
  it (\<open>go c.handleSkippedNode(...)\<close>, \<open>go c.handleAbsorberNode(...)\<close>) is appended to \<open>r_spawned\<close>;
  \<open>run_task\<close> is its body. Log output is left out. \<open>base\<close> is the orchestrator's URL. The rate limiter is
  never nil (\<open>main.go\<close> always passes one).
\<close>

section \<open>Streams\<close>

definition default_stream :: "string \<Rightarrow> string" where
  "default_stream nodeType =
     (if nodeType \<in> {''agent'', ''classifier'', ''search'', ''function'', ''http'', ''hitl'', ''transform'', ''aggregate'', ''filter''}
      then ''wf.tasks.'' @ nodeType else ''wf.tasks.default'')"

definition GetStreamForNodeType :: "string smap \<Rightarrow> string \<Rightarrow> string" where
  "GetStreamForNodeType streamMap nodeType =
     (case map_of streamMap nodeType of Some stream \<Rightarrow> stream | None \<Rightarrow> default_stream nodeType)"

definition RegisterCustomMapping :: "string \<Rightarrow> string \<Rightarrow> string smap \<Rightarrow> string smap" where
  "RegisterCustomMapping nodeType stream streamMap = AList.update nodeType stream streamMap"

definition GetAllStreams :: "string smap \<Rightarrow> string list" where
  "GetAllStreams streamMap = remdups (map snd streamMap @
     [''wf.tasks.agent'', ''wf.tasks.classifier'', ''wf.tasks.search'', ''wf.tasks.function'', ''wf.tasks.http'',
      ''wf.tasks.hitl'', ''wf.tasks.transform'', ''wf.tasks.aggregate'', ''wf.tasks.filter'', ''wf.tasks.default''])"

section \<open>Tokens\<close>

definition loadAndResolveConfig :: "env \<Rightarrow> string \<Rightarrow> node \<Rightarrow> gval smap option io" where
  "loadAndResolveConfig e run n = do {
     cfg \<leftarrow> (if n_config n \<noteq> [] then State_Monad.return (Some (n_config n))
             else if n_config_ref n \<noteq> '''' then do {
               d \<leftarrow> LoadConfig e (n_config_ref n);
               State_Monad.return (case d of Inl _ \<Rightarrow> None | Inr v \<Rightarrow> as_obj v)}
             else State_Monad.return None);
     (case cfg of
        None \<Rightarrow> State_Monad.return None
      | Some config \<Rightarrow> do {
          r \<leftarrow> ResolveConfig e (num_text e) run config;
          State_Monad.return (Some (case r of Inl _ \<Rightarrow> config | Inr resolved \<Rightarrow> resolved))})}"

definition job_id :: "string \<Rightarrow> string \<Rightarrow> nat \<Rightarrow> string" where
  "job_id run nodeID t = run @ ''-'' @ nodeID @ ''-'' @ show_nat t"

definition token_metadata :: "gval smap option \<Rightarrow> ir \<Rightarrow> gval smap" where
  "token_metadata cfg i =
     (case cfg of
        None \<Rightarrow> []
      | Some c \<Rightarrow>
        (case map_of c ''task'' of
           Some task \<Rightarrow> [(''task'', task)]
         | None \<Rightarrow> (case map_of c ''prompt'' of Some prompt \<Rightarrow> [(''task'', prompt)] | None \<Rightarrow> []))
        @ (case map_of c ''workflow'' of Some v \<Rightarrow> [(''workflow'', v)] | None \<Rightarrow> []))
     @ (case as_string (mget (ir_metadata i) ''tag'') of Some tag \<Rightarrow> [(''workflow_tag'', GStr tag)] | None \<Rightarrow> [])"

definition publishToken ::
  "env \<Rightarrow> string \<Rightarrow> string \<Rightarrow> string \<Rightarrow> string \<Rightarrow> string \<Rightarrow> gval smap option \<Rightarrow> ir \<Rightarrow> unit res io" where
  "publishToken e stream run fromNode toNode payloadRef cfg i = do {
     t \<leftarrow> now (nano e);
     _ \<leftarrow> now (nano e);
     r \<leftarrow> redis_AddToStream e stream (ETask \<lparr>t_id = job_id run toNode t, t_run_id = run, t_from_node = fromNode,
        t_to_node = toNode, t_payload_ref = payloadRef, t_config = cfg, t_owner = ir_username i,
        t_metadata = token_metadata cfg i\<rparr>);
     State_Monad.return (case r of Inl err \<Rightarrow> Inl (''failed to add to stream: '' @ err) | Inr _ \<Rightarrow> Inr ())}"

section \<open>Results\<close>

definition result_id :: "string \<Rightarrow> string \<Rightarrow> nat \<Rightarrow> string" where
  "result_id run nodeID t = ''artifact://'' @ job_id run nodeID t"

text \<open>Store a document under a fresh artifact id and record it as the node's output; the id if that
  worked, otherwise the empty string.\<close>

definition store_result :: "env \<Rightarrow> string \<Rightarrow> string \<Rightarrow> gval smap \<Rightarrow> string io" where
  "store_result e run nodeID doc = do {
     t \<leftarrow> now (nano e);
     r \<leftarrow> redis_Set e (''cas:'' @ result_id run nodeID t) (RDoc (GObj doc));
     State_Monad.return (case r of Inl _ \<Rightarrow> '''' | Inr _ \<Rightarrow> result_id run nodeID t)}"

definition record_context :: "env \<Rightarrow> string \<Rightarrow> string \<Rightarrow> string \<Rightarrow> unit io" where
  "record_context e run nodeID ref =
     (if ref = '''' then State_Monad.return ()
      else do {_ \<leftarrow> StoreContext e run nodeID ref; State_Monad.return ()})"

definition storeResultInCAS :: "env \<Rightarrow> completion_signal \<Rightarrow> string io" where
  "storeResultInCAS e signal = do {
     ref \<leftarrow> (case cs_result_data signal of
        Some doc \<Rightarrow> store_result e (cs_run_id signal) (cs_node_id signal) doc
      | None \<Rightarrow> State_Monad.return (cs_result_ref signal));
     record_context e (cs_run_id signal) (cs_node_id signal) ref;
     State_Monad.return ref}"

section \<open>Failures\<close>

text \<open>A nil \<open>Metadata\<close> marshals as null.\<close>

definition metadata_value :: "gval smap \<Rightarrow> gval" where
  "metadata_value m = (if m = [] then GNil else GObj m)"

definition handleFailedNode :: "env \<Rightarrow> completion_signal \<Rightarrow> ir \<Rightarrow> unit io" where
  "handleFailedNode e signal i =
     (let run = cs_run_id signal; nodeID = cs_node_id signal; meta = cs_metadata signal in do {
       (case cs_result_data signal of
          None \<Rightarrow> State_Monad.return ()
        | Some doc \<Rightarrow> do {
            ref \<leftarrow> store_result e run nodeID doc;
            record_context e run nodeID ref});
       t \<leftarrow> now (unix e);
       _ \<leftarrow> StoreContext e run (nodeID @ '':failure'')
          (json_text (num_text e) (GObj [(''status'', GStr ''failed''), (''node_id'', GStr nodeID), (''error'', metadata_value meta),
             (''timestamp'', GNum (of_int t)), (''retryable'', mget meta ''retryable''), (''error_type'', mget meta ''error_type'')]));
       (case ir_username i of
          None \<Rightarrow> State_Monad.return ()
        | Some username \<Rightarrow> do {
            t1 \<leftarrow> now (unix e);
            PublishWorkflowEvent e username [(''type'', GStr ''node_failed''), (''run_id'', GStr run), (''node_id'', GStr nodeID),
               (''error'', metadata_value meta), (''timestamp'', GNum (of_int t1))];
            t2 \<leftarrow> now (unix e);
            PublishWorkflowEvent e username [(''type'', GStr ''workflow_failed''), (''run_id'', GStr run), (''node_id'', GStr nodeID),
               (''error'', metadata_value meta), (''timestamp'', GNum (of_int t2))]});
       UpdateRunStatus e run ''FAILED''})"

section \<open>Routing\<close>

definition spawn :: "task \<Rightarrow> unit io" where
  "spawn t = State_Monad.update (\<lambda>w. w\<lparr>r_spawned := r_spawned w @ [t]\<rparr>)"

definition supported_type :: "string \<Rightarrow> bool" where
  "supported_type t \<longleftrightarrow> t \<in> {''http'', ''agent'', ''hitl''}"

definition processWorkerNode :: "env \<Rightarrow> string \<Rightarrow> string \<Rightarrow> string \<Rightarrow> node \<Rightarrow> string \<Rightarrow> ir \<Rightarrow> unit io" where
  "processWorkerNode e run fromNode nextNodeID nextNode resultRef i =
     (if \<not> supported_type (n_type nextNode) then spawn (TSkipped run fromNode nextNodeID nextNode resultRef i)
      else do {
        cfg \<leftarrow> loadAndResolveConfig e run nextNode;
        if cfg = None \<and> n_config_ref nextNode \<noteq> '''' then State_Monad.return ()
        else do {
          _ \<leftarrow> publishToken e (GetStreamForNodeType [] (n_type nextNode)) run fromNode nextNodeID resultRef cfg i;
          State_Monad.return ()}})"

text \<open>The loop over the next nodes, returning the ids counted as worker nodes.\<close>

fun route_nodes :: "env \<Rightarrow> string \<Rightarrow> string \<Rightarrow> string \<Rightarrow> ir \<Rightarrow> string list \<Rightarrow> string list io" where
  "route_nodes e run fromNode resultRef i [] = State_Monad.return []"
| "route_nodes e run fromNode resultRef i (nextNodeID # rest) =
     (case map_of (ir_nodes i) nextNodeID of
        None \<Rightarrow> route_nodes e run fromNode resultRef i rest
      | Some nextNode \<Rightarrow>
        if IsAbsorber nextNode then do {
          spawn (TAbsorber run fromNode nextNodeID resultRef nextNode i);
          route_nodes e run fromNode resultRef i rest}
        else do {
          processWorkerNode e run fromNode nextNodeID nextNode resultRef i;
          ws \<leftarrow> route_nodes e run fromNode resultRef i rest;
          State_Monad.return (nextNodeID # ws)})"

definition routeToNextNodes :: "env \<Rightarrow> string \<Rightarrow> string \<Rightarrow> string list \<Rightarrow> string \<Rightarrow> ir \<Rightarrow> unit io" where
  "routeToNextNodes e run fromNode nextNodes resultRef i =
     (if nextNodes = [] then State_Monad.return ()
      else do {
        workerNodes \<leftarrow> route_nodes e run fromNode resultRef i nextNodes;
        if workerNodes = [] then State_Monad.return ()
        else do {_ \<leftarrow> Emit e run fromNode workerNodes; State_Monad.return ()}})"

section \<open>Patches\<close>

datatype reload = PErr string | PPanic | POk

definition compiler_put :: "env \<Rightarrow> gval smap \<Rightarrow> string option io" where
  "compiler_put e cfg = do {
     r \<leftarrow> cas_Put e (GObj cfg);
     State_Monad.return (case r of Inl _ \<Rightarrow> None | Inr ref \<Rightarrow> Some ref)}"

text \<open>The node map handed to the inspector has the Go type \<open>map[string]*sdk.Node\<close>, which none of the inspector's
  type switches accepts.\<close>

definition patched_profile :: "ir \<Rightarrow> profile" where
  "patched_profile i = InspectWorkflow [(''nodes'', GOther ''map[string]*sdk.Node'')]"

definition keep_metadata :: "ir \<Rightarrow> ir \<Rightarrow> ir" where
  "keep_metadata current i = i\<lparr>ir_metadata :=
     (case as_string (mget (ir_metadata current) ''tag'') of Some tag \<Rightarrow> AList.update ''tag'' (GStr tag) | None \<Rightarrow> id)
     ((case ir_username current of Some u \<Rightarrow> AList.update ''username'' (GStr u) | None \<Rightarrow> id) (ir_metadata i))\<rparr>"

definition store_patched_ir :: "env \<Rightarrow> string \<Rightarrow> ir \<Rightarrow> ir \<Rightarrow> reload io" where
  "store_patched_ir e run current i =
     (if 5 < p_agents (patched_profile i)
      then State_Monad.return (PErr (''SECURITY: workflow has '' @ show_nat (p_agents (patched_profile i)) @ '' agent nodes (max 5 allowed). Blocking to protect OpenAI quota.''))
      else do {
        r \<leftarrow> redis_Set e (ir_key run) (RIr (keep_metadata current i));
        State_Monad.return (case r of Inl err \<Rightarrow> PErr (''failed to store patched IR: '' @ err) | Inr _ \<Rightarrow> POk)})"

definition recompile :: "env \<Rightarrow> string \<Rightarrow> ir \<Rightarrow> gval smap option \<Rightarrow> reload io" where
  "recompile e run current workflow =
     (case schema_of (case workflow of None \<Rightarrow> [] | Some m \<Rightarrow> m) of
        Inl err \<Rightarrow> State_Monad.return (PErr (''failed to unmarshal patched workflow to schema: '' @ err))
      | Inr schema \<Rightarrow> do {
          c \<leftarrow> CompileWorkflowSchema (mord e) (compiler_put e) schema;
          (case c of
             CErr err \<Rightarrow> State_Monad.return (PErr (''failed to compile patched workflow: '' @ err))
           | COk i \<Rightarrow> store_patched_ir e run current i
           | _ \<Rightarrow> State_Monad.return PPanic)})"

definition reloadIRIfPatched :: "env \<Rightarrow> string \<Rightarrow> string \<Rightarrow> ir \<Rightarrow> reload io" where
  "reloadIRIfPatched e base run current = do {
     ps \<leftarrow> GetRunPatchesWithOperations e base (ir_username current) run;
     (case ps of
        Inl err \<Rightarrow> State_Monad.return (PErr (''failed to get run patches: '' @ err))
      | Inr [] \<Rightarrow> State_Monad.return POk
      | Inr _ \<Rightarrow> do {
          rr \<leftarrow> GetRun e base (ir_username current) run;
          (case rr of
             Inl err \<Rightarrow> State_Monad.return (PErr (''failed to get run: '' @ err))
           | Inr rinfo \<Rightarrow> do {
               a \<leftarrow> GetArtifact e base (ir_username current) (rs_base_ref rinfo);
               (case a of
                  Inl err \<Rightarrow> State_Monad.return (PErr (''failed to get base artifact: '' @ err))
                | Inr artifact \<Rightarrow> do {
                    m \<leftarrow> MaterializeWorkflowForRun e base (ir_username current) (af_content artifact) run;
                    (case m of
                       Panic \<Rightarrow> State_Monad.return PPanic
                     | Ret (Inl err) \<Rightarrow> State_Monad.return (PErr (''failed to materialize workflow: '' @ err))
                     | Ret (Inr workflow) \<Rightarrow> recompile e run current workflow)})})})}"

section \<open>Completions\<close>

text \<open>The steps of \<open>handleCompletion\<close> after the failure check: take the token off the counter (4), store the result and
  announce it (5), route with the reloaded IR (6 to 8), check for completion at a terminal node (9). Each
  returns what the next one needs, or nothing when the handler has returned.\<close>

definition announce :: "env \<Rightarrow> completion_signal \<Rightarrow> ir \<Rightarrow> string \<Rightarrow> int \<Rightarrow> unit io" where
  "announce e signal i resultRef counter =
     (case ir_username i of
        None \<Rightarrow> State_Monad.return ()
      | Some username \<Rightarrow> do {
          t \<leftarrow> now (unix e);
          PublishWorkflowEvent e username [(''type'', GStr ''node_completed''), (''run_id'', GStr (cs_run_id signal)),
             (''node_id'', GStr (cs_node_id signal)), (''status'', GStr (cs_status signal)), (''counter'', GNum (of_int counter)),
             (''result_ref'', GStr resultRef), (''timestamp'', GNum (of_int t))]})"

definition consume_token :: "env \<Rightarrow> completion_signal \<Rightarrow> ir \<Rightarrow> string option io" where
  "consume_token e signal i = do {
     c \<leftarrow> Consume e (cs_run_id signal) (cs_node_id signal);
     (case c of
        Inl _ \<Rightarrow> State_Monad.return None
      | Inr _ \<Rightarrow> do {
          k \<leftarrow> GetCounter e (cs_run_id signal);
          resultRef \<leftarrow> storeResultInCAS e signal;
          announce e signal i resultRef (case k of Inl _ \<Rightarrow> 0 | Inr v \<Rightarrow> v);
          State_Monad.return (Some resultRef)})}"

definition route_completed :: "env \<Rightarrow> completion_signal \<Rightarrow> string \<Rightarrow> node option io" where
  "route_completed e signal resultRef = do {
     r \<leftarrow> loadIR e (cs_run_id signal);
     (case r of
        Inl _ \<Rightarrow> State_Monad.return None
      | Inr i \<Rightarrow>
        (case map_of (ir_nodes i) (cs_node_id signal) of
           None \<Rightarrow> State_Monad.return None
         | Some n \<Rightarrow> do {
             next \<leftarrow> DetermineNextNodes e (cs_run_id signal) (cs_node_id signal) resultRef n;
             (case next of
                Inl _ \<Rightarrow> State_Monad.return None
              | Inr nextNodes \<Rightarrow> do {
                  routeToNextNodes e (cs_run_id signal) (cs_node_id signal) nextNodes resultRef i;
                  State_Monad.return (Some n)})}))}"

definition check_terminal :: "env \<Rightarrow> completion_signal \<Rightarrow> node \<Rightarrow> unit io" where
  "check_terminal e signal n =
     (if n_is_terminal n then CheckCompletion e (cs_run_id signal) else State_Monad.return ())"

definition complete_node :: "env \<Rightarrow> completion_signal \<Rightarrow> ir \<Rightarrow> unit io" where
  "complete_node e signal i = do {
     c \<leftarrow> consume_token e signal i;
     (case c of
        None \<Rightarrow> State_Monad.return ()
      | Some resultRef \<Rightarrow> do {
          r \<leftarrow> route_completed e signal resultRef;
          (case r of None \<Rightarrow> State_Monad.return () | Some n \<Rightarrow> check_terminal e signal n)})}"

definition security_signal :: "completion_signal \<Rightarrow> string \<Rightarrow> completion_signal" where
  "security_signal signal err = signal\<lparr>cs_status := ''failed'', cs_result_data := None, cs_result_ref := '''',
     cs_metadata := [(''error_type'', GStr ''SecurityError''), (''error_message'', GStr err),
                     (''reason'', GStr ''excessive_agent_nodes'')]\<rparr>"

definition crash :: "unit io" where
  "crash = State_Monad.update (\<lambda>w. w\<lparr>r_crashed := True\<rparr>)"

text \<open>Step 3: after an agent node, pick up patches. False when the handler ends here.\<close>

definition pick_up_patches :: "env \<Rightarrow> string \<Rightarrow> completion_signal \<Rightarrow> ir \<Rightarrow> bool io" where
  "pick_up_patches e base signal i = do {
     r \<leftarrow> reloadIRIfPatched e base (cs_run_id signal) i;
     (case r of
        PPanic \<Rightarrow> do {crash; State_Monad.return False}
      | PErr err \<Rightarrow>
        if Contains err ''SECURITY'' \<or> Contains err ''BLOCKED'' then do {
          handleFailedNode e (security_signal signal err) i;
          State_Monad.return False}
        else State_Monad.return True
      | POk \<Rightarrow> do {_ \<leftarrow> loadIR e (cs_run_id signal); State_Monad.return True})}"

definition handleCompletion :: "env \<Rightarrow> string \<Rightarrow> completion_signal \<Rightarrow> unit io" where
  "handleCompletion e base signal = do {
     r \<leftarrow> loadIR e (cs_run_id signal);
     (case r of
        Inl _ \<Rightarrow> State_Monad.return ()
      | Inr i \<Rightarrow>
        (case map_of (ir_nodes i) (cs_node_id signal) of
           None \<Rightarrow> State_Monad.return ()
         | Some n \<Rightarrow>
           if cs_status signal = ''failed'' then handleFailedNode e signal i
           else do {
             goon \<leftarrow> (if n_type n = ''agent'' then pick_up_patches e base signal i else State_Monad.return True);
             if goon then complete_node e signal i else State_Monad.return ()}))}"

section \<open>Skipped nodes and absorbers\<close>

definition skipped_output :: "env \<Rightarrow> string \<Rightarrow> string \<Rightarrow> nat \<Rightarrow> nat \<Rightarrow> gval smap" where
  "skipped_output e nodeID nodeType t1 t2 =
     [(''status'', GStr ''skipped''), (''warning'', GStr (''No worker available for node type: '' @ nodeType)),
      (''node_id'', GStr nodeID),
      (''metrics'', GObj [(''start_time'', GStr (time_text e t1)), (''end_time'', GStr (time_text e t2)),
                          (''execution_time_ms'', GNum 0)])]"

definition handleSkippedNode :: "env \<Rightarrow> string \<Rightarrow> string \<Rightarrow> string \<Rightarrow> node \<Rightarrow> unit io" where
  "handleSkippedNode e base run skippedNodeID skippedNode = do {
     t1 \<leftarrow> now (nano e);
     t2 \<leftarrow> now (nano e);
     ref \<leftarrow> store_result e run skippedNodeID (skipped_output e skippedNodeID (n_type skippedNode) t1 t2);
     record_context e run skippedNodeID ref;
     handleCompletion e base
       \<lparr>cs_version = ''1.0'', cs_job_id = run @ ''-'' @ skippedNodeID @ ''-skipped'', cs_run_id = run, cs_node_id = skippedNodeID,
        cs_status = ''completed'', cs_result_data = Some (skipped_output e skippedNodeID (n_type skippedNode) t1 t2), cs_result_ref = '''',
        cs_metadata = [(''skipped'', GBool True), (''reason'', GStr ''no_worker_available'')]\<rparr>}"

definition absorber_output :: "env \<Rightarrow> nat \<Rightarrow> gval smap" where
  "absorber_output e t =
     [(''status'', GStr ''completed''),
      (''metrics'', GObj [(''sent_at'', GStr (time_text e t)), (''start_time'', GStr (time_text e t)),
         (''end_time'', GStr (time_text e (t + 1000000))), (''queue_time_ms'', GNum 0), (''execution_time_ms'', GNum 1),
         (''total_duration_ms'', GNum 1), (''memory_start_mb'', GNum 0), (''memory_peak_mb'', GNum 0), (''memory_end_mb'', GNum 0),
         (''cpu_percent'', GNum 0), (''thread_count'', GNum 0)])]"

text \<open>The loop of \<open>handleAbsorberNode\<close> over the next nodes.\<close>

definition absorber_emit :: "env \<Rightarrow> string \<Rightarrow> string \<Rightarrow> string \<Rightarrow> ir \<Rightarrow> string \<Rightarrow> unit io" where
  "absorber_emit e run absorberNodeID payloadRef i nextNodeID =
     (case map_of (ir_nodes i) nextNodeID of
        None \<Rightarrow> State_Monad.return ()
      | Some nextNode \<Rightarrow>
        if IsAbsorber nextNode then spawn (TAbsorber run absorberNodeID nextNodeID payloadRef nextNode i)
        else processWorkerNode e run absorberNodeID nextNodeID nextNode payloadRef i)"

definition handleAbsorberNode :: "env \<Rightarrow> string \<Rightarrow> string \<Rightarrow> string \<Rightarrow> node \<Rightarrow> ir \<Rightarrow> unit io" where
  "handleAbsorberNode e run absorberNodeID payloadRef absorberNode i = do {
     t \<leftarrow> now (nano e);
     ref \<leftarrow> store_result e run absorberNodeID (absorber_output e t);
     record_context e run absorberNodeID ref;
     next \<leftarrow> DetermineNextNodes e run absorberNodeID payloadRef absorberNode;
     (case next of
        Inl _ \<Rightarrow> State_Monad.return ()
      | Inr nextNodes \<Rightarrow>
        if nextNodes = [] then State_Monad.return ()
        else do {
          for_each (absorber_emit e run absorberNodeID payloadRef i) nextNodes;
          _ \<leftarrow> Emit e run absorberNodeID nextNodes;
          State_Monad.return ()})}"

section \<open>The main loop\<close>

text \<open>\<open>Start\<close> takes a signal off the queue and hands it to a goroutine; \<open>run_task\<close> runs a spawned goroutine to its end.\<close>

definition pop_signal :: "unit io" where
  "pop_signal = do {
     w \<leftarrow> State_Monad.get;
     (case r_signals w of
        [] \<Rightarrow> State_Monad.return ()
      | s # ss \<Rightarrow> State_Monad.set (w\<lparr>r_signals := ss, r_spawned := r_spawned w @ [THandle s]\<rparr>))}"

definition run_task :: "env \<Rightarrow> string \<Rightarrow> task \<Rightarrow> unit io" where
  "run_task e base t =
     (case t of
        THandle s \<Rightarrow> handleCompletion e base s
      | TAbsorber run fromNode nodeID payloadRef n i \<Rightarrow> handleAbsorberNode e run nodeID payloadRef n i
      | TSkipped run fromNode nodeID n payloadRef i \<Rightarrow> handleSkippedNode e base run nodeID n)"

end
