(* ===== verification/Executor.thy ===== *)
theory Executor
  imports Coordinator
begin

text \<open>
  Starting a run and ending a task: \<open>cmd/workflow-runner/executor/run_request_consumer.go\<close> and the workers' side of
  the completion protocol, \<open>common/worker/completion.go\<close>.
\<close>

section \<open>Starting a run\<close>

definition fetchWorkflowFromArtifact :: "env \<Rightarrow> string \<Rightarrow> string option \<Rightarrow> string \<Rightarrow> wf_schema res io" where
  "fetchWorkflowFromArtifact e base ctx artifactID = do {
     a \<leftarrow> GetArtifact e base ctx artifactID;
     State_Monad.return (case a of
        Inl err \<Rightarrow> Inl (''failed to get artifact: '' @ err)
      | Inr artifact \<Rightarrow> (case af_content artifact of
           None \<Rightarrow> Inl ''artifact content is null''
         | Some m \<Rightarrow> (case schema_of m of
              Inl err \<Rightarrow> Inl (''failed to unmarshal workflow schema: '' @ err)
            | Inr schema \<Rightarrow> Inr schema)))}"

definition findEntryNodes :: "env \<Rightarrow> ir \<Rightarrow> string list" where
  "findEntryNodes e i = map fst (filter (\<lambda>(_, n). n_dependencies n = []) (range_map (mord e) ''entry'' (ir_nodes i)))"

definition executor_stream :: "string \<Rightarrow> string" where
  "executor_stream nodeType =
     (if nodeType = ''agent'' then ''wf.tasks.agent''
      else if nodeType = ''http'' then ''wf.tasks.http''
      else if nodeType = ''hitl'' then ''wf.tasks.hitl''
      else ''wf.tasks.function'')"

definition entry_config :: "env \<Rightarrow> node \<Rightarrow> gval smap option io" where
  "entry_config e n =
     (if n_config n \<noteq> [] then State_Monad.return (Some (n_config n))
      else if n_config_ref n \<noteq> '''' then do {
        d \<leftarrow> LoadConfig e (n_config_ref n);
        State_Monad.return (case d of Inl _ \<Rightarrow> None | Inr v \<Rightarrow> as_obj v)}
      else State_Monad.return None)"

definition entry_metadata :: "gval smap option \<Rightarrow> gval smap \<Rightarrow> gval smap" where
  "entry_metadata cfg inputs =
     fold (\<lambda>(k, v). AList.update k v) inputs
       (case cfg of
          None \<Rightarrow> []
        | Some c \<Rightarrow> (case map_of c ''task'' of
             Some task \<Rightarrow> [(''task'', task)]
           | None \<Rightarrow> (case map_of c ''prompt'' of Some prompt \<Rightarrow> [(''task'', prompt)] | None \<Rightarrow> [])))"

text \<open>The loop over the entry nodes; a failed \<open>XADD\<close> ends it. (Looking an entry node up cannot fail: the ids come from the map.)\<close>

fun emit_initial :: "env \<Rightarrow> run_request \<Rightarrow> ir \<Rightarrow> string list \<Rightarrow> unit res io" where
  "emit_initial e rq i [] = State_Monad.return (Inr ())"
| "emit_initial e rq i (nodeID # rest) =
     (case map_of (ir_nodes i) nodeID of
        None \<Rightarrow> emit_initial e rq i rest
      | Some n \<Rightarrow> do {
          cfg \<leftarrow> entry_config e n;
          u \<leftarrow> now (uuid e);
          r \<leftarrow> redis_AddToStream e (executor_stream (n_type n))
            (ETask \<lparr>t_id = take 12 u, t_run_id = rq_run_id rq, t_from_node = '''', t_to_node = nodeID, t_payload_ref = '''',
               t_config = None, t_owner = None, t_metadata = entry_metadata cfg (rq_inputs rq)\<rparr>);
          (case r of
             Inl err \<Rightarrow> State_Monad.return (Inl (''failed to emit initial token: '' @ err))
           | Inr _ \<Rightarrow> emit_initial e rq i rest)})"

definition with_owner :: "run_request \<Rightarrow> ir \<Rightarrow> ir" where
  "with_owner rq i = i\<lparr>ir_metadata := AList.update ''tag'' (GStr (rq_tag rq))
     (AList.update ''username'' (GStr (rq_username rq)) (ir_metadata i))\<rparr>"

text \<open>From the compiled IR on: store it, set the counter, emit the first tokens, announce the run.\<close>

definition start_compiled :: "env \<Rightarrow> run_request \<Rightarrow> ir \<Rightarrow> unit res io" where
  "start_compiled e rq i0 =
     (let i = with_owner rq i0; entries = findEntryNodes e (with_owner rq i0) in do {
       s \<leftarrow> redis_Set e (ir_key (rq_run_id rq)) (RIr i);
       (case s of
          Inl err \<Rightarrow> State_Monad.return (Inl (''failed to store IR: '' @ err))
        | Inr _ \<Rightarrow>
          if entries = [] then State_Monad.return (Inl ''workflow has no entry nodes'')
          else do {
            c \<leftarrow> InitializeCounter e (rq_run_id rq) (int (length entries));
            (case c of
               Inl err \<Rightarrow> State_Monad.return (Inl (''failed to initialize counter: '' @ err))
             | Inr _ \<Rightarrow> do {
                 r \<leftarrow> emit_initial e rq i entries;
                 (case r of
                    Inl err \<Rightarrow> State_Monad.return (Inl err)
                  | Inr _ \<Rightarrow> do {
                      t \<leftarrow> now (unix e);
                      PublishWorkflowEvent e (rq_username rq)
                        [(''type'', GStr ''workflow_started''), (''run_id'', GStr (rq_run_id rq)), (''tag'', GStr (rq_tag rq)),
                         (''nodes'', GNum (of_nat (length (ir_nodes i)))), (''entry_nodes'', GNum (of_nat (length entries))),
                         (''timestamp'', GNum (of_int t))];
                      State_Monad.return (Inr ())})})})})"

definition started_key :: "string \<Rightarrow> string" where "started_key run = ''run:started:'' @ run"

definition handleRunRequest :: "env \<Rightarrow> string \<Rightarrow> entry \<Rightarrow> unit res io" where
  "handleRunRequest e base message =
     (case message of
        ERun rq \<Rightarrow> do {
          s \<leftarrow> redis_SetNX e (started_key (rq_run_id rq)) (RText ''1'');
          (case s of
             Inl err \<Rightarrow> State_Monad.return (Inl (''failed to check idempotency: '' @ err))
           | Inr False \<Rightarrow> State_Monad.return (Inr ())
           | Inr True \<Rightarrow> do {
               fetched \<leftarrow> fetchWorkflowFromArtifact e base (Some (rq_username rq)) (rq_artifact_id rq);
               (case fetched of
                  Inl err \<Rightarrow> State_Monad.return (Inl (''failed to fetch workflow from artifact: '' @ err))
                | Inr schema \<Rightarrow> do {
                    c \<leftarrow> CompileWorkflowSchema (mord e) (compiler_put e) schema;
                    (case c of
                       CErr err \<Rightarrow> State_Monad.return (Inl (''failed to compile workflow: '' @ err))
                     | COk i \<Rightarrow> start_compiled e rq i
                     | _ \<Rightarrow> do {crash; State_Monad.return (Inl ''panic'')})})})}
      | _ \<Rightarrow> State_Monad.return (Inl ''message missing request field''))"

text \<open>One read of the group \<open>run_executors\<close>; the message is acknowledged whether or not the run started.\<close>

definition request_stream :: string where "request_stream = ''wf.run.requests''"

definition processRunRequest :: "env \<Rightarrow> string \<Rightarrow> nat \<Rightarrow> (nat \<times> unit res) io" where
  "processRunRequest e base cursor = do {
     ok \<leftarrow> attempt e (OpExec ''XREADGROUP'');
     w \<leftarrow> State_Monad.get;
     if \<not> ok then State_Monad.return (cursor, Inl ''XREADGROUP error: '')
     else if cursor < length (r_streams w request_stream) then do {
       _ \<leftarrow> handleRunRequest e base (r_streams w request_stream ! cursor);
       _ \<leftarrow> attempt e (OpExec ''XACK'');
       State_Monad.return (Suc cursor, Inr ())}
     else State_Monad.return (cursor, Inr ())}"

section \<open>Ending a task\<close>

record completion_opts =
  co_token :: "token option"
  co_status :: string
  co_result :: "gval smap option"
  co_metadata :: "gval smap option"

definition quoted :: "string \<Rightarrow> string" where "quoted s = CHR 0x27 # s @ [CHR 0x27]"

definition validate_opts :: "completion_opts \<Rightarrow> string option" where
  "validate_opts opts =
     (case co_token opts of
        None \<Rightarrow> Some ''token is required''
      | Some tok \<Rightarrow>
        if t_id tok = '''' then Some ''token ID is required''
        else if t_run_id tok = '''' then Some ''run ID is required''
        else if t_to_node tok = '''' then Some ''node ID is required''
        else if co_status opts = '''' then Some ''status is required''
        else if co_status opts \<noteq> ''completed'' \<and> co_status opts \<noteq> ''failed''
          then Some (''status must be '' @ quoted ''completed'' @ '' or '' @ quoted ''failed'' @ '', got: '' @ co_status opts)
        else if co_status opts = ''completed'' \<and> co_result opts = None then Some ''result_data is required for completed status''
        else if co_status opts = ''failed'' \<and> co_metadata opts = None
          then Some ''metadata with error details is required for failed status''
        else None)"

definition completion_of :: "token \<Rightarrow> completion_opts \<Rightarrow> completion_signal" where
  "completion_of tok opts =
     \<lparr>cs_version = ''1.0'', cs_job_id = t_id tok, cs_run_id = t_run_id tok, cs_node_id = t_to_node tok, cs_status = co_status opts,
      cs_result_data = co_result opts, cs_result_ref = '''', cs_metadata = (case co_metadata opts of None \<Rightarrow> [] | Some m \<Rightarrow> m)\<rparr>"

definition SignalCompletion :: "env \<Rightarrow> completion_opts \<Rightarrow> unit res io" where
  "SignalCompletion e opts =
     (case validate_opts opts of
        Some err \<Rightarrow> State_Monad.return (Inl (''invalid completion opts: '' @ err))
      | None \<Rightarrow> do {
          ok \<leftarrow> attempt e (OpRPush ''completion_signals'');
          if \<not> ok then State_Monad.return (Inl ''failed to push completion signal: '')
          else do {
            State_Monad.update (\<lambda>w. w\<lparr>r_signals := r_signals w @
              (case co_token opts of None \<Rightarrow> [] | Some tok \<Rightarrow> [completion_of tok opts])\<rparr>);
            State_Monad.return (Inr ())}})"

end
