(* ===== verification/Compiler_Cycles.thy ===== *)
theory Compiler_Cycles
  imports Compiler
begin

text \<open>
  The cycle check of \<open>validate\<close> (\<open>common/compiler/ir.go\<close>). \<open>dep_graph ns\<close> is the graph of the
  \<open>Dependents\<close> lists; \<open>strict_graph ns\<close> keeps the edges whose target has no enabled loop
  configuration. The search succeeds only if the strict graph is acyclic, that is, if every cycle
  enters a loop node; it reports a cycle only if there is one; it always returns; and on a
  graph with no cycle at all it succeeds.
\<close>

definition dep_graph :: "nodes \<Rightarrow> (string \<times> string) set" where
  "dep_graph ns = {(u, w). \<exists>n. map_of ns u = Some n \<and> w \<in> set (n_dependents n)}"

definition loop_node :: "nodes \<Rightarrow> string \<Rightarrow> bool" where
  "loop_node ns x = (case map_of ns x of None \<Rightarrow> False | Some n \<Rightarrow> has_loop n)"

definition strict_graph :: "nodes \<Rightarrow> (string \<times> string) set" where
  "strict_graph ns = {(u, w) \<in> dep_graph ns. \<not> loop_node ns w}"

definition closed_deps :: "nodes \<Rightarrow> bool" where
  "closed_deps ns = (\<forall>(k, n) \<in> set ns. \<forall>d \<in> set (n_dependents n). map_of ns d \<noteq> None)"

section \<open>Soundness\<close>

text \<open>Between calls, the finished nodes (visited and off the stack) are closed under strict edges
  and span no strict cycle.\<close>

definition dfs_inv :: "nodes \<Rightarrow> string set \<Rightarrow> string set \<Rightarrow> bool" where
  "dfs_inv ns V R \<longleftrightarrow> R \<subseteq> V
     \<and> (\<forall>u \<in> V - R. \<forall>w. (u, w) \<in> strict_graph ns \<longrightarrow> w \<in> V - R)
     \<and> acyclic (strict_graph ns \<inter> (V - R) \<times> (V - R))"

lemma dfs_inv_subset: "dfs_inv ns V R \<Longrightarrow> R \<subseteq> V"
  by (simp add: dfs_inv_def)

lemma dfs_inv_closed:
  "dfs_inv ns V R \<Longrightarrow> u \<in> V - R \<Longrightarrow> (u, w) \<in> strict_graph ns \<Longrightarrow> w \<in> V - R"
  unfolding dfs_inv_def by blast

lemma dfs_inv_push:
  assumes inv: "dfs_inv ns V R" and x: "x \<notin> V"
  shows "dfs_inv ns (insert x V) (insert x R)"
proof -
  have eq: "insert x V - insert x R = V - R" using x by blast
  have "insert x R \<subseteq> insert x V" using inv unfolding dfs_inv_def by blast
  with inv show ?thesis unfolding dfs_inv_def eq by blast
qed

text \<open>Adding one node whose strict successors are all in a closed acyclic set keeps it acyclic.\<close>

lemma acyclic_extend:
  assumes ac: "acyclic (E \<inter> F \<times> F)" and x: "x \<notin> F"
    and cl: "\<And>u w. u \<in> F \<Longrightarrow> (u, w) \<in> E \<Longrightarrow> w \<in> F"
    and sx: "\<And>w. (x, w) \<in> E \<Longrightarrow> w \<in> F"
  shows "acyclic (E \<inter> insert x F \<times> insert x F)"
proof -
  let ?G = "E \<inter> insert x F \<times> insert x F"
  have stay: "v \<in> F \<and> (u, v) \<in> (E \<inter> F \<times> F)\<^sup>+" if "(u, v) \<in> ?G\<^sup>+" and "u \<in> F" for u v
    using that
  proof (induction rule: trancl.induct)
    case (r_into_trancl a b)
    then show ?case using cl by blast
  next
    case (trancl_into_trancl a b c)
    then have "b \<in> F" "(a, b) \<in> (E \<inter> F \<times> F)\<^sup>+" "(b, c) \<in> E" by auto
    moreover from this have "c \<in> F" using cl by blast
    ultimately show ?case by (meson IntI SigmaI trancl.trancl_into_trancl)
  qed
  have no: "(a, a) \<notin> ?G\<^sup>+" for a
  proof
    assume aa: "(a, a) \<in> ?G\<^sup>+"
    show False
    proof (cases "a \<in> F")
      case True
      with stay [OF aa] ac show False by (auto simp: acyclic_def)
    next
      case False
      from aa obtain b where b: "(a, b) \<in> ?G" "(b, a) \<in> ?G\<^sup>*" by (meson tranclD)
      with False have "a = x" by auto
      with b sx have "b \<in> F" by auto
      with False have "b \<noteq> a" by blast
      with b(2) have "(b, a) \<in> ?G\<^sup>+" by (auto dest: rtranclD)
      with stay \<open>b \<in> F\<close> False show False by blast
    qed
  qed
  then show ?thesis by (simp add: acyclic_def)
qed

lemma hasCycle_sound:
  "hasCycle f ns x V R = DOk V' R' \<Longrightarrow> x \<notin> V \<Longrightarrow> dfs_inv ns V R
     \<Longrightarrow> R' = R \<and> V \<subseteq> V' \<and> x \<in> V' \<and> dfs_inv ns V' R"
  "hasCycle_deps f ns ds V R = DOk V' R' \<Longrightarrow> dfs_inv ns V R
     \<Longrightarrow> R' = R \<and> V \<subseteq> V' \<and> dfs_inv ns V' R \<and> (\<forall>d \<in> set ds. loop_node ns d \<or> d \<in> V' - R)"
proof (induction f ns x V R and f ns ds V R arbitrary: V' R' and V' R'
    rule: hasCycle_hasCycle_deps.induct)
  case (1 ns x V R)
  then show ?case by simp
next
  case (2 f ns x V R)
  from 2(2) obtain n W S where n: "map_of ns x = Some n"
    and d: "hasCycle_deps f ns (n_dependents n) (insert x V) (insert x R) = DOk W S"
    and eq: "V' = W" "R' = S - {x}"
    by (auto split: option.splits dfs_result.splits)
  from 2(3,4) have inv: "dfs_inv ns (insert x V) (insert x R)" by (simp add: dfs_inv_push)
  from 2(1) [OF n d inv] have S: "S = insert x R" and sub: "insert x V \<subseteq> W"
    and inv': "dfs_inv ns W (insert x R)"
    and deps: "\<forall>d \<in> set (n_dependents n). loop_node ns d \<or> d \<in> W - insert x R"
    by auto
  from 2(3,4) have xR: "x \<notin> R" using dfs_inv_subset by blast
  let ?F = "W - insert x R"
  have F: "W - R = insert x ?F" using sub xR by auto
  have sx: "w \<in> ?F" if "(x, w) \<in> strict_graph ns" for w
    using that deps n by (auto simp: strict_graph_def dep_graph_def)
  have cl: "w \<in> ?F" if "u \<in> ?F" "(u, w) \<in> strict_graph ns" for u w
    using dfs_inv_closed [OF inv' that] .
  have "acyclic (strict_graph ns \<inter> insert x ?F \<times> insert x ?F)"
  proof (rule acyclic_extend)
    show "acyclic (strict_graph ns \<inter> ?F \<times> ?F)" using inv' unfolding dfs_inv_def by blast
  qed (use cl sx in blast)+
  moreover have "R \<subseteq> W" using dfs_inv_subset [OF inv'] by blast
  moreover have "\<forall>u \<in> W - R. \<forall>w. (u, w) \<in> strict_graph ns \<longrightarrow> w \<in> W - R"
    unfolding F using cl sx by blast
  ultimately have "dfs_inv ns W R" unfolding dfs_inv_def F by blast
  then show ?case using eq S sub xR by auto
next
  case (3 f ns V R)
  then show ?case by simp
next
  case (4 f ns d ds V R)
  show ?case
  proof (cases "d \<in> V")
    case False
    with 4(5) obtain W S where h: "hasCycle f ns d V R = DOk W S"
      and r: "hasCycle_deps f ns ds W S = DOk V' R'"
      by (auto split: dfs_result.splits)
    from 4(1) [OF False h False 4(6)] have S: "S = R" "V \<subseteq> W" "d \<in> W" "dfs_inv ns W R" by auto
    from 4(2) [OF False h r] S have "R' = R" "W \<subseteq> V'" "dfs_inv ns V' R"
      "\<forall>d \<in> set ds. loop_node ns d \<or> d \<in> V' - R" by auto
    with S False dfs_inv_subset [OF 4(6)] show ?thesis by auto
  next
    case True
    show ?thesis
    proof (cases "d \<in> R")
      case inR: True
      with True 4(5) obtain dn where dn: "map_of ns d = Some dn" "has_loop dn"
        and r: "hasCycle_deps f ns ds V R = DOk V' R'"
        by (auto split: option.splits if_splits)
      from 4(3) [of dn] True inR dn r 4(6) show ?thesis by (auto simp: loop_node_def)
    next
      case notR: False
      with True 4(5) have r: "hasCycle_deps f ns ds V R = DOk V' R'" by simp
      from 4(4) [OF _ notR r 4(6)] True notR show ?thesis by auto
    qed
  qed
qed

lemma check_cycles_sound:
  "check_cycles f ns xs V {} = DOk V' R' \<Longrightarrow> dfs_inv ns V {}
     \<Longrightarrow> dfs_inv ns V' {} \<and> V \<union> set xs \<subseteq> V'"
proof (induction xs arbitrary: V)
  case Nil
  then show ?case by simp
next
  case (Cons x xs)
  show ?case
  proof (cases "x \<in> V")
    case True
    with Cons show ?thesis by auto
  next
    case False
    with Cons.prems(1) obtain W S where h: "hasCycle f ns x V {} = DOk W S"
      and r: "check_cycles f ns xs W S = DOk V' R'"
      by (auto split: dfs_result.splits)
    from hasCycle_sound(1) [OF h False Cons.prems(2)] have "S = {}" "V \<subseteq> W" "x \<in> W" "dfs_inv ns W {}"
      by auto
    with Cons.IH [of W] r show ?thesis by auto
  qed
qed

lemma check_cycles_acyclic:
  assumes ok: "check_cycles f ns xs {} {} = DOk V' R'"
    and cover: "set xs = fst ` set ns" and closed: "closed_deps ns"
  shows "acyclic (strict_graph ns)"
proof -
  have "dfs_inv ns {} {}" by (simp add: dfs_inv_def acyclic_def)
  from check_cycles_sound [OF ok this] have inv: "dfs_inv ns V' {}" and V: "fst ` set ns \<subseteq> V'"
    using cover by auto
  have "strict_graph ns \<subseteq> V' \<times> V'"
  proof (rule subrelI)
    fix u w
    assume e: "(u, w) \<in> strict_graph ns"
    then have "u \<in> fst ` set ns"
      by (auto simp: strict_graph_def dep_graph_def dest!: map_of_SomeD intro: rev_image_eqI)
    with V have "u \<in> V'" by auto
    with dfs_inv_closed [OF inv _ e] show "(u, w) \<in> V' \<times> V'" by blast
  qed
  then have "strict_graph ns \<inter> V' \<times> V' = strict_graph ns" by auto
  with inv show ?thesis by (simp add: dfs_inv_def)
qed

section \<open>The search returns\<close>

abbreviation keys :: "nodes \<Rightarrow> string set" where
  "keys ns \<equiv> fst ` set ns"

lemma map_of_key: "x \<in> keys ns \<Longrightarrow> \<exists>n. map_of ns x = Some n"
  by (metis map_of_eq_None_iff not_None_eq)

lemma closed_depsD:
  "closed_deps ns \<Longrightarrow> map_of ns x = Some n \<Longrightarrow> d \<in> set (n_dependents n) \<Longrightarrow> d \<in> keys ns"
  unfolding closed_deps_def by (fastforce simp: map_of_eq_None_iff dest!: map_of_SomeD)

lemma hasCycle_visited:
  "hasCycle f ns x V R = DOk V' R' \<Longrightarrow> V \<subseteq> V'"
  "hasCycle_deps f ns ds V R = DOk V' R' \<Longrightarrow> V \<subseteq> V'"
proof (induction f ns x V R and f ns ds V R arbitrary: V' R' and V' R'
    rule: hasCycle_hasCycle_deps.induct)
  case (2 f ns x V R)
  then show ?case by (fastforce split: option.splits dfs_result.splits)
next
  case (4 f ns d ds V R)
  then show ?case by (fastforce split: option.splits dfs_result.splits if_splits)
qed simp_all

text \<open>One unit of fuel per node still to visit, and one to spare, is enough; with no dangling
  dependents the search does not dereference nil either.\<close>

lemma card_unvisited_insert:
  assumes "x \<in> keys ns" and "x \<notin> V"
  shows "Suc (card (keys ns - insert x V)) = card (keys ns - V)"
proof -
  have "keys ns - insert x V = (keys ns - V) - {x}" by blast
  then show ?thesis using assms by (metis DiffI List.finite_set card_Suc_Diff1 finite_Diff finite_imageI)
qed

lemma card_unvisited_mono: "V \<subseteq> W \<Longrightarrow> card (keys ns - W) \<le> card (keys ns - V)"
  by (rule card_mono) auto

lemma hasCycle_fuel:
  "closed_deps ns \<Longrightarrow> x \<in> keys ns \<Longrightarrow> x \<notin> V \<Longrightarrow> card (keys ns - V) \<le> f
     \<Longrightarrow> hasCycle f ns x V R \<noteq> DFuel \<and> hasCycle f ns x V R \<noteq> DPanic"
  "closed_deps ns \<Longrightarrow> set ds \<subseteq> keys ns \<Longrightarrow> card (keys ns - V) \<le> f
     \<Longrightarrow> hasCycle_deps f ns ds V R \<noteq> DFuel \<and> hasCycle_deps f ns ds V R \<noteq> DPanic"
proof (induction f ns x V R and f ns ds V R rule: hasCycle_hasCycle_deps.induct)
  case (1 ns x V R)
  have "finite (keys ns - V)" by simp
  with 1 show ?case by auto
next
  case (2 f ns x V R)
  from 2(3) obtain n where n: "map_of ns x = Some n" using map_of_key by blast
  have "set (n_dependents n) \<subseteq> keys ns" using closed_depsD [OF 2(2) n] by blast
  moreover have "card (keys ns - insert x V) \<le> f"
    using card_unvisited_insert [OF 2(3,4)] 2(5) by simp
  ultimately show ?case using 2(1) [OF n 2(2)] n by (auto split: dfs_result.splits)
next
  case (3 f ns V R)
  then show ?case by simp
next
  case (4 f ns d ds V R)
  have d: "d \<in> keys ns" and ds: "set ds \<subseteq> keys ns" using 4(6) by auto
  show ?case
  proof (cases "d \<in> V")
    case False
    from 4(1) [OF False 4(5) d False 4(7)] have ok: "hasCycle f ns d V R \<noteq> DFuel" "hasCycle f ns d V R \<noteq> DPanic"
      by auto
    show ?thesis
    proof (cases "hasCycle f ns d V R")
      case (DOk W S)
      from hasCycle_visited(1) [OF DOk] have "card (keys ns - W) \<le> f"
        using card_unvisited_mono 4(7) le_trans by blast
      then show ?thesis using 4(2) [OF False DOk 4(5) ds] False DOk by simp
    qed (use ok False in auto)
  next
    case True
    obtain dn where dn: "map_of ns d = Some dn" using map_of_key [OF d] by blast
    with True 4(3) [OF _ _ dn] 4(4) 4(5,7) ds show ?thesis by simp
  qed
qed

lemma check_cycles_returns:
  assumes "closed_deps ns" and "set xs \<subseteq> keys ns" and "card (keys ns) \<le> f"
  shows "check_cycles f ns xs V R \<noteq> DFuel \<and> check_cycles f ns xs V R \<noteq> DPanic"
  using assms
proof (induction xs arbitrary: V R)
  case (Cons x xs)
  have "card (keys ns - V) \<le> f"
    using Cons.prems(3) card_mono [of "keys ns" "keys ns - V"] by auto
  then show ?case using Cons hasCycle_fuel(1) [of ns x V f R] by (auto split: dfs_result.splits)
qed simp

section \<open>A reported cycle is a cycle\<close>

lemma hasCycle_stack:
  "hasCycle f ns x V R = DOk V' R' \<Longrightarrow> R' \<subseteq> R"
  "hasCycle_deps f ns ds V R = DOk V' R' \<Longrightarrow> R' \<subseteq> R"
proof (induction f ns x V R and f ns ds V R arbitrary: V' R' and V' R'
    rule: hasCycle_hasCycle_deps.induct)
  case (2 f ns x V R)
  then show ?case by (fastforce split: option.splits dfs_result.splits)
next
  case (4 f ns d ds V R)
  then show ?case by (fastforce split: option.splits dfs_result.splits if_splits)
qed simp_all

lemma hasCycle_complete:
  "hasCycle f ns x V R = DCycle \<Longrightarrow> \<forall>r \<in> R. (r, x) \<in> (dep_graph ns)\<^sup>*
     \<Longrightarrow> \<exists>d. \<not> loop_node ns d \<and> (d, d) \<in> (dep_graph ns)\<^sup>+"
  "hasCycle_deps f ns ds V R = DCycle \<Longrightarrow> \<forall>d \<in> set ds. (y, d) \<in> dep_graph ns
     \<Longrightarrow> \<forall>r \<in> R. (r, y) \<in> (dep_graph ns)\<^sup>*
     \<Longrightarrow> \<exists>d. \<not> loop_node ns d \<and> (d, d) \<in> (dep_graph ns)\<^sup>+"
proof (induction f ns x V R and f ns ds V R arbitrary: and y rule: hasCycle_hasCycle_deps.induct)
  case (2 f ns x V R)
  from 2(2) obtain n where n: "map_of ns x = Some n"
    and c: "hasCycle_deps f ns (n_dependents n) (insert x V) (insert x R) = DCycle"
    by (auto split: option.splits dfs_result.splits)
  have "\<forall>d \<in> set (n_dependents n). (x, d) \<in> dep_graph ns" using n by (simp add: dep_graph_def)
  moreover have "\<forall>r \<in> insert x R. (r, x) \<in> (dep_graph ns)\<^sup>*" using 2(3) by blast
  ultimately show ?case using 2(1) [OF n c] by blast
next
  case (4 f ns d ds V R)
  have yd: "(y, d) \<in> dep_graph ns" and ds: "\<forall>d \<in> set ds. (y, d) \<in> dep_graph ns" using 4(6) by auto
  have Rd: "\<forall>r \<in> R. (r, d) \<in> (dep_graph ns)\<^sup>*" using 4(7) yd by (meson rtrancl.rtrancl_into_rtrancl)
  consider (new) "d \<notin> V" "hasCycle f ns d V R = DCycle"
    | (rest) W S where "d \<notin> V" "hasCycle f ns d V R = DOk W S" "hasCycle_deps f ns ds W S = DCycle"
    | (cyc) dn where "d \<in> V" "d \<in> R" "map_of ns d = Some dn" "\<not> has_loop dn"
    | (loop) dn where "d \<in> V" "d \<in> R" "map_of ns d = Some dn" "has_loop dn" "hasCycle_deps f ns ds V R = DCycle"
    | (off) "d \<in> V" "d \<notin> R" "hasCycle_deps f ns ds V R = DCycle"
    using 4(5) by (auto split: dfs_result.splits option.splits if_splits)
  then show ?case
  proof cases
    case new
    then show ?thesis using 4(1) Rd by blast
  next
    case rest
    then have "\<forall>r \<in> S. (r, y) \<in> (dep_graph ns)\<^sup>*" using hasCycle_stack(1) 4(7) by blast
    then show ?thesis using 4(2) [OF rest(1,2,3) ds] by blast
  next
    case cyc
    then have "(d, d) \<in> (dep_graph ns)\<^sup>+" using 4(7) yd by (meson rtrancl_into_trancl1)
    moreover have "\<not> loop_node ns d" using cyc by (simp add: loop_node_def)
    ultimately show ?thesis by blast
  next
    case loop
    have "\<not> d \<notin> V" using loop by simp
    then show ?thesis using 4(3) [OF _ loop(2,3,4,5) ds 4(7)] by blast
  next
    case off
    have "\<not> d \<notin> V" using off by simp
    then show ?thesis using 4(4) [OF _ off(2,3) ds 4(7)] by blast
  qed
qed simp_all

lemma check_cycles_complete:
  "check_cycles f ns xs V {} = DCycle \<Longrightarrow> \<exists>d. \<not> loop_node ns d \<and> (d, d) \<in> (dep_graph ns)\<^sup>+"
proof (induction xs arbitrary: V)
  case (Cons x xs)
  consider "x \<notin> V" "hasCycle f ns x V {} = DCycle"
    | W S where "x \<notin> V" "hasCycle f ns x V {} = DOk W S" "check_cycles f ns xs W S = DCycle"
    | "x \<in> V" "check_cycles f ns xs V {} = DCycle"
    using Cons.prems by (auto split: dfs_result.splits if_splits)
  then show ?case
  proof cases
    case 1
    then show ?thesis using hasCycle_complete(1) by blast
  next
    case (2 W S)
    then have "S = {}" using hasCycle_stack(1) by blast
    then show ?thesis using 2 Cons.IH by blast
  next
    case 3
    then show ?thesis using Cons.IH by blast
  qed
qed simp

lemma check_cycles_accepts:
  assumes "closed_deps ns" and "set xs \<subseteq> keys ns" and "card (keys ns) \<le> f" and "acyclic (dep_graph ns)"
  shows "\<exists>V' R'. check_cycles f ns xs {} {} = DOk V' R'"
proof (cases "check_cycles f ns xs {} {}")
  case DCycle
  from check_cycles_complete [OF DCycle] assms(4) show ?thesis by (auto simp: acyclic_def)
qed (use check_cycles_returns [OF assms(1-3), of "{}" "{}"] in auto)

end
