(* ===== verification/Compiler_Correct.thy ===== *)
theory Compiler_Correct
  imports Compiler_Cycles
begin

text \<open>
  Correctness of \<open>CompileWorkflowSchema\<close> (\<open>common/compiler/ir.go\<close>): the graph of the IR is the
  graph of the schema, an IR that is returned is well formed, and acyclic schemas of executable
  nodes compile.
\<close>

section \<open>Grouping the edges\<close>

lemma group_edges_spec:
  "group_edges es conds dflt = (conds', dflt') \<Longrightarrow>
     (\<forall>k. mslice conds' k = mslice conds k @ (if k = [] then [] else map e_to (filter (\<lambda>e. e_condition e = k) es)))
     \<and> dflt' = dflt @ map e_to (filter (\<lambda>e. e_condition e = []) es)
     \<and> (distinct (map fst conds) \<longrightarrow> distinct (map fst conds'))"
proof (induction es conds dflt arbitrary: conds' dflt' rule: group_edges.induct)
  case (2 e es conds dflt)
  show ?case
  proof (cases "e_condition e = []")
    case True
    then show ?thesis using 2(2) [of conds' dflt'] 2(3) by simp
  next
    case False
    then show ?thesis using 2(1) [of conds' dflt'] 2(3) by (simp add: mslice_multi_add distinct_multi_add)
  qed
qed simp

lemma createBranchConfig_fields:
  assumes "group_edges es [] [] = (conds, dflt)"
  shows "b_enabled (createBranchConfig ord w es)"
    and "map br_next_nodes (b_rules (createBranchConfig ord w es))
           = map snd (range_map ord (''conditionMap:'' @ w_id w) conds)"
    and "b_default (createBranchConfig ord w es) = dflt"
  by (simp_all add: createBranchConfig_def assms Let_def case_prod_unfold)

lemma set_branch_dependents:
  assumes ord: "perm_order ord"
  shows "set (branch_dependents (createBranchConfig ord w es)) = e_to ` set es"
proof -
  obtain conds dflt where g: "group_edges es [] [] = (conds, dflt)" by (cases "group_edges es [] []")
  from group_edges_spec [OF g]
  have sl: "\<And>k. mslice conds k = (if k = [] then [] else map e_to (filter (\<lambda>e. e_condition e = k) es))"
    and df: "dflt = map e_to (filter (\<lambda>e. e_condition e = []) es)" and dist: "distinct (map fst conds)"
    by simp_all
  have "set (branch_dependents (createBranchConfig ord w es))
      = (\<Union>(k, xs) \<in> set conds. set xs) \<union> set dflt"
    unfolding branch_dependents_def createBranchConfig_fields [OF g]
    by (simp add: set_range_map [OF ord dist] case_prod_unfold)
  also have "\<dots> = (\<Union>k. set (mslice conds k)) \<union> set dflt" by (simp add: mslice_in [OF dist])
  also have "\<dots> = e_to ` set es"
  proof (intro equalityI subsetI)
    fix t
    assume "t \<in> e_to ` set es"
    then obtain e where "e \<in> set es" "t = e_to e" by blast
    then show "t \<in> (\<Union>k. set (mslice conds k)) \<union> set dflt"
      by (cases "e_condition e = []") (auto simp: sl df intro!: exI [of _ "e_condition e"])
  qed (auto simp: sl df split: if_splits)
  finally show ?thesis .
qed

lemma edges_by_source_spec:
  "edges_by_source es ce ef = (ce', ef') \<Longrightarrow> mslice ef' k = mslice ef k @ filter (\<lambda>e. e_from e = k) es"
  by (induction es ce ef arbitrary: ce' ef' rule: edges_by_source.induct)
    (simp_all add: mslice_multi_add)

section \<open>Converted nodes\<close>

text \<open>What holds of the node map between the two passes of the compiler: no dependencies yet, and
  dependents only where a branch configuration has already taken the node's edges.\<close>

definition targets :: "wf_edge list \<Rightarrow> string \<Rightarrow> string list" where
  "targets es k = map e_to (filter (\<lambda>e. e_from e = k) es)"

definition sources :: "wf_edge list \<Rightarrow> string \<Rightarrow> string list" where
  "sources es k = map e_from (filter (\<lambda>e. e_to e = k) es)"

definition node_converted :: "wf_edge list \<Rightarrow> string \<Rightarrow> node \<Rightarrow> bool" where
  "node_converted es k n \<longleftrightarrow> n_id n = k \<and> n_dependencies n = [] \<and> \<not> n_wait_for_all n
     \<and> (case n_branch n of
          None \<Rightarrow> n_dependents n = []
        | Some b \<Rightarrow> b_enabled b \<and> set (n_dependents n) = set (targets es k) \<and> n_dependents n = branch_dependents b)"

lemma set_node_type_converted:
  assumes ord: "perm_order ord"
    and f: "from = filter (\<lambda>e. e_from e = k) es" and k: "k = w_id w"
    and n: "n_id n = k" "n_dependencies n = []" "\<not> n_wait_for_all n" "n_dependents n = []" "n_branch n = None"
    and r: "set_node_type ord w conditional from n = Inr n'"
  shows "node_converted es k n'"
proof -
  have b: "set (branch_dependents (createBranchConfig ord w from)) = set (targets es k)"
    unfolding set_branch_dependents [OF ord] by (auto simp: targets_def f)
  have e: "b_enabled (createBranchConfig ord w from)"
    by (metis createBranchConfig_fields(1) surj_pair)
  show ?thesis using r n b e
    by (auto simp: set_node_type_def node_converted_def Let_def split: if_splits sum.splits)
qed

text \<open>Storing the configuration leaves the node blank for the type switch.\<close>

lemma run_convertWorkflowNode:
  "\<exists>m s'. run_state (convertWorkflowNode ord put w ce ef) s
       = (set_node_type ord w (mslice ce (w_id w)) (mslice ef (w_id w)) m, s')
     \<and> n_id m = w_id w \<and> n_dependencies m = [] \<and> \<not> n_wait_for_all m \<and> n_dependents m = []
     \<and> n_branch m = None \<and> n_loop m = None"
proof (cases "w_config w = []")
  case True
  then show ?thesis by (auto simp: convertWorkflowNode_def new_node_def)
next
  case False
  obtain c s1 where p: "run_state (put (w_config w)) s = (c, s1)" by (cases "run_state (put (w_config w)) s")
  show ?thesis using False
    by (intro exI [of _ "(new_node (w_id w) '''')\<lparr>n_config := w_config w,
          n_config_ref := (case c of None \<Rightarrow> '''' | Some c \<Rightarrow> c)\<rparr>"] exI [of _ s1])
      (simp add: convertWorkflowNode_def p new_node_def)
qed

lemma convertWorkflowNode_converted:
  assumes ord: "perm_order ord"
    and ef: "\<And>k. mslice ef k = filter (\<lambda>e. e_from e = k) es"
    and r: "run_state (convertWorkflowNode ord put w ce ef) s = (Inr n, s')"
  shows "node_converted es (w_id w) n"
proof -
  from run_convertWorkflowNode [of ord put w ce ef s] r obtain m where
    "set_node_type ord w (mslice ce (w_id w)) (filter (\<lambda>e. e_from e = w_id w) es) m = Inr n"
    "n_id m = w_id w" "n_dependencies m = []" "\<not> n_wait_for_all m" "n_dependents m = []" "n_branch m = None"
    unfolding ef by auto
  then show ?thesis using set_node_type_converted [OF ord refl refl] by blast
qed

definition nodes_converted :: "wf_edge list \<Rightarrow> nodes \<Rightarrow> bool" where
  "nodes_converted es ns \<longleftrightarrow> distinct (map fst ns) \<and> (\<forall>k n. map_of ns k = Some n \<longrightarrow> node_converted es k n)"

lemma convert_nodes_converted:
  assumes ord: "perm_order ord"
    and ef: "\<And>k. mslice ef k = filter (\<lambda>e. e_from e = k) es"
  shows "run_state (convert_nodes ord put ce ef ws acc) s = (Inr ns, s') \<Longrightarrow> nodes_converted es acc
    \<Longrightarrow> nodes_converted es ns \<and> set (map fst ns) = set (map fst acc) \<union> w_id ` set ws"
proof (induction ws arbitrary: acc s)
  case (Cons w ws)
  from Cons.prems(1) obtain n s1 where n: "run_state (convertWorkflowNode ord put w ce ef) s = (Inr n, s1)"
    and rest: "run_state (convert_nodes ord put ce ef ws (AList.update (n_id n) n acc)) s1 = (Inr ns, s')"
    by (auto split: prod.splits sum.splits)
  have c: "node_converted es (w_id w) n" by (rule convertWorkflowNode_converted [OF ord ef n])
  then have "n_id n = w_id w" by (simp add: node_converted_def)
  moreover from this have "nodes_converted es (AList.update (n_id n) n acc)"
    using Cons.prems(2) c by (auto simp: nodes_converted_def update_conv' distinct_update)
  ultimately show ?case using Cons.IH [OF rest] by (auto simp: update_keys)
qed simp

section \<open>Edges\<close>

text \<open>The state of the node map after the edges \<open>done\<close> of the schema's edges \<open>es\<close> have been built.\<close>

definition node_linked :: "wf_edge list \<Rightarrow> wf_edge list \<Rightarrow> string \<Rightarrow> node \<Rightarrow> bool" where
  "node_linked es built k n \<longleftrightarrow> n_id n = k \<and> n_dependencies n = sources built k \<and> \<not> n_wait_for_all n
     \<and> (case n_branch n of
          None \<Rightarrow> n_dependents n = targets built k
        | Some b \<Rightarrow> b_enabled b \<and> set (n_dependents n) = set (targets es k) \<and> n_dependents n = branch_dependents b)"

definition nodes_linked :: "wf_edge list \<Rightarrow> wf_edge list \<Rightarrow> nodes \<Rightarrow> bool" where
  "nodes_linked es built ns \<longleftrightarrow> distinct (map fst ns) \<and> (\<forall>k n. map_of ns k = Some n \<longrightarrow> node_linked es built k n)"

lemma node_converted_linked: "node_converted es k n \<Longrightarrow> node_linked es [] k n"
  by (cases "n_branch n") (auto simp: node_converted_def node_linked_def sources_def targets_def)

lemma converted_linked: "nodes_converted es ns \<Longrightarrow> nodes_linked es [] ns"
  unfolding nodes_converted_def nodes_linked_def using node_converted_linked by blast

lemma sources_snoc: "sources (es @ [e]) k = sources es k @ (if e_to e = k then [e_from e] else [])"
  by (simp add: sources_def)

lemma targets_snoc: "targets (es @ [e]) k = targets es k @ (if e_from e = k then [e_to e] else [])"
  by (simp add: targets_def)

text \<open>One edge: the new map is that of the step in \<open>build_edges\<close>, whichever branch it takes.\<close>

definition link_edge :: "wf_edge \<Rightarrow> node \<Rightarrow> nodes \<Rightarrow> nodes" where
  "link_edge e fromNode ns = AList.map_entry (e_to e) (add_dependency (e_from e))
     (if n_branch fromNode = None then AList.map_entry (e_from e) (add_dependent (e_to e)) ns else ns)"

lemma build_edges_Cons:
  "build_edges (e # es) ns =
     (case map_of ns (e_from e) of
        None \<Rightarrow> Inl (''edge references non-existent node: '' @ e_from e)
      | Some f \<Rightarrow> (case map_of ns (e_to e) of
          None \<Rightarrow> Inl (''edge references non-existent node: '' @ e_to e)
        | Some t \<Rightarrow> build_edges es (link_edge e f ns)))"
  by (cases "map_of ns (e_from e)"; cases "map_of ns (e_to e)") (auto simp: link_edge_def)

lemma keys_link_edge [simp]: "map fst (link_edge e f ns) = map fst ns"
  by (simp add: link_edge_def)

lemma link_edge_linked:
  assumes inv: "nodes_linked es built ns" and f: "map_of ns (e_from e) = Some f"
  shows "nodes_linked es (built @ [e]) (link_edge e f ns)"
proof -
  have "node_linked es (built @ [e]) k n" if "map_of (link_edge e f ns) k = Some n" for k n
  proof -
    from that obtain m where m: "map_of ns k = Some m" by (auto simp: link_edge_def map_of_map_entry split: if_splits)
    with inv have lm: "node_linked es built k m" by (simp add: nodes_linked_def)
    have fm: "e_from e = k \<Longrightarrow> f = m" using f m by auto
    have "n = (if e_to e = k then add_dependency (e_from e) else id)
        ((if n_branch f = None \<and> e_from e = k then add_dependent (e_to e) else id) m)"
      using that m by (auto simp: link_edge_def map_of_map_entry split: if_splits)
    then show ?thesis using lm fm
      by (cases "e_to e = k"; cases "e_from e = k"; cases "n_branch m")
        (simp_all add: node_linked_def sources_snoc targets_snoc add_dependency_def add_dependent_def)
  qed
  then show ?thesis using inv by (simp add: nodes_linked_def)
qed

lemma build_edges_linked:
  "build_edges todo ns = Inr ns' \<Longrightarrow> nodes_linked es built ns
     \<Longrightarrow> nodes_linked es (built @ todo) ns' \<and> map fst ns' = map fst ns
         \<and> (\<forall>e \<in> set todo. e_from e \<in> keys ns \<and> e_to e \<in> keys ns)"
proof (induction todo arbitrary: ns built)
  case (Cons e todo)
  from Cons.prems(1) obtain f t where f: "map_of ns (e_from e) = Some f" and t: "map_of ns (e_to e) = Some t"
    and r: "build_edges todo (link_edge e f ns) = Inr ns'"
    unfolding build_edges_Cons by (auto split: option.splits)
  have k: "keys (link_edge e f ns) = keys ns"
    by (metis keys_link_edge list.set_map)
  from Cons.IH [OF r link_edge_linked [OF Cons.prems(2) f]]
  have "nodes_linked es (built @ e # todo) ns'" "map fst ns' = map fst ns"
    "\<forall>e \<in> set todo. e_from e \<in> keys ns \<and> e_to e \<in> keys ns" by (simp_all add: k)
  then show ?case using f t by (auto simp: map_of_eq_None_iff dest!: map_of_SomeD intro: rev_image_eqI)
qed simp

section \<open>The finished IR\<close>

lemma finish_COk:
  assumes "finish ord ver meta ns = COk i"
  shows "validate ord (ir_nodes i) = VOk \<and> ir_version i = ver \<and> ir_metadata i = meta
    \<and> ir_nodes i = computeTerminalNodes (map (\<lambda>(k, n). (k, set_wait_for_all n)) ns)"
  using assms by (auto simp: finish_def Let_def split: vresult.splits)

text \<open>What the two last passes do to one node.\<close>

definition finish_node :: "node \<Rightarrow> node" where
  "finish_node n = (set_wait_for_all n)\<lparr>n_is_terminal := isTerminal (set_wait_for_all n)\<rparr>"

lemma computeTerminalNodes_map:
  "computeTerminalNodes (map (\<lambda>(k, n). (k, set_wait_for_all n)) ns) = map (\<lambda>(k, n). (k, finish_node n)) ns"
  by (simp add: computeTerminalNodes_def finish_node_def case_prod_unfold)

lemma finish_node_fields [simp]:
  "n_id (finish_node n) = n_id n" "n_type (finish_node n) = n_type n"
  "n_dependencies (finish_node n) = n_dependencies n" "n_dependents (finish_node n) = n_dependents n"
  "n_loop (finish_node n) = n_loop n" "n_branch (finish_node n) = n_branch n"
  "n_config (finish_node n) = n_config n" "n_config_ref (finish_node n) = n_config_ref n"
  by (simp_all add: finish_node_def set_wait_for_all_def)

lemma finish_node_flags:
  "n_is_terminal (finish_node n) = isTerminal n"
  "\<not> n_wait_for_all n \<Longrightarrow> n_wait_for_all (finish_node n) = (length (n_dependencies n) > 1)"
  by (simp_all add: finish_node_def set_wait_for_all_def isTerminal_def)

lemma CompileWorkflowSchema_COk:
  assumes ord: "perm_order ord"
    and c: "run_state (CompileWorkflowSchema ord put schema) s = (COk i, s')"
  obtains ns where "nodes_linked (s_edges schema) (s_edges schema) ns"
    and "ir_nodes i = map (\<lambda>(k, n). (k, finish_node n)) ns"
    and "validate ord (ir_nodes i) = VOk" and "ir_version i = ''1.0''" and "ir_metadata i = s_metadata schema"
    and "keys ns = w_id ` set (s_nodes schema)"
    and "\<forall>e \<in> set (s_edges schema). e_from e \<in> keys ns \<and> e_to e \<in> keys ns"
proof -
  obtain ce ef where ed: "edges_by_source (s_edges schema) [] [] = (ce, ef)"
    by (cases "edges_by_source (s_edges schema) [] []")
  from c obtain ns0 ns where cn: "run_state (convert_nodes ord put ce ef (s_nodes schema) []) s = (Inr ns0, s')"
    and be: "build_edges (s_edges schema) ns0 = Inr ns"
    and fin: "finish ord ''1.0'' (s_metadata schema) ns = COk i"
    by (auto simp: CompileWorkflowSchema_def ed split: prod.splits sum.splits)
  have ef: "mslice ef k = filter (\<lambda>e. e_from e = k) (s_edges schema)" for k
    using edges_by_source_spec [OF ed, of k] by simp
  have "nodes_converted (s_edges schema) []" by (simp add: nodes_converted_def)
  from convert_nodes_converted [OF ord ef cn this]
  have n0: "nodes_linked (s_edges schema) [] ns0" "keys ns0 = w_id ` set (s_nodes schema)"
    by (auto simp: converted_linked)
  from build_edges_linked [OF be n0(1)]
  have n1: "nodes_linked (s_edges schema) (s_edges schema) ns" "map fst ns = map fst ns0"
    "\<forall>e \<in> set (s_edges schema). e_from e \<in> keys ns0 \<and> e_to e \<in> keys ns0" by simp_all
  have "keys ns = keys ns0" by (metis n1(2) list.set_map)
  with n0(2) n1 finish_COk [OF fin] that show ?thesis unfolding computeTerminalNodes_map by force
qed

section \<open>Well-formed IRs\<close>

lemma first_error_None: "first_error chk ns = None \<longleftrightarrow> (\<forall>(k, n) \<in> set ns. chk n = None)"
  by (induction chk ns rule: first_error.induct) (auto split: option.splits)

lemma first_missing_None: "first_missing ns xs = None \<longleftrightarrow> set xs \<subseteq> keys ns"
  by (induction ns xs rule: first_missing.induct) (auto simp: map_of_eq_None_iff)

lemma validate_rules_None:
  "validate_rules ns i k rs = None \<longleftrightarrow> (\<forall>r \<in> set rs. set (br_next_nodes r) \<subseteq> keys ns)"
  by (induction ns i k rs rule: validate_rules.induct) (simp_all flip: first_missing_None split: option.splits)

definition loop_ok :: "nodes \<Rightarrow> node \<Rightarrow> bool" where
  "loop_ok ns n = (case n_loop n of None \<Rightarrow> True
     | Some l \<Rightarrow> l_enabled l \<longrightarrow> 0 < l_max_iterations l \<and> l_loop_back_to l \<in> keys ns)"

definition branch_ok :: "nodes \<Rightarrow> node \<Rightarrow> bool" where
  "branch_ok ns n = (case n_branch n of None \<Rightarrow> True
     | Some b \<Rightarrow> b_enabled b \<longrightarrow> (b_rules b \<noteq> [] \<or> b_default b \<noteq> []) \<and> set (branch_dependents b) \<subseteq> keys ns)"

definition wf_ir :: "ir \<Rightarrow> bool" where
  "wf_ir i \<longleftrightarrow> distinct (map fst (ir_nodes i))
     \<and> (\<exists>(k, n) \<in> set (ir_nodes i). n_is_terminal n)
     \<and> (\<exists>(k, n) \<in> set (ir_nodes i). n_dependencies n = [])
     \<and> (\<forall>(k, n) \<in> set (ir_nodes i). n_id n = k
          \<and> set (n_dependencies n) \<subseteq> keys (ir_nodes i) \<and> set (n_dependents n) \<subseteq> keys (ir_nodes i)
          \<and> n_wait_for_all n = (length (n_dependencies n) > 1)
          \<and> n_is_terminal n = isTerminal n
          \<and> loop_ok (ir_nodes i) n \<and> branch_ok (ir_nodes i) n)"

lemma validate_loop_None: "validate_loop ns n = None \<Longrightarrow> loop_ok ns n"
  by (auto simp: validate_loop_def loop_ok_def map_of_eq_None_iff split: option.splits if_splits)

lemma validate_branch_None: "validate_branch ns n = None \<Longrightarrow> branch_ok ns n"
  by (auto simp: validate_branch_def branch_ok_def branch_dependents_def validate_rules_None first_missing_None
      split: option.splits if_splits)

lemma validate_VOk:
  assumes ok: "validate ord ns = VOk" and ord: "perm_order ord" and dist: "distinct (map fst ns)"
  shows "\<exists>(k, n) \<in> set ns. n_is_terminal n"
    and "\<exists>(k, n) \<in> set ns. n_dependencies n = []"
    and "\<forall>(k, n) \<in> set ns. loop_ok ns n"
    and "\<forall>(k, n) \<in> set ns. branch_ok ns n"
    and "\<exists>V R. check_cycles (Suc (length ns)) ns (ord ''cycles'' (map fst ns)) {} {} = DOk V R"
proof -
  have fe: "first_error (validate_loop ns) (range_map ord ''loops'' ns) = None"
    and fb: "first_error (validate_branch ns) (range_map ord ''branches'' ns) = None"
    using ok by (auto simp: validate_def Let_def split: if_splits option.splits)
  show "\<exists>(k, n) \<in> set ns. n_is_terminal n" "\<exists>(k, n) \<in> set ns. n_dependencies n = []"
    using ok by (auto simp: validate_def Let_def filter_empty_conv split: if_splits)
  show "\<forall>(k, n) \<in> set ns. loop_ok ns n"
    using fe validate_loop_None by (auto simp: first_error_None set_range_map [OF ord dist])
  show "\<forall>(k, n) \<in> set ns. branch_ok ns n"
    using fb validate_branch_None by (auto simp: first_error_None set_range_map [OF ord dist])
  show "\<exists>V R. check_cycles (Suc (length ns)) ns (ord ''cycles'' (map fst ns)) {} {} = DOk V R"
    using ok fe fb by (auto simp: validate_def Let_def split: if_splits dfs_result.splits)
qed

lemma set_map_values: "set (map (\<lambda>(k, n). (k, f n)) ns) = (\<lambda>(k, n). (k, f n)) ` set ns"
  by simp

lemma keys_finish: "keys (map (\<lambda>(k, n). (k, finish_node n)) ns) = keys ns"
  by force

text \<open>The graph of the IR, node by node, as a fact about the linked map.\<close>

lemma linked_dependents:
  assumes "node_linked es es k n"
  shows "set (n_dependents n) = set (targets es k)"
proof (cases "n_branch n")
  case None
  with assms show ?thesis by (simp add: node_linked_def)
next
  case (Some b)
  with assms show ?thesis unfolding node_linked_def Some option.case by blast
qed

lemma linked_dependencies: "node_linked es es k n \<Longrightarrow> n_dependencies n = sources es k"
  by (simp add: node_linked_def)

lemma linked_flags: "node_linked es es k n \<Longrightarrow> n_id n = k \<and> \<not> n_wait_for_all n"
  by (simp add: node_linked_def)

lemma isTerminal_finish [simp]: "isTerminal (finish_node n) = isTerminal n"
  by (simp add: isTerminal_def)

lemma set_targets: "set (targets es k) = e_to ` {e \<in> set es. e_from e = k}"
  by (simp add: targets_def)

lemma set_sources: "set (sources es k) = e_from ` {e \<in> set es. e_to e = k}"
  by (simp add: sources_def)

lemma compiled_wf:
  assumes ord: "perm_order ord"
    and c: "run_state (CompileWorkflowSchema ord put schema) s = (COk i, s')"
  shows "wf_ir i"
proof -
  obtain ns where
    l: "nodes_linked (s_edges schema) (s_edges schema) ns"
    and i: "ir_nodes i = map (\<lambda>(k, n). (k, finish_node n)) ns"
    and v: "validate ord (ir_nodes i) = VOk"
    and "ir_version i = ''1.0''" and "ir_metadata i = s_metadata schema"
    and "keys ns = w_id ` set (s_nodes schema)"
    and e: "\<forall>e \<in> set (s_edges schema). e_from e \<in> keys ns \<and> e_to e \<in> keys ns"
    by (rule CompileWorkflowSchema_COk [OF ord c])
  have dist: "distinct (map fst (ir_nodes i))" using l unfolding nodes_linked_def i keys_map_values by blast
  have linked: "node_linked (s_edges schema) (s_edges schema) k n" if "(k, n) \<in> set ns" for k n
    using l that by (simp add: nodes_linked_def)
  have node: "n_id n = k \<and> set (n_dependencies n) \<subseteq> keys (ir_nodes i) \<and> set (n_dependents n) \<subseteq> keys (ir_nodes i)
      \<and> n_wait_for_all n = (length (n_dependencies n) > 1) \<and> n_is_terminal n = isTerminal n"
    if "(k, n) \<in> set (ir_nodes i)" for k n
  proof -
    from that obtain m where m: "(k, m) \<in> set ns" "n = finish_node m" by (auto simp: i)
    note ln = linked [OF m(1)]
    have "set (n_dependents m) \<subseteq> keys ns" unfolding linked_dependents [OF ln] set_targets using e by auto
    moreover have "set (n_dependencies m) \<subseteq> keys ns" unfolding linked_dependencies [OF ln] set_sources using e by auto
    ultimately show ?thesis using linked_flags [OF ln] unfolding i m(2) keys_finish by (simp add: finish_node_flags)
  qed
  note ok = validate_VOk [OF v ord dist]
  have "\<forall>p \<in> set (ir_nodes i). case p of (k, n) \<Rightarrow> n_id n = k
      \<and> set (n_dependencies n) \<subseteq> keys (ir_nodes i) \<and> set (n_dependents n) \<subseteq> keys (ir_nodes i)
      \<and> n_wait_for_all n = (length (n_dependencies n) > 1) \<and> n_is_terminal n = isTerminal n
      \<and> loop_ok (ir_nodes i) n \<and> branch_ok (ir_nodes i) n"
  proof (rule ballI, rule case_prodI2)
    fix p k n
    assume "p \<in> set (ir_nodes i)" "p = (k, n)"
    then show "n_id n = k
      \<and> set (n_dependencies n) \<subseteq> keys (ir_nodes i) \<and> set (n_dependents n) \<subseteq> keys (ir_nodes i)
      \<and> n_wait_for_all n = (length (n_dependencies n) > 1) \<and> n_is_terminal n = isTerminal n
      \<and> loop_ok (ir_nodes i) n \<and> branch_ok (ir_nodes i) n"
      using node [of k n] bspec [OF ok(3), of p] bspec [OF ok(4), of p] by simp
  qed
  with dist ok(1,2) show ?thesis unfolding wf_ir_def by (intro conjI)
qed

section \<open>The compiled graph\<close>

definition schema_graph :: "wf_edge list \<Rightarrow> (string \<times> string) set" where
  "schema_graph es = (\<lambda>e. (e_from e, e_to e)) ` set es"

lemma linked_dep_graph:
  assumes l: "nodes_linked es es ns" and e: "\<forall>e \<in> set es. e_from e \<in> keys ns \<and> e_to e \<in> keys ns"
  shows "dep_graph (map (\<lambda>(k, n). (k, finish_node n)) ns) = schema_graph es"
proof (intro set_eqI iffI)
  fix p
  assume "p \<in> dep_graph (map (\<lambda>(k, n). (k, finish_node n)) ns)"
  then obtain u w n where "p = (u, w)" "map_of ns u = Some n" "w \<in> set (n_dependents n)"
    by (auto simp: dep_graph_def map_of_map_values)
  then show "p \<in> schema_graph es"
    using l linked_dependents [of es u n] by (auto simp: nodes_linked_def set_targets schema_graph_def)
next
  fix p
  assume "p \<in> schema_graph es"
  then obtain ed where ed: "ed \<in> set es" "p = (e_from ed, e_to ed)" by (auto simp: schema_graph_def)
  with e obtain n where n: "map_of ns (e_from ed) = Some n" using map_of_key by blast
  then have "e_to ed \<in> set (n_dependents n)"
    using l linked_dependents [of es "e_from ed" n] ed(1) by (auto simp: nodes_linked_def set_targets)
  then show "p \<in> dep_graph (map (\<lambda>(k, n). (k, finish_node n)) ns)"
    using ed n by (auto simp: dep_graph_def map_of_map_values)
qed

lemma wf_ir_closed_deps: "wf_ir i \<Longrightarrow> closed_deps (ir_nodes i)"
  unfolding wf_ir_def closed_deps_def map_of_eq_None_iff by fastforce

lemma compiled_graph:
  assumes ord: "perm_order ord"
    and c: "run_state (CompileWorkflowSchema ord put schema) s = (COk i, s')"
  shows "dep_graph (ir_nodes i) = schema_graph (s_edges schema)"
    and "acyclic (strict_graph (ir_nodes i))"
    and "keys (ir_nodes i) = w_id ` set (s_nodes schema)"
    and "map_of (ir_nodes i) k = Some n \<Longrightarrow> n_dependencies n = sources (s_edges schema) k
           \<and> set (n_dependents n) = set (targets (s_edges schema) k)"
proof -
  obtain ns where
    l: "nodes_linked (s_edges schema) (s_edges schema) ns"
    and i: "ir_nodes i = map (\<lambda>(k, n). (k, finish_node n)) ns"
    and v: "validate ord (ir_nodes i) = VOk"
    and "ir_version i = ''1.0''" and "ir_metadata i = s_metadata schema"
    and ks: "keys ns = w_id ` set (s_nodes schema)"
    and e: "\<forall>e \<in> set (s_edges schema). e_from e \<in> keys ns \<and> e_to e \<in> keys ns"
    by (rule CompileWorkflowSchema_COk [OF ord c])
  show "dep_graph (ir_nodes i) = schema_graph (s_edges schema)"
    unfolding i by (rule linked_dep_graph [OF l e])
  show "keys (ir_nodes i) = w_id ` set (s_nodes schema)" unfolding i keys_finish ks ..
  have dist: "distinct (map fst (ir_nodes i))" using l unfolding nodes_linked_def i keys_map_values by blast
  from validate_VOk(5) [OF v ord dist] obtain V R where
    ok: "check_cycles (Suc (length (ir_nodes i))) (ir_nodes i) (ord ''cycles'' (map fst (ir_nodes i))) {} {} = DOk V R"
    by blast
  have "set (ord ''cycles'' (map fst (ir_nodes i))) = keys (ir_nodes i)"
    by (simp add: perm_order_set [OF ord])
  from check_cycles_acyclic [OF ok this wf_ir_closed_deps [OF compiled_wf [OF ord c]]]
  show "acyclic (strict_graph (ir_nodes i))" .
  show "n_dependencies n = sources (s_edges schema) k \<and> set (n_dependents n) = set (targets (s_edges schema) k)"
    if kn: "map_of (ir_nodes i) k = Some n"
  proof -
    from kn obtain m where m: "map_of ns k = Some m" "n = finish_node m"
      unfolding i map_of_map_values by blast
    with l have lm: "node_linked (s_edges schema) (s_edges schema) k m" unfolding nodes_linked_def by blast
    show ?thesis using linked_dependents [OF lm] linked_dependencies [OF lm] m(2) by simp
  qed
qed

text \<open>The cycle search of \<open>validate\<close> on a linked graph neither dereferences a missing node nor runs out of fuel.\<close>

lemma validate_no_panic:
  assumes ord: "perm_order ord" and l: "nodes_linked es es ns"
    and e: "\<forall>e \<in> set es. e_from e \<in> keys ns \<and> e_to e \<in> keys ns"
  defines "ns' \<equiv> map (\<lambda>(k, n). (k, finish_node n)) ns"
  shows "validate ord ns' \<noteq> VPanic \<and> validate ord ns' \<noteq> VFuel"
proof -
  have k: "keys ns' = keys ns" unfolding ns'_def by (rule keys_finish)
  have closed: "closed_deps ns'"
    unfolding closed_deps_def
  proof (clarsimp simp: map_of_eq_None_iff k)
    fix u n d
    assume "(u, n) \<in> set ns'" and d: "d \<in> set (n_dependents n)"
    then obtain m where m: "(u, m) \<in> set ns" "n = finish_node m" by (auto simp: ns'_def)
    with l have "node_linked es es u m" by (simp add: nodes_linked_def)
    from linked_dependents [OF this] d m(2) have "d \<in> set (targets es u)" by simp
    then show "d \<in> keys ns" using e by (auto simp: set_targets)
  qed
  have "set (ord ''cycles'' (map fst ns')) = keys ns'" by (simp add: perm_order_set [OF ord])
  moreover have "card (keys ns') \<le> Suc (length ns')"
    using card_length [of "map fst ns'"] by simp
  ultimately have "check_cycles (Suc (length ns')) ns' (ord ''cycles'' (map fst ns')) {} {} \<noteq> DFuel"
    "check_cycles (Suc (length ns')) ns' (ord ''cycles'' (map fst ns')) {} {} \<noteq> DPanic"
    using check_cycles_returns [OF closed] by simp_all
  then show ?thesis by (auto simp: validate_def Let_def split: option.splits dfs_result.splits)
qed

section \<open>Acyclic schemas compile\<close>

lemma edges_by_source_conditional:
  "edges_by_source es ce ef = (ce', ef') \<Longrightarrow>
     mslice ce' k = mslice ce k @ filter (\<lambda>e. e_from e = k \<and> e_condition e \<noteq> []) es"
  by (induction es ce ef arbitrary: ce' ef' rule: edges_by_source.induct)
    (auto simp: mslice_multi_add)

text \<open>The node types that need no configuration of their own. A \<open>conditional\<close> node must have an
  edge to go to.\<close>

definition plain_node :: "wf_edge list \<Rightarrow> wf_node \<Rightarrow> bool" where
  "plain_node es w \<longleftrightarrow> isValidExecutableType (w_type w) \<or> w_type w = ''parallel''
     \<or> w_type w = ''conditional'' \<and> targets es (w_id w) \<noteq> []"

definition plain_result :: "wf_edge list \<Rightarrow> string \<Rightarrow> node \<Rightarrow> bool" where
  "plain_result es k n \<longleftrightarrow> n_loop n = None \<and> (n_branch n \<noteq> None \<longrightarrow> targets es k \<noteq> [])"

lemma set_node_type_plain:
  assumes "plain_node es w" and "n_loop n = None" and "n_branch n = None"
    and "conditional \<noteq> [] \<Longrightarrow> targets es (w_id w) \<noteq> []"
  shows "\<exists>n'. set_node_type ord w conditional from n = Inr n' \<and> plain_result es (w_id w) n' \<and> n_id n' = n_id n"
  using assms
  by (auto simp: plain_node_def plain_result_def set_node_type_def isValidExecutableType_def Let_def)

lemma convertWorkflowNode_plain:
  assumes "plain_node es w" and "\<And>k. mslice ce k = filter (\<lambda>e. e_from e = k \<and> e_condition e \<noteq> []) es"
  shows "\<exists>n s'. run_state (convertWorkflowNode ord put w ce ef) s = (Inr n, s')
           \<and> plain_result es (w_id w) n \<and> n_id n = w_id w"
proof -
  have c: "mslice ce (w_id w) \<noteq> [] \<Longrightarrow> targets es (w_id w) \<noteq> []"
    unfolding assms(2) targets_def by (metis (no_types, lifting) filter_False filter_empty_conv map_is_Nil_conv)
  from run_convertWorkflowNode [of ord put w ce ef s] obtain m s' where
    m: "run_state (convertWorkflowNode ord put w ce ef) s
      = (set_node_type ord w (mslice ce (w_id w)) (mslice ef (w_id w)) m, s')"
    "n_id m = w_id w" "n_branch m = None" "n_loop m = None" by blast
  from set_node_type_plain [OF assms(1) m(4,3) c] m(1,2) show ?thesis by fastforce
qed

lemma convert_nodes_plain:
  assumes ce: "\<And>k. mslice ce k = filter (\<lambda>e. e_from e = k \<and> e_condition e \<noteq> []) es"
  shows "\<forall>w \<in> set ws. plain_node es w \<Longrightarrow> \<forall>k n. map_of acc k = Some n \<longrightarrow> plain_result es k n
    \<Longrightarrow> \<exists>ns s'. run_state (convert_nodes ord put ce ef ws acc) s = (Inr ns, s')
          \<and> (\<forall>k n. map_of ns k = Some n \<longrightarrow> plain_result es k n)"
proof (induction ws arbitrary: acc s)
  case (Cons w ws)
  have "plain_node es w" using Cons.prems(1) by simp
  from convertWorkflowNode_plain [OF this ce, of ord put ef s] obtain n s1 where
    n: "run_state (convertWorkflowNode ord put w ce ef) s = (Inr n, s1)" "plain_result es (w_id w) n" "n_id n = w_id w"
    by blast
  have "\<forall>k m. map_of (AList.update (n_id n) n acc) k = Some m \<longrightarrow> plain_result es k m"
    using Cons.prems(2) n(2,3) by (simp add: update_conv')
  from Cons.IH [OF _ this, of s1] Cons.prems(1) n(1) show ?case by auto
qed auto

lemma link_edge_frame:
  "map_of (link_edge e f ns) k = Some n' \<Longrightarrow>
     \<exists>n. map_of ns k = Some n \<and> n_loop n' = n_loop n \<and> n_branch n' = n_branch n"
  by (auto simp: link_edge_def map_of_map_entry add_dependency_def add_dependent_def split: if_splits)

lemma build_edges_plain:
  "\<forall>e \<in> set todo. e_from e \<in> keys ns \<and> e_to e \<in> keys ns \<Longrightarrow> \<forall>k n. map_of ns k = Some n \<longrightarrow> plain_result es k n
     \<Longrightarrow> \<exists>ns'. build_edges todo ns = Inr ns' \<and> (\<forall>k n. map_of ns' k = Some n \<longrightarrow> plain_result es k n)"
proof (induction todo arbitrary: ns)
  case (Cons e todo)
  obtain f where f: "map_of ns (e_from e) = Some f" using map_of_key [of "e_from e" ns] Cons.prems(1) by auto
  obtain t where t: "map_of ns (e_to e) = Some t" using map_of_key [of "e_to e" ns] Cons.prems(1) by auto
  have k: "keys (link_edge e f ns) = keys ns" by (metis keys_link_edge list.set_map)
  have "\<forall>k n. map_of (link_edge e f ns) k = Some n \<longrightarrow> plain_result es k n"
  proof (intro allI impI)
    fix k n
    assume "map_of (link_edge e f ns) k = Some n"
    from link_edge_frame [OF this] obtain m where "map_of ns k = Some m" "n_loop n = n_loop m" "n_branch n = n_branch m"
      by blast
    with Cons.prems(2) show "plain_result es k n" unfolding plain_result_def by simp
  qed
  moreover have "\<forall>e' \<in> set todo. e_from e' \<in> keys (link_edge e f ns) \<and> e_to e' \<in> keys (link_edge e f ns)"
    unfolding k using Cons.prems(1) by simp
  ultimately show ?case unfolding build_edges_Cons f t option.case by (intro Cons.IH)
qed simp

text \<open>A finite non-empty set of nodes with acyclic edges has a sink and a source.\<close>

lemma finite_acyclic_sink:
  assumes "acyclic r" and "finite r" and "x \<in> A"
  shows "\<exists>y \<in> A. \<forall>z. (y, z) \<in> r \<longrightarrow> z \<notin> A"
proof -
  from wfE_min [OF finite_acyclic_wf_converse [OF assms(2,1)] assms(3)] obtain y where
    "y \<in> A" "\<And>z. (z, y) \<in> r\<inverse> \<Longrightarrow> z \<notin> A" by metis
  then show ?thesis by (meson converseI)
qed

lemma finite_acyclic_source:
  assumes "acyclic r" and "finite r" and "x \<in> A"
  shows "\<exists>y \<in> A. \<forall>z. (z, y) \<in> r \<longrightarrow> z \<notin> A"
proof -
  from wfE_min [OF finite_acyclic_wf [OF assms(2,1)] assms(3)] obtain y where
    "y \<in> A" "\<And>z. (z, y) \<in> r \<Longrightarrow> z \<notin> A" by metis
  then show ?thesis by meson
qed

lemma isTerminal_plain:
  assumes l: "node_linked es es k n" and p: "plain_result es k n" and t: "targets es k = []"
  shows "isTerminal n"
proof -
  have "n_branch n = None" "n_loop n = None" using p t by (auto simp: plain_result_def)
  moreover have "n_dependents n = []" using linked_dependents [OF l] t by simp
  ultimately show ?thesis by (simp add: isTerminal_def)
qed

lemma validate_branch_linked:
  assumes l: "node_linked es es k n" and p: "plain_result es k n"
    and e: "set (targets es k) \<subseteq> keys ns"
  shows "validate_branch ns n = None"
proof (cases "n_branch n")
  case None
  then show ?thesis by (simp add: validate_branch_def)
next
  case (Some b)
  have "targets es k \<noteq> []" using p Some by (simp add: plain_result_def)
  moreover have eq: "n_dependents n = branch_dependents b"
    using l unfolding node_linked_def Some option.case by blast
  ultimately have "branch_dependents b \<noteq> []" using linked_dependents [OF l] by force
  then have "\<not> (b_rules b = [] \<and> b_default b = [])" by (auto simp: branch_dependents_def)
  moreover have "set (branch_dependents b) \<subseteq> keys ns" using linked_dependents [OF l] e eq by simp
  then have "\<forall>r \<in> set (b_rules b). set (br_next_nodes r) \<subseteq> keys ns" "set (b_default b) \<subseteq> keys ns"
    by (auto simp: branch_dependents_def)
  then have "validate_rules ns (n_id n) 0 (b_rules b) = None" "first_missing ns (b_default b) = None"
    by (simp_all add: validate_rules_None first_missing_None)
  ultimately show ?thesis by (auto simp: validate_branch_def Some)
qed

lemma validate_branch_finish: "validate_branch ns (finish_node n) = validate_branch ns n"
  unfolding validate_branch_def finish_node_fields by (rule refl)

lemma finish_accepts:
  assumes ord: "perm_order ord" and l: "nodes_linked es es ns"
    and p: "\<forall>k n. map_of ns k = Some n \<longrightarrow> plain_result es k n"
    and e: "\<forall>e \<in> set es. e_from e \<in> keys ns \<and> e_to e \<in> keys ns"
    and ac: "acyclic (schema_graph es)" and ne: "ns \<noteq> []"
  shows "\<exists>i. finish ord ver meta ns = COk i"
proof -
  let ?N = "map (\<lambda>(k, n). (k, finish_node n)) ns"
  have dist: "distinct (map fst ?N)" using l unfolding nodes_linked_def keys_map_values by blast
  have node: "node_linked es es k n \<and> plain_result es k n" if "(k, n) \<in> set ns" for k n
    using l p that by (simp add: nodes_linked_def)
  have fin: "finite (schema_graph es)" by (simp add: schema_graph_def)
  from ne obtain x where x: "x \<in> keys ns" by (cases ns) auto
  have tk: "set (targets es k) \<subseteq> keys ns" for k using e by (auto simp: set_targets)
  obtain y where y: "y \<in> keys ns" "\<forall>z. (y, z) \<in> schema_graph es \<longrightarrow> z \<notin> keys ns"
    using finite_acyclic_sink [OF ac fin x] by blast
  then obtain n where n: "(y, n) \<in> set ns" by auto
  have "targets es y = []" using y(2) e by (auto simp: targets_def filter_empty_conv schema_graph_def)
  with node [OF n] isTerminal_plain [of es y n] have "n_is_terminal (finish_node n)" by (simp add: finish_node_flags)
  with n have t: "\<exists>p \<in> set ?N. n_is_terminal (snd p)" by force
  obtain z where z: "z \<in> keys ns" "\<forall>u. (u, z) \<in> schema_graph es \<longrightarrow> u \<notin> keys ns"
    using finite_acyclic_source [OF ac fin x] by blast
  then obtain m where m: "(z, m) \<in> set ns" by auto
  have "sources es z = []" using z(2) e by (auto simp: sources_def filter_empty_conv schema_graph_def)
  with node [OF m] have "n_dependencies (finish_node m) = []" using linked_dependencies by auto
  with m have en: "\<exists>p \<in> set ?N. n_dependencies (snd p) = []" by force
  have lo: "first_error (validate_loop ?N) (range_map ord ''loops'' ?N) = None"
    using node by (auto simp: first_error_None set_range_map [OF ord dist] validate_loop_def plain_result_def)
  have br: "first_error (validate_branch ?N) (range_map ord ''branches'' ?N) = None"
  proof -
    have "validate_branch ?N (finish_node n) = None" if "(k, n) \<in> set ns" for k n
      unfolding validate_branch_finish
      by (rule validate_branch_linked [of es k]) (use node [OF that] tk in \<open>simp_all add: keys_finish [simplified]\<close>)
    then show ?thesis by (auto simp: first_error_None set_range_map [OF ord dist])
  qed
  have cl: "closed_deps ?N"
    using node linked_dependents tk unfolding closed_deps_def map_of_eq_None_iff keys_finish by fastforce
  have "set (ord ''cycles'' (map fst ?N)) \<subseteq> keys ?N"
    unfolding perm_order_set [OF ord] by (simp add: image_image)
  moreover have "card (keys ?N) \<le> Suc (length ?N)"
    using card_image_le [of "set ?N" fst] card_length [of ?N] by simp
  moreover have "acyclic (dep_graph ?N)" unfolding linked_dep_graph [OF l e] by (rule ac)
  ultimately obtain V R where
    cy: "check_cycles (Suc (length ?N)) ?N (ord ''cycles'' (map fst ?N)) {} {} = DOk V R"
    using check_cycles_accepts [OF cl] by blast
  have "validate ord ?N = VOk"
    using t en lo br cy unfolding validate_def Let_def by (auto simp: filter_empty_conv case_prod_unfold)
  then show ?thesis unfolding finish_def Let_def computeTerminalNodes_map by simp
qed

section \<open>Properties of the compiler\<close>

text \<open>A concrete schema: \<open>a\<close> fans out to \<open>b\<close> and \<open>c\<close>, a conditional node chooses between \<open>d\<close> and
  \<open>e\<close>.\<close>

definition example_schema :: wf_schema where
  "example_schema =
     \<lparr>s_nodes = [\<lparr>w_id = ''a'', w_type = ''agent'', w_config = [(''task'', GStr ''x'')]\<rparr>,
                 \<lparr>w_id = ''b'', w_type = ''http'', w_config = []\<rparr>,
                 \<lparr>w_id = ''c'', w_type = ''conditional'', w_config = []\<rparr>,
                 \<lparr>w_id = ''d'', w_type = ''http'', w_config = []\<rparr>],
      s_edges = [\<lparr>e_from = ''a'', e_to = ''b'', e_condition = ''''\<rparr>,
                 \<lparr>e_from = ''a'', e_to = ''c'', e_condition = ''''\<rparr>,
                 \<lparr>e_from = ''c'', e_to = ''d'', e_condition = ''output.ok''\<rparr>],
      s_metadata = []\<rparr>"

definition is_COk :: "cresult \<Rightarrow> bool" where
  "is_COk r = (case r of COk i \<Rightarrow> True | _ \<Rightarrow> False)"

definition example_put :: "gval smap \<Rightarrow> (unit, string option) state" where
  "example_put cfg = State_Monad.return (Some ''sha256:0'')"

lemma example_is_COk:
  "is_COk (fst (run_state (CompileWorkflowSchema (\<lambda>lbl ks. rev ks) example_put example_schema) ()))"
  by code_simp

lemma example_compiles:
  obtains i s' where "run_state (CompileWorkflowSchema (\<lambda>lbl ks. rev ks) example_put example_schema) () = (COk i, s')"
  using example_is_COk
  by (cases "run_state (CompileWorkflowSchema (\<lambda>lbl ks. rev ks) example_put example_schema) ()")
    (auto simp: is_COk_def split: cresult.splits)

text \<open>C5. The dependency graph of a compiled workflow is the graph of its schema: every node's
  dependencies are the sources of the edges into it, in the order of the edge list; its
  dependents are the targets of the edges out of it (also for branch nodes, whose dependents come
  from the branch configuration); and the nodes are the schema's nodes.\<close>

theorem compile_graph:
  assumes "perm_order ord" and "run_state (CompileWorkflowSchema ord put schema) s = (COk i, s')"
  shows "keys (ir_nodes i) = w_id ` set (s_nodes schema)
    \<and> dep_graph (ir_nodes i) = schema_graph (s_edges schema)
    \<and> (\<forall>k n. map_of (ir_nodes i) k = Some n \<longrightarrow>
          n_dependencies n = sources (s_edges schema) k
          \<and> set (n_dependents n) = set (targets (s_edges schema) k))"
  using compiled_graph [OF assms] by blast

theorem compile_graph_witness:
  "\<exists>i s'. run_state (CompileWorkflowSchema (\<lambda>lbl ks. rev ks) example_put example_schema) () = (COk i, s')
     \<and> dep_graph (ir_nodes i) = {(''a'', ''b''), (''a'', ''c''), (''c'', ''d'')}"
proof -
  obtain i s' where c: "run_state (CompileWorkflowSchema (\<lambda>lbl ks. rev ks) example_put example_schema) () = (COk i, s')"
    by (rule example_compiles)
  from compile_graph [OF perm_order_rev c] have "dep_graph (ir_nodes i) = schema_graph (s_edges example_schema)" by blast
  with c show ?thesis by (auto simp: schema_graph_def example_schema_def)
qed



text \<open>C7. Every cycle of a compiled workflow enters a node with an enabled loop configuration: without
  the edges into loop nodes the dependency graph is acyclic.\<close>

theorem compile_cycles_enter_loops:
  assumes "perm_order ord" and "run_state (CompileWorkflowSchema ord put schema) s = (COk i, s')"
  shows "acyclic (strict_graph (ir_nodes i))"
  using compiled_graph(2) [OF assms] .

theorem compile_cycles_enter_loops_witness:
  "\<exists>i s'. run_state (CompileWorkflowSchema (\<lambda>lbl ks. rev ks) example_put example_schema) () = (COk i, s')
     \<and> acyclic (strict_graph (ir_nodes i))"
proof -
  obtain i s' where c: "run_state (CompileWorkflowSchema (\<lambda>lbl ks. rev ks) example_put example_schema) () = (COk i, s')"
    by (rule example_compiles)
  with compile_cycles_enter_loops [OF perm_order_rev c] show ?thesis by blast
qed

text \<open>C8. The compiler is total: for every schema, every map order and every behaviour of the content store it returns an IR
  or an error. The cycle search never dereferences a missing node and never needs more recursion than there
  are nodes.\<close>

theorem compile_total:
  assumes ord: "perm_order ord"
  shows "\<exists>r. fst (run_state (CompileWorkflowSchema ord put schema) s) = r \<and> ((\<exists>i. r = COk i) \<or> (\<exists>m. r = CErr m))"
proof -
  obtain ce ef where ed: "edges_by_source (s_edges schema) [] [] = (ce, ef)"
    by (cases "edges_by_source (s_edges schema) [] []")
  have ef: "mslice ef k = filter (\<lambda>e. e_from e = k) (s_edges schema)" for k
    using edges_by_source_spec [OF ed, of k] by simp
  have fin: "finish ord ''1.0'' (s_metadata schema) ns \<noteq> CPanic \<and> finish ord ''1.0'' (s_metadata schema) ns \<noteq> CFuel"
    if cn: "run_state (convert_nodes ord put ce ef (s_nodes schema) []) s = (Inr ns0, s')"
      and be: "build_edges (s_edges schema) ns0 = Inr ns" for ns0 s' ns
  proof -
    have "nodes_converted (s_edges schema) []" by (simp add: nodes_converted_def)
    from convert_nodes_converted [OF ord ef cn this] have "nodes_linked (s_edges schema) [] ns0"
      by (auto simp: converted_linked)
    note b = build_edges_linked [OF be this]
    then have l: "nodes_linked (s_edges schema) (s_edges schema) ns" by simp
    have "keys ns = keys ns0" using b by (metis list.set_map)
    with b have e: "\<forall>e \<in> set (s_edges schema). e_from e \<in> keys ns \<and> e_to e \<in> keys ns" by simp
    from validate_no_panic [OF ord l e] show ?thesis
      by (auto simp: finish_def Let_def computeTerminalNodes_map split: vresult.splits)
  qed
  obtain r s' where cn: "run_state (convert_nodes ord put ce ef (s_nodes schema) []) s = (r, s')"
    by (cases "run_state (convert_nodes ord put ce ef (s_nodes schema) []) s")
  have c: "fst (run_state (CompileWorkflowSchema ord put schema) s) = (case r of Inl e \<Rightarrow> CErr e
      | Inr ns0 \<Rightarrow> (case build_edges (s_edges schema) ns0 of Inl e \<Rightarrow> CErr e
        | Inr ns \<Rightarrow> finish ord ''1.0'' (s_metadata schema) ns))"
    by (simp add: CompileWorkflowSchema_def ed cn)
  show ?thesis
  proof (cases r)
    case (Inr ns0)
    show ?thesis
    proof (cases "build_edges (s_edges schema) ns0")
      case (Inr ns)
      from fin [OF _ this] cn \<open>r = Inr ns0\<close> show ?thesis
        by (cases "finish ord ''1.0'' (s_metadata schema) ns") (simp_all add: c Inr)
    qed (simp add: c Inr)
  qed (simp add: c)
qed

theorem compile_total_witness:
  "\<exists>r. fst (run_state (CompileWorkflowSchema (\<lambda>_ ks. ks) example_put example_schema) ()) = r
     \<and> ((\<exists>i. r = COk i) \<or> (\<exists>m. r = CErr m))"
  by (rule compile_total [OF perm_order_id])

text \<open>C9. Every acyclic schema is accepted: if all node types are executable or parallel (or conditional
  with an outgoing edge), all edges name nodes, and the edges have no cycle, compilation succeeds,
  whatever the map iteration order and whether or not the content store accepts the
  configurations.\<close>

theorem compile_accepts_acyclic:
  assumes ord: "perm_order ord" and ne: "s_nodes schema \<noteq> []"
    and plain: "\<forall>w \<in> set (s_nodes schema). plain_node (s_edges schema) w"
    and edges: "\<forall>e \<in> set (s_edges schema). e_from e \<in> w_id ` set (s_nodes schema) \<and> e_to e \<in> w_id ` set (s_nodes schema)"
    and ac: "acyclic (schema_graph (s_edges schema))"
  shows "\<exists>i s'. run_state (CompileWorkflowSchema ord put schema) s = (COk i, s')"
proof -
  let ?es = "s_edges schema"
  obtain ce ef where ed: "edges_by_source ?es [] [] = (ce, ef)" by (cases "edges_by_source ?es [] []")
  have ef: "mslice ef k = filter (\<lambda>e. e_from e = k) ?es" for k
    using edges_by_source_spec [OF ed, of k] by simp
  have ce: "mslice ce k = filter (\<lambda>e. e_from e = k \<and> e_condition e \<noteq> []) ?es" for k
    using edges_by_source_conditional [OF ed, of k] by simp
  obtain ns0 s' where n0: "run_state (convert_nodes ord put ce ef (s_nodes schema) []) s = (Inr ns0, s')"
    and p0: "\<forall>k n. map_of ns0 k = Some n \<longrightarrow> plain_result ?es k n"
    using convert_nodes_plain [OF ce plain, of "[]" ord put ef s] by auto
  have "nodes_converted ?es []" by (simp add: nodes_converted_def)
  from convert_nodes_converted [OF ord ef n0 this]
  have l0: "nodes_linked ?es [] ns0" and k0: "keys ns0 = w_id ` set (s_nodes schema)" by (auto simp: converted_linked)
  obtain ns where b: "build_edges ?es ns0 = Inr ns" and p: "\<forall>k n. map_of ns k = Some n \<longrightarrow> plain_result ?es k n"
    using build_edges_plain [OF _ p0, of ?es] edges unfolding k0 by blast
  from build_edges_linked [OF b l0] have l: "nodes_linked ?es ?es ns" and m: "map fst ns = map fst ns0" by simp_all
  have k: "keys ns = w_id ` set (s_nodes schema)" using k0 by (metis m list.set_map)
  then have "ns \<noteq> []" using ne by auto
  with finish_accepts [OF ord l p _ ac] edges k obtain i where "finish ord ''1.0'' (s_metadata schema) ns = COk i"
    by metis
  then show ?thesis using n0 b by (simp add: CompileWorkflowSchema_def ed)
qed

theorem compile_accepts_acyclic_witness:
  "\<exists>i s'. run_state (CompileWorkflowSchema (\<lambda>lbl ks. rev ks) example_put example_schema) () = (COk i, s')"
proof (rule compile_accepts_acyclic)
  show "\<forall>w \<in> set (s_nodes example_schema). plain_node (s_edges example_schema) w"
    by (simp add: example_schema_def plain_node_def isValidExecutableType_def targets_def)
  have "schema_graph (s_edges example_schema) \<subseteq> measure (\<lambda>x. if x = ''a'' then 0 else if x = ''d'' then 2 else 1)"
    by (auto simp: schema_graph_def example_schema_def)
  then show "acyclic (schema_graph (s_edges example_schema))"
    by (meson acyclic_subset wf_acyclic wf_measure)
qed (auto simp: example_schema_def)

text \<open>A schema whose only cycle, \<open>a\<close> to \<open>l\<close> and back, runs through the loop node \<open>l\<close>.\<close>

definition loop_schema :: wf_schema where
  "loop_schema =
     \<lparr>s_nodes = [\<lparr>w_id = ''l'', w_type = ''loop'',
                   w_config = [(''max_iterations'', GNum 3), (''loop_back_to'', GStr ''a''),
                               (''break_path'', GArr [GStr ''t''])]\<rparr>,
                 \<lparr>w_id = ''a'', w_type = ''http'', w_config = []\<rparr>,
                 \<lparr>w_id = ''t'', w_type = ''http'', w_config = []\<rparr>,
                 \<lparr>w_id = ''s'', w_type = ''http'', w_config = []\<rparr>],
      s_edges = [\<lparr>e_from = ''s'', e_to = ''a'', e_condition = ''''\<rparr>,
                 \<lparr>e_from = ''a'', e_to = ''l'', e_condition = ''''\<rparr>,
                 \<lparr>e_from = ''l'', e_to = ''a'', e_condition = ''''\<rparr>,
                 \<lparr>e_from = ''l'', e_to = ''t'', e_condition = ''''\<rparr>],
      s_metadata = []\<rparr>"

text \<open>Whether a cycle through a loop node is accepted depends on the iteration order of the Go
  map \<open>ir.Nodes\<close>: the same schema compiles when the search starts at the loop node and is
  rejected as cyclic when it starts at the entry node.\<close>

theorem compile_depends_on_map_order:
  "perm_order (\<lambda>lbl ks. ks) \<and> perm_order (\<lambda>lbl ks. rev ks)
   \<and> is_COk (fst (run_state (CompileWorkflowSchema (\<lambda>lbl ks. ks) example_put loop_schema) ()))
   \<and> fst (run_state (CompileWorkflowSchema (\<lambda>lbl ks. rev ks) example_put loop_schema) ())
       = CErr ''validation failed: workflow contains cycles without loop configuration''"
proof (intro conjI)
  show "is_COk (fst (run_state (CompileWorkflowSchema (\<lambda>lbl ks. ks) example_put loop_schema) ()))"
    by code_simp
  show "fst (run_state (CompileWorkflowSchema (\<lambda>lbl ks. rev ks) example_put loop_schema) ())
       = CErr ''validation failed: workflow contains cycles without loop configuration''"
    by code_simp
qed simp_all

end
