(* ===== verification/Run_Engine.thy ===== *)
theory Run_Engine
  imports Executor Compiler_Correct
begin

text \<open>
  A run from start to end. The executor has emitted the first tokens; workers take tokens off the task streams and signal
  completion; the coordinator takes signals off its queue and runs a handler for each, in any order. The step
  relation \<open>engine_step\<close> has these three kinds of steps; a handler runs to its end without interleaving with
  another one.

  For workflows that are forests (every node has at most one dependency) of http and hitl nodes, the theory shows a refinement: the run behaves
  like the abstract machine whose state is a set of active and a set of finished nodes; the counter is the
  number of active nodes, every execution ends after a bounded number of steps, and at the end every node
  has been executed exactly once and the run is \<open>COMPLETED\<close>, not before.

  \<open>rview\<close> is the part of the shared state these steps depend on; \<open>quiet\<close> operations leave it alone.
\<close>

section \<open>The relevant state\<close>

fun task_of :: "entry \<Rightarrow> token option" where
  "task_of (ETask t) = Some t"
| "task_of _ = None"

definition tasks_in :: "entry list \<Rightarrow> token multiset" where
  "tasks_in es = mset (List.map_filter task_of es)"

definition toks :: "world \<Rightarrow> token multiset" where
  "toks w = tasks_in (r_streams w ''wf.tasks.http'') + tasks_in (r_streams w ''wf.tasks.hitl'')"

record rview =
  vw_ir :: "rstr option"
  vw_status :: "rstr option"
  vw_counter :: int
  vw_applied :: "string set"
  vw_toks :: "token multiset"
  vw_sigs :: "completion_signal list"
  vw_tasks :: "task list"

definition view :: "string \<Rightarrow> world \<Rightarrow> rview" where
  "view run w = \<lparr>vw_ir = r_strs w (ir_key run), vw_status = r_strs w (status_key run), vw_counter = run_counter run w,
     vw_applied = applied_ops run w, vw_toks = toks w, vw_sigs = r_signals w, vw_tasks = r_spawned w\<rparr>"

definition quiet :: "string \<Rightarrow> 'a io \<Rightarrow> bool" where
  "quiet run m \<longleftrightarrow> (\<forall>w. view run (snd (run_state m w)) = view run w)"

lemma view_cong:
  "r_strs w' (ir_key run) = r_strs w (ir_key run) \<Longrightarrow> r_strs w' (status_key run) = r_strs w (status_key run) \<Longrightarrow>
   r_ints w' = r_ints w \<Longrightarrow> r_sets w' = r_sets w \<Longrightarrow> r_streams w' = r_streams w \<Longrightarrow> r_signals w' = r_signals w \<Longrightarrow>
   r_spawned w' = r_spawned w \<Longrightarrow> view run w' = view run w"
  by (simp add: view_def toks_def counter_of_def)

lemma view_upd [simp]:
  "view run (w\<lparr>r_tick := t\<rparr>) = view run w" "view run (w\<lparr>r_hash := h\<rparr>) = view run w"
  "view run (w\<lparr>r_published := p\<rparr>) = view run w" "view run (w\<lparr>r_cel_cache := c\<rparr>) = view run w"
  "view run (w\<lparr>r_loops := l\<rparr>) = view run w"
  by (rule view_cong; simp)+

lemma quiet_return [simp, intro]: "quiet run (State_Monad.return x)"
  by (simp add: quiet_def)

lemma quiet_bind [intro]: "quiet run m \<Longrightarrow> (\<And>x. quiet run (f x)) \<Longrightarrow> quiet run (State_Monad.bind m f)"
  by (simp add: quiet_def case_prod_unfold)

lemma pure_read_quiet: "pure_read m \<Longrightarrow> quiet run m"
  unfolding quiet_def pure_read_def
proof (intro allI view_cong)
  fix w
  assume "\<forall>w. core (snd (run_state m w)) = core w \<and> r_loops (snd (run_state m w)) = r_loops w"
  then have c: "core (snd (run_state m w)) = core w" by blast
  note f = core_fields [OF c]
  show "r_strs (snd (run_state m w)) (ir_key run) = r_strs w (ir_key run)"
    "r_strs (snd (run_state m w)) (status_key run) = r_strs w (status_key run)" by (simp_all add: f(1))
  show "r_ints (snd (run_state m w)) = r_ints w" "r_sets (snd (run_state m w)) = r_sets w"
    "r_streams (snd (run_state m w)) = r_streams w" "r_signals (snd (run_state m w)) = r_signals w"
    "r_spawned (snd (run_state m w)) = r_spawned w" by (rule f)+
qed

lemma quiet_now [simp, intro]: "quiet run (now f)"
  by (simp add: quiet_def)

lemma quietD: "quiet run m \<Longrightarrow> run_state m w = (x, w') \<Longrightarrow> view run w' = view run w"
  by (metis quiet_def snd_conv)

lemma quiet_StoreContext [simp, intro]: "quiet run (StoreContext e r n ref)"
  by (simp add: quiet_def StoreContext_def)

lemma quiet_Publish [simp, intro]: "quiet run (PublishWorkflowEvent e u ev)"
  by (simp add: quiet_def PublishWorkflowEvent_def redis_PublishEvent_def)


lemma quiet_store_result [simp, intro]: "quiet run (store_result e r n doc)"
  unfolding quiet_def
proof (intro allI view_cong)
  fix w
  show "r_strs (snd (run_state (store_result e r n doc) w)) (ir_key run) = r_strs w (ir_key run)"
    "r_strs (snd (run_state (store_result e r n doc) w)) (status_key run) = r_strs w (status_key run)"
    by (simp_all add: store_result_def redis_Set_def ir_key_def status_key_def)
qed (simp_all add: store_result_def redis_Set_def)

lemma quiet_record_context [simp, intro]: "quiet run (record_context e r n ref)"
  unfolding record_context_def by auto

lemma quiet_storeResult [simp, intro]: "quiet run (storeResultInCAS e s)"
  unfolding storeResultInCAS_def by (auto split: option.split)

lemma quiet_announce [simp, intro]: "quiet run (announce e s i ref c)"
  unfolding announce_def by (auto split: option.split)

lemma quiet_GetCounter [simp, intro]: "quiet run (GetCounter e r)"
  by (auto intro!: pure_read_quiet pure_read_bind simp: GetCounter_def)

lemma quiet_loadIR [simp, intro]: "quiet run (loadIR e r)"
  by (auto intro!: pure_read_quiet pure_read_bind simp: loadIR_def)

text \<open>Resolving a configuration reads only.\<close>

lemma pure_read_resolveNodeReference [simp, intro]: "pure_read (resolveNodeReference e run x)"
  unfolding resolveNodeReference_def by (auto intro!: pure_read_bind split: prod.split)

lemma pure_read_interpolate [simp, intro]: "pure_read (interpolate e num run xs r)"
  by (induction e num run xs r rule: interpolate.induct)
    (auto intro!: pure_read_bind simp: resolve_inner_def split: sum.split)

lemma pure_read_resolveString [simp, intro]: "pure_read (resolveString e num run s)"
  unfolding resolveString_def resolveInterpolation_def by (auto intro!: pure_read_bind)

lemma pure_read_resolve:
  "pure_read (resolveValue e num run v)" "pure_read (resolveMap e num run kvs)" "pure_read (resolveArray e num run vs)"
proof (induction e num run v and e num run kvs and e num run vs rule: resolveValue_resolveMap_resolveArray.induct)
  case (1 e num run v)
  then show ?case by (subst resolveValue.simps) (auto intro!: pure_read_bind split: gval.split)
next
  case (2 e num run kvs)
  then show ?case by (subst resolveMap.simps) (auto intro!: pure_read_bind split: list.split sum.split)
next
  case (3 e num run vs)
  then show ?case by (subst resolveArray.simps) (auto intro!: pure_read_bind split: list.split sum.split)
qed

lemma pure_read_resolve_keys [simp, intro]: "pure_read (resolve_keys e num run kvs)"
  by (induction e num run kvs rule: resolve_keys.induct) (auto intro!: pure_read_bind pure_read_resolve split: sum.split)

lemma pure_read_loadAndResolveConfig [simp, intro]: "pure_read (loadAndResolveConfig e run n)"
  unfolding loadAndResolveConfig_def LoadConfig_def ResolveConfig_def
  by (auto intro!: pure_read_bind split: option.split)

section \<open>What the handlers change\<close>

definition worker_node :: "node \<Rightarrow> bool" where
  "worker_node n \<longleftrightarrow> n_type n \<in> {''http'', ''hitl''} \<and> n_loop n = None \<and> n_branch n = None
     \<and> (n_config n = [] \<longrightarrow> n_config_ref n = '''')"

definition good_token :: "string \<Rightarrow> token \<Rightarrow> bool" where
  "good_token run t \<longleftrightarrow> t_run_id t = run \<and> t_id t \<noteq> ''''"

lemma tasks_in_snoc [simp]: "tasks_in (es @ [ETask t]) = add_mset t (tasks_in es)"
  by (induction es) (auto simp: tasks_in_def List.map_filter_simps split: option.split)

lemma toks_add:
  "s = ''wf.tasks.http'' \<or> s = ''wf.tasks.hitl'' \<Longrightarrow>
   toks (w\<lparr>r_tick := k, r_streams := (r_streams w)(s := r_streams w s @ [ETask t])\<rparr>) = add_mset t (toks w)"
  by (auto simp: toks_def)

lemma add_token_view:
  assumes "reliable e" and "s = ''wf.tasks.http'' \<or> s = ''wf.tasks.hitl''"
  shows "\<exists>w'. run_state (redis_AddToStream e s (ETask t)) w = (Inr (), w')
    \<and> view run w' = (view run w)\<lparr>vw_toks := add_mset t (vw_toks (view run w))\<rparr>"
  using assms toks_add [OF assms(2)] by (auto simp: run_AddToStream view_def counter_of_def)

lemma publishToken_view:
  assumes "reliable e" and "s = ''wf.tasks.http'' \<or> s = ''wf.tasks.hitl''"
  shows "\<exists>t w'. run_state (publishToken e s run f d ref cfg i) w = (Inr (), w') \<and> good_token run t \<and> t_to_node t = d
    \<and> view run w' = (view run w)\<lparr>vw_toks := add_mset t (vw_toks (view run w))\<rparr>"
proof -
  let ?t = "\<lparr>t_id = job_id run d (nano e (r_tick w)), t_run_id = run, t_from_node = f,
        t_to_node = d, t_payload_ref = ref, t_config = cfg, t_owner = ir_username i, t_metadata = token_metadata cfg i\<rparr>"
  obtain w' where w': "run_state (redis_AddToStream e s (ETask ?t)) (w\<lparr>r_tick := Suc (Suc (r_tick w))\<rparr>) = (Inr (), w')"
    "view run w' = (view run (w\<lparr>r_tick := Suc (Suc (r_tick w))\<rparr>))\<lparr>vw_toks := add_mset ?t (vw_toks (view run (w\<lparr>r_tick := Suc (Suc (r_tick w))\<rparr>)))\<rparr>"
    using add_token_view [OF assms] by blast
  have "run_state (publishToken e s run f d ref cfg i) w = (Inr (), w')"
    using w'(1) by (simp add: publishToken_def)
  moreover have "view run w' = (view run w)\<lparr>vw_toks := add_mset ?t (vw_toks (view run w))\<rparr>"
    using w'(2) unfolding view_upd .
  moreover have "good_token run ?t" "t_to_node ?t = d" by (simp_all add: good_token_def job_id_def)
  ultimately show ?thesis by blast
qed

lemma loadAndResolveConfig_some:
  assumes "n_config n \<noteq> []"
  shows "fst (run_state (loadAndResolveConfig e run n) w) \<noteq> None"
  using assms by (simp add: loadAndResolveConfig_def case_prod_unfold)

lemma processWorkerNode_view:
  assumes "reliable e" and "worker_node n"
  shows "\<exists>t w'. run_state (processWorkerNode e run f d n ref i) w = ((), w') \<and> good_token run t \<and> t_to_node t = d
    \<and> view run w' = (view run w)\<lparr>vw_toks := add_mset t (vw_toks (view run w))\<rparr>"
proof -
  obtain cfg w1 where c: "run_state (loadAndResolveConfig e run n) w = (cfg, w1)"
    by (cases "run_state (loadAndResolveConfig e run n) w")
  have v: "view run w1 = view run w" by (rule quietD [OF pure_read_quiet [OF pure_read_loadAndResolveConfig] c])
  have cfg: "\<not> (cfg = None \<and> n_config_ref n \<noteq> '''')"
    using assms(2) loadAndResolveConfig_some [of n e run w] c by (auto simp: worker_node_def)
  have st: "GetStreamForNodeType [] (n_type n) = ''wf.tasks.http'' \<or> GetStreamForNodeType [] (n_type n) = ''wf.tasks.hitl''"
    and ty: "supported_type (n_type n)"
    using assms(2) by (auto simp: worker_node_def GetStreamForNodeType_def default_stream_def supported_type_def)
  obtain t w' where "run_state (publishToken e (GetStreamForNodeType [] (n_type n)) run f d ref cfg i) w1 = (Inr (), w')"
    "good_token run t" "t_to_node t = d" "view run w' = (view run w1)\<lparr>vw_toks := add_mset t (vw_toks (view run w1))\<rparr>"
    using publishToken_view [OF assms(1) st] by blast
  then show ?thesis using c cfg ty v by (auto simp: processWorkerNode_def)
qed

lemma route_nodes_view:
  assumes "reliable e"
    and "\<forall>d \<in> set ds. \<exists>n. map_of (ir_nodes i) d = Some n \<and> worker_node n"
  shows "\<exists>T w'. run_state (route_nodes e run f ref i ds) w = (ds, w') \<and> image_mset t_to_node T = mset ds
    \<and> (\<forall>t \<in># T. good_token run t) \<and> view run w' = (view run w)\<lparr>vw_toks := T + vw_toks (view run w)\<rparr>"
  using assms(2)
proof (induction ds arbitrary: w)
  case Nil
  show ?case by (intro exI [of _ "{#}"] exI [of _ w]) simp
next
  case (Cons d ds)
  then obtain n where n: "map_of (ir_nodes i) d = Some n" "worker_node n" by auto
  then have na: "\<not> IsAbsorber n" by (simp add: worker_node_def)
  obtain t w1 where 1: "run_state (processWorkerNode e run f d n ref i) w = ((), w1)" "good_token run t" "t_to_node t = d"
    "view run w1 = (view run w)\<lparr>vw_toks := add_mset t (vw_toks (view run w))\<rparr>"
    using processWorkerNode_view [OF assms(1) n(2)] by blast
  obtain T w' where 2: "run_state (route_nodes e run f ref i ds) w1 = (ds, w')" "image_mset t_to_node T = mset ds"
    "\<forall>t \<in># T. good_token run t" "view run w' = (view run w1)\<lparr>vw_toks := T + vw_toks (view run w1)\<rparr>"
    using Cons.IH [of w1] Cons.prems by auto
  show ?case using 1 2 n(1) na by (intro exI [of _ "add_mset t T"] exI [of _ w']) auto
qed

lemma script_view:
  assumes "k \<notin> vw_applied (view run w)" and "int64_min \<le> vw_counter (view run w) + d" and "vw_counter (view run w) + d \<le> int64_max"
  shows "view run (script_step run k d w) =
    (view run w)\<lparr>vw_counter := vw_counter (view run w) + d, vw_applied := insert k (vw_applied (view run w))\<rparr>"
proof -
  have s: "r_strs (script_step run k d w) = r_strs w" "r_streams (script_step run k d w) = r_streams w"
    "r_signals (script_step run k d w) = r_signals w" "r_spawned (script_step run k d w) = r_spawned w"
    by (auto simp: script_step_def apply_delta_script_def Let_def split: option.splits)
  from script_fresh [where opKey = k and run = run and w = w and d = d] assms show ?thesis by (simp add: view_def s toks_def)
qed

lemma ApplyDelta_view:
  assumes "reliable e" and "k \<notin> vw_applied (view run w)"
    and "int64_min \<le> vw_counter (view run w) + d" and "vw_counter (view run w) + d \<le> int64_max"
  shows "\<exists>r w'. run_state (ApplyDelta e run k d) w = (Inr r, w') \<and> view run w' =
    (view run w)\<lparr>vw_counter := vw_counter (view run w) + d, vw_applied := insert k (vw_applied (view run w))\<rparr>"
proof -
  obtain r w' where a: "run_state (ApplyDelta e run k d) w = (r, w')" by (cases "run_state (ApplyDelta e run k d) w")
  have "w' = script_step run k d (w\<lparr>r_tick := Suc (r_tick w)\<rparr>)" using run_ApplyDelta [OF assms(1), of run k d w] a by simp
  then have "view run w' = (view run w)\<lparr>vw_counter := vw_counter (view run w) + d, vw_applied := insert k (vw_applied (view run w))\<rparr>"
    using script_view [of k run "w\<lparr>r_tick := Suc (r_tick w)\<rparr>" d] assms(2-4) by simp
  moreover have "\<exists>x. r = Inr x" using a assms
    by (auto simp: ApplyDelta_def apply_delta_script_def Let_def view_def counter_of_def split: option.splits if_splits)
  ultimately show ?thesis using a by blast
qed

lemma run_loadIR:
  "reliable e \<Longrightarrow> vw_ir (view run w) = Some (RIr i) \<Longrightarrow> run_state (loadIR e run) w = (Inr i, w\<lparr>r_tick := Suc (r_tick w)\<rparr>)"
  by (simp add: loadIR_def run_Get view_def)

lemma run_GetCounter:
  "reliable e \<Longrightarrow> run_state (GetCounter e run) w = (Inr (vw_counter (view run w)), w\<lparr>r_tick := Suc (r_tick w)\<rparr>)"
  by (simp add: GetCounter_def view_def counter_of_def)

lemma consume_token_view:
  assumes "reliable e" and "cs_run_id s = run" and "consume_op run (cs_node_id s) \<notin> vw_applied (view run w)"
    and "1 \<le> vw_counter (view run w)" and "vw_counter (view run w) \<le> int64_max"
  shows "\<exists>ref w'. run_state (consume_token e s i) w = (Some ref, w') \<and> view run w' =
    (view run w)\<lparr>vw_counter := vw_counter (view run w) - 1, vw_applied := insert (consume_op run (cs_node_id s)) (vw_applied (view run w))\<rparr>"
proof -
  let ?v = "(view run w)\<lparr>vw_counter := vw_counter (view run w) - 1, vw_applied := insert (consume_op run (cs_node_id s)) (vw_applied (view run w))\<rparr>"
  have "int64_min \<le> vw_counter (view run w) + - 1" "vw_counter (view run w) + - 1 \<le> int64_max"
    using assms(4,5) by (simp_all add: int64_min_def)
  from ApplyDelta_view [OF assms(1,3) this] obtain r w1 where
    a: "run_state (ApplyDelta e run (consume_op run (cs_node_id s)) (- 1)) w = (Inr r, w1)" "view run w1 = ?v"
    by auto
  define rest where "rest = do {
      k \<leftarrow> GetCounter e run;
      resultRef \<leftarrow> storeResultInCAS e s;
      announce e s i resultRef (case k of Inl _ \<Rightarrow> 0 | Inr v \<Rightarrow> v);
      State_Monad.return (Some resultRef)}"
  have q: "quiet run rest" unfolding rest_def by auto
  obtain x w' where x: "run_state rest w1 = (x, w')" by (cases "run_state rest w1")
  have "\<exists>ref. x = Some ref" using x by (auto simp: rest_def split: prod.splits)
  moreover have "run_state (consume_token e s i) w = (x, w')"
    using a(1) x by (simp add: consume_token_def Consume_def assms(2) rest_def)
  moreover have "view run w' = ?v" using quietD [OF q x] a(2) by simp
  ultimately show ?thesis by blast
qed

lemma Emit_view:
  assumes "reliable e" and "ds \<noteq> []" and "\<forall>u. emit_op run f u \<notin> vw_applied (view run w)"
    and "0 \<le> vw_counter (view run w)" and "vw_counter (view run w) + int (length ds) \<le> int64_max"
  shows "\<exists>r u w'. run_state (Emit e run f ds) w = (r, w') \<and> view run w' =
    (view run w)\<lparr>vw_counter := vw_counter (view run w) + int (length ds), vw_applied := insert (emit_op run f u) (vw_applied (view run w))\<rparr>"
proof -
  let ?w = "w\<lparr>r_tick := Suc (r_tick w)\<rparr>" and ?k = "emit_op run f (uuid e (r_tick w))"
  have "int64_min \<le> vw_counter (view run ?w) + int (length ds)" using assms(4) by (simp add: int64_min_def)
  with ApplyDelta_view [OF assms(1), of ?k run ?w "int (length ds)"] assms(3,5) obtain r w1 where
    "run_state (ApplyDelta e run ?k (int (length ds))) ?w = (Inr r, w1)"
    "view run w1 = (view run ?w)\<lparr>vw_counter := vw_counter (view run ?w) + int (length ds), vw_applied := insert ?k (vw_applied (view run ?w))\<rparr>"
    by auto
  then show ?thesis using assms(2) by (intro exI [of _ "Inr ()"] exI [of _ "uuid e (r_tick w)"] exI [of _ w1]) (simp add: Emit_def)
qed

lemma UpdateRunStatus_view:
  assumes "reliable e"
  shows "view run (snd (run_state (UpdateRunStatus e run st) w)) = (view run w)\<lparr>vw_status := Some (RText st)\<rparr>"
  using assms by (simp add: run_UpdateRunStatus view_def toks_def counter_of_def ir_key_def status_key_def status_stream_def)

lemma CheckCompletion_view:
  assumes "reliable e"
  shows "view run (snd (run_state (CheckCompletion e run) w)) =
    (if vw_counter (view run w) = 0 then (view run w)\<lparr>vw_status := Some (RText ''COMPLETED'')\<rparr> else view run w)"
proof (cases "vw_counter (view run w) = 0")
  case False
  then show ?thesis by (simp add: CheckCompletion_def run_GetCounter [OF assms])
next
  case True
  define pub where "pub = (\<lambda>x :: ir res. (case x of
             Inl _ \<Rightarrow> State_Monad.return ()
           | Inr ir \<Rightarrow> (case ir_username ir of
                None \<Rightarrow> State_Monad.return ()
              | Some username \<Rightarrow> do {
                  t \<leftarrow> now (unix e);
                  PublishWorkflowEvent e username
                    [(''type'', GStr ''workflow_completed''), (''run_id'', GStr run), (''counter'', GNum 0),
                     (''timestamp'', GNum (of_int t))]})))"
  have "quiet run (do {x \<leftarrow> loadIR e run; pub x})"
    unfolding pub_def by (rule quiet_bind) (auto split: sum.split option.split)
  then have "view run (snd (run_state (do {x \<leftarrow> loadIR e run; pub x}) (w\<lparr>r_tick := Suc (r_tick w)\<rparr>))) = view run w"
    by (simp add: quiet_def)
  moreover have "snd (run_state (CheckCompletion e run) w) =
      snd (run_state (UpdateRunStatus e run ''COMPLETED'') (snd (run_state (do {x \<leftarrow> loadIR e run; pub x}) (w\<lparr>r_tick := Suc (r_tick w)\<rparr>))))"
    using True by (simp add: CheckCompletion_def run_GetCounter [OF assms] pub_def case_prod_unfold)
  ultimately show ?thesis using True by (simp add: UpdateRunStatus_view [OF assms])
qed

lemma routeToNextNodes_view:
  assumes "reliable e" and "\<forall>d \<in> set ds. \<exists>n. map_of (ir_nodes i) d = Some n \<and> worker_node n"
    and "\<forall>u. emit_op run f u \<notin> vw_applied (view run w)"
    and "0 \<le> vw_counter (view run w)" and "vw_counter (view run w) + int (length ds) \<le> int64_max"
  shows "\<exists>T E w'. run_state (routeToNextNodes e run f ds ref i) w = ((), w') \<and> image_mset t_to_node T = mset ds
    \<and> (\<forall>t \<in># T. good_token run t) \<and> E \<subseteq> range (emit_op run f)
    \<and> view run w' = (view run w)\<lparr>vw_counter := vw_counter (view run w) + int (length ds), vw_applied := E \<union> vw_applied (view run w),
         vw_toks := T + vw_toks (view run w)\<rparr>"
proof (cases "ds = []")
  case True
  then show ?thesis by (intro exI [of _ "{#}"] exI [of _ "{}"] exI [of _ w]) (simp add: routeToNextNodes_def)
next
  case False
  obtain T w1 where 1: "run_state (route_nodes e run f ref i ds) w = (ds, w1)" "image_mset t_to_node T = mset ds"
    "\<forall>t \<in># T. good_token run t" "view run w1 = (view run w)\<lparr>vw_toks := T + vw_toks (view run w)\<rparr>"
    using route_nodes_view [OF assms(1,2)] by blast
  obtain r u w2 where 2: "run_state (Emit e run f ds) w1 = (r, w2)"
    "view run w2 = (view run w1)\<lparr>vw_counter := vw_counter (view run w1) + int (length ds), vw_applied := insert (emit_op run f u) (vw_applied (view run w1))\<rparr>"
    using Emit_view [OF assms(1) False, of run f w1] assms(3-5) 1(4) by auto
  show ?thesis using 1 2 False
    by (intro exI [of _ T] exI [of _ "{emit_op run f u}"] exI [of _ w2]) (simp add: routeToNextNodes_def)
qed

text \<open>One handler, on the relevant state: take the node's token off the counter, add one per dependent, put the dependents' tokens
  on the streams, and declare the run complete if nothing is left.\<close>

lemma handleCompletion_view:
  assumes e: "reliable e" and ir: "vw_ir (view run w) = Some (RIr i)"
    and s: "cs_run_id s = run" "cs_node_id s = n" "cs_status s = ''completed''"
    and nd: "map_of (ir_nodes i) n = Some nd" "worker_node nd" "n_is_terminal nd \<longleftrightarrow> n_dependents nd = []"
    and ds: "\<forall>d \<in> set (n_dependents nd). \<exists>m. map_of (ir_nodes i) d = Some m \<and> worker_node m"
    and ops: "consume_op run n \<notin> vw_applied (view run w)" "\<forall>u. emit_op run n u \<notin> vw_applied (view run w)"
    and c: "1 \<le> vw_counter (view run w)" "vw_counter (view run w) + int (length (n_dependents nd)) \<le> int64_max"
  shows "\<exists>T E w'. run_state (handleCompletion e base s) w = ((), w') \<and> image_mset t_to_node T = mset (n_dependents nd)
    \<and> (\<forall>t \<in># T. good_token run t) \<and> E \<subseteq> range (emit_op run n)
    \<and> view run w' = (view run w)\<lparr>
         vw_status := (if n_dependents nd = [] \<and> vw_counter (view run w) = 1 then Some (RText ''COMPLETED'') else vw_status (view run w)),
         vw_counter := vw_counter (view run w) - 1 + int (length (n_dependents nd)),
         vw_applied := E \<union> insert (consume_op run n) (vw_applied (view run w)),
         vw_toks := T + vw_toks (view run w)\<rparr>"
proof -
  let ?w0 = "w\<lparr>r_tick := Suc (r_tick w)\<rparr>" and ?ds = "n_dependents nd"
  have l0: "run_state (loadIR e run) w = (Inr i, ?w0)" by (rule run_loadIR [OF e ir])
  obtain ref w1 where 1: "run_state (consume_token e s i) ?w0 = (Some ref, w1)"
    "view run w1 = (view run w)\<lparr>vw_counter := vw_counter (view run w) - 1, vw_applied := insert (consume_op run n) (vw_applied (view run w))\<rparr>"
    using consume_token_view [OF e s(1), of ?w0 i] ops(1) c s(2) by auto
  let ?w1 = "w1\<lparr>r_tick := Suc (r_tick w1)\<rparr>"
  have l1: "run_state (loadIR e run) w1 = (Inr i, ?w1)" by (rule run_loadIR [OF e]) (simp add: 1(2) ir)
  have det: "run_state (DetermineNextNodes e run n ref nd) ?w1 = (Inr ?ds, ?w1)"
    using nd(2) by (simp add: DetermineNextNodes_def worker_node_def)
  have em: "\<forall>u. emit_op run n u \<notin> vw_applied (view run ?w1)"
    using ops(2) by (simp add: 1(2) emit_op_def consume_op_def)
  have c1: "0 \<le> vw_counter (view run ?w1)" "vw_counter (view run ?w1) + int (length ?ds) \<le> int64_max"
    using c by (simp_all add: 1(2))
  obtain T E w2 where 2: "run_state (routeToNextNodes e run n ?ds ref i) ?w1 = ((), w2)" "image_mset t_to_node T = mset ?ds"
    "\<forall>t \<in># T. good_token run t" "E \<subseteq> range (emit_op run n)"
    "view run w2 = (view run ?w1)\<lparr>vw_counter := vw_counter (view run ?w1) + int (length ?ds), vw_applied := E \<union> vw_applied (view run ?w1),
         vw_toks := T + vw_toks (view run ?w1)\<rparr>"
    using routeToNextNodes_view [OF e ds em c1, of ref] by blast
  have rc: "run_state (route_completed e s ref) w1 = (Some nd, w2)"
    using l1 det 2(1) nd(1) s by (simp add: route_completed_def)
  let ?w3 = "snd (run_state (check_terminal e s nd) w2)"
  have v3: "view run ?w3 = (if n_is_terminal nd \<and> vw_counter (view run w2) = 0
      then (view run w2)\<lparr>vw_status := Some (RText ''COMPLETED'')\<rparr> else view run w2)"
    using CheckCompletion_view [OF e] by (simp add: check_terminal_def s(1))
  have "snd (run_state (handleCompletion e base s) w) = ?w3"
    using l0 1(1) rc nd(1,2) s by (auto simp: handleCompletion_def complete_node_def worker_node_def)
  then have run: "run_state (handleCompletion e base s) w = ((), ?w3)" by (metis old.unit.exhaust prod.collapse)
  have "n_is_terminal nd \<and> vw_counter (view run w2) = 0 \<longleftrightarrow> ?ds = [] \<and> vw_counter (view run w) = 1"
    using nd(3) by (auto simp: 2(5) 1(2))
  then have "view run ?w3 = (view run w)\<lparr>
         vw_status := (if ?ds = [] \<and> vw_counter (view run w) = 1 then Some (RText ''COMPLETED'') else vw_status (view run w)),
         vw_counter := vw_counter (view run w) - 1 + int (length ?ds),
         vw_applied := E \<union> insert (consume_op run n) (vw_applied (view run w)),
         vw_toks := T + vw_toks (view run w)\<rparr>"
    unfolding v3 by (simp add: 2(5) 1(2))
  with run 2(2-4) show ?thesis by blast
qed

section \<open>Forests\<close>

definition forest_ir :: "ir \<Rightarrow> bool" where
  "forest_ir i \<longleftrightarrow> wf_ir i \<and> acyclic (dep_graph (ir_nodes i)) \<and> int (length (ir_nodes i)) < int64_max
     \<and> (\<forall>(k, n) \<in> set (ir_nodes i). worker_node n \<and> length (n_dependencies n) \<le> 1 \<and> k \<noteq> '''' \<and> CHR '':'' \<notin> set k
          \<and> distinct (n_dependents n)
          \<and> (\<forall>(m, d) \<in> set (ir_nodes i). m \<in> set (n_dependents n) \<longleftrightarrow> k \<in> set (n_dependencies d)))"

definition children :: "ir \<Rightarrow> string \<Rightarrow> string list" where
  "children i k = (case map_of (ir_nodes i) k of None \<Rightarrow> [] | Some n \<Rightarrow> n_dependents n)"

definition parents :: "ir \<Rightarrow> string \<Rightarrow> string list" where
  "parents i k = (case map_of (ir_nodes i) k of None \<Rightarrow> [] | Some n \<Rightarrow> n_dependencies n)"

lemma children_node: "map_of (ir_nodes i) k = Some n \<Longrightarrow> children i k = n_dependents n"
  by (simp add: children_def)

lemma parents_node: "map_of (ir_nodes i) k = Some n \<Longrightarrow> parents i k = n_dependencies n"
  by (simp add: parents_def)

abbreviation nodes_of :: "ir \<Rightarrow> string set" where
  "nodes_of i \<equiv> keys (ir_nodes i)"

lemma forest_node:
  assumes "forest_ir i" and "k \<in> nodes_of i"
  obtains n where "map_of (ir_nodes i) k = Some n" "worker_node n" "n_is_terminal n \<longleftrightarrow> n_dependents n = []"
    "set (n_dependents n) \<subseteq> nodes_of i" "set (n_dependencies n) \<subseteq> nodes_of i" "distinct (n_dependents n)"
    "length (n_dependencies n) \<le> 1" "k \<noteq> ''''" "CHR '':'' \<notin> set k"
proof -
  obtain n where n: "map_of (ir_nodes i) k = Some n" using assms(2) map_of_key by blast
  then have kn: "(k, n) \<in> set (ir_nodes i)" by (rule map_of_SomeD)
  have w: "worker_node n" using assms(1) kn by (auto simp: forest_ir_def)
  have "n_is_terminal n = isTerminal n" "set (n_dependents n) \<subseteq> nodes_of i" "set (n_dependencies n) \<subseteq> nodes_of i"
    using assms(1) kn unfolding forest_ir_def wf_ir_def by blast+
  moreover have "isTerminal n \<longleftrightarrow> n_dependents n = []" using w by (auto simp: isTerminal_def worker_node_def)
  ultimately show thesis using that [OF n w] assms(1) kn unfolding forest_ir_def by fastforce
qed

section \<open>The engine\<close>

inductive engine_step :: "env \<Rightarrow> string \<Rightarrow> world \<Rightarrow> world \<Rightarrow> bool" for e base where
  worker_signals: "s \<in> {''wf.tasks.http'', ''wf.tasks.hitl''} \<Longrightarrow> r_streams w s = xs @ ETask tok # ys \<Longrightarrow>
    run_state (SignalCompletion e \<lparr>co_token = Some tok, co_status = ''completed'', co_result = Some doc, co_metadata = meta\<rparr>)
      (w\<lparr>r_streams := (r_streams w)(s := xs @ ys)\<rparr>) = (Inr (), w') \<Longrightarrow> engine_step e base w w'"
| coordinator_takes: "r_signals w \<noteq> [] \<Longrightarrow> engine_step e base w (snd (run_state pop_signal w))"
| handler_runs: "r_spawned w = xs @ t # ys \<Longrightarrow>
    engine_step e base w (snd (run_state (run_task e base t) (w\<lparr>r_spawned := xs @ ys\<rparr>)))"

text \<open>The abstract machine: an active node finishes and its children become active.\<close>

inductive forest_step :: "ir \<Rightarrow> string set \<times> string set \<Rightarrow> string set \<times> string set \<Rightarrow> bool" for i where
  "n \<in> A \<Longrightarrow> forest_step i (A, D) (A - {n} \<union> set (children i n), insert n D)"

definition good_signal :: "string \<Rightarrow> completion_signal \<Rightarrow> bool" where
  "good_signal run s \<longleftrightarrow> cs_run_id s = run \<and> cs_status s = ''completed''"

fun task_node :: "task \<Rightarrow> string" where
  "task_node (THandle s) = cs_node_id s"
| "task_node (TAbsorber _ _ n _ _ _) = n"
| "task_node (TSkipped _ _ n _ _ _) = n"

fun good_task :: "string \<Rightarrow> task \<Rightarrow> bool" where
  "good_task run (THandle s) = good_signal run s"
| "good_task run _ = False"

definition active :: "rview \<Rightarrow> string multiset" where
  "active v = image_mset t_to_node (vw_toks v) + image_mset cs_node_id (mset (vw_sigs v)) + image_mset task_node (mset (vw_tasks v))"

definition node_ops :: "string \<Rightarrow> string \<Rightarrow> string set" where
  "node_ops run n = insert (consume_op run n) (range (emit_op run n))"

text \<open>The simulation relation between the relevant state and the sets of active and finished nodes.\<close>

definition sim :: "string \<Rightarrow> ir \<Rightarrow> rview \<Rightarrow> string set \<Rightarrow> string set \<Rightarrow> bool" where
  "sim run i v A D \<longleftrightarrow>
     vw_ir v = Some (RIr i) \<and> active v = mset_set A \<and> vw_counter v = int (card A)
     \<and> (\<forall>t \<in># vw_toks v. good_token run t) \<and> (\<forall>s \<in> set (vw_sigs v). good_signal run s) \<and> (\<forall>t \<in> set (vw_tasks v). good_task run t)
     \<and> vw_applied v \<subseteq> (\<Union>n \<in> D. node_ops run n) \<and> (\<forall>n \<in> D. consume_op run n \<in> vw_applied v)
     \<and> (vw_status v = Some (RText ''COMPLETED'') \<longleftrightarrow> A = {})"

definition reach :: "ir \<Rightarrow> string set \<Rightarrow> string set \<Rightarrow> bool" where
  "reach i A D \<longleftrightarrow> A \<union> D \<subseteq> nodes_of i \<and> A \<inter> D = {}
     \<and> (\<forall>k \<in> A \<union> D. set (parents i k) \<subseteq> D) \<and> (\<forall>k \<in> D. set (children i k) \<subseteq> A \<union> D)
     \<and> (\<forall>k \<in> nodes_of i. parents i k = [] \<longrightarrow> k \<in> A \<union> D)"

lemma forest_child:
  assumes "forest_ir i" and "n \<in> nodes_of i" and "m \<in> nodes_of i"
  shows "m \<in> set (children i n) \<longleftrightarrow> n \<in> set (parents i m)"
proof -
  obtain x where x: "map_of (ir_nodes i) n = Some x" using assms(2) map_of_key by blast
  obtain y where y: "map_of (ir_nodes i) m = Some y" using assms(3) map_of_key by blast
  have "(n, x) \<in> set (ir_nodes i)" "(m, y) \<in> set (ir_nodes i)" using x y by (simp_all add: map_of_SomeD)
  then show ?thesis using assms(1) unfolding forest_ir_def children_node [OF x] parents_node [OF y] by fastforce
qed

lemma reach_step:
  assumes f: "forest_ir i" and r: "reach i A D" and n: "n \<in> A"
  shows "set (children i n) \<inter> (A \<union> D) = {}" and "reach i (A - {n} \<union> set (children i n)) (insert n D)"
proof -
  have nn: "n \<in> nodes_of i" using r n by (auto simp: reach_def)
  then obtain x where x: "map_of (ir_nodes i) n = Some x" "set (n_dependents x) \<subseteq> nodes_of i"
    using forest_node [OF f] by metis
  have nD: "n \<notin> D" using r n by (auto simp: reach_def)
  have ch: "set (children i n) \<subseteq> nodes_of i" using x(2) children_node [OF x(1)] by simp
  show dis: "set (children i n) \<inter> (A \<union> D) = {}"
  proof (rule ccontr)
    assume "\<not> ?thesis"
    then obtain m where m: "m \<in> set (children i n)" "m \<in> A \<union> D" by blast
    then have "n \<in> set (parents i m)" using forest_child [OF f nn, of m] ch by blast
    then show False using r m(2) nD unfolding reach_def by blast
  qed
  have par: "set (parents i m) \<subseteq> insert n D" if "m \<in> set (children i n)" for m
  proof -
    have m: "m \<in> nodes_of i" using ch that by blast
    have "n \<in> set (parents i m)" using forest_child [OF f nn m] that by blast
    moreover obtain y where y: "map_of (ir_nodes i) m = Some y" "length (n_dependencies y) \<le> 1" using forest_node [OF f m] by metis
    ultimately show ?thesis by (cases "n_dependencies y") (auto simp: parents_node [OF y(1)] le_Suc_eq)
  qed
  show "reach i (A - {n} \<union> set (children i n)) (insert n D)"
    unfolding reach_def
  proof (intro conjI ballI impI)
    show "A - {n} \<union> set (children i n) \<union> insert n D \<subseteq> nodes_of i" using r n ch by (auto simp: reach_def)
    show "(A - {n} \<union> set (children i n)) \<inter> insert n D = {}" using r n dis by (auto simp: reach_def)
    show "set (parents i k) \<subseteq> insert n D" if "k \<in> A - {n} \<union> set (children i n) \<union> insert n D" for k
      using that r n par [of k] unfolding reach_def by blast
    show "set (children i k) \<subseteq> A - {n} \<union> set (children i n) \<union> insert n D" if "k \<in> insert n D" for k
      using that r unfolding reach_def by blast
    show "k \<in> A - {n} \<union> set (children i n) \<union> insert n D" if "k \<in> nodes_of i" "parents i k = []" for k
      using that r unfolding reach_def by blast
  qed
qed

text \<open>Nothing active: everything is finished.\<close>

lemma reach_all:
  assumes f: "forest_ir i" and r: "reach i {} D"
  shows "D = nodes_of i"
proof -
  have "wf ((dep_graph (ir_nodes i)))"
  proof (rule finite_acyclic_wf)
    have "dep_graph (ir_nodes i) \<subseteq> (\<Union>(k, n) \<in> set (ir_nodes i). {k} \<times> set (n_dependents n))"
      by (force simp: dep_graph_def dest: map_of_SomeD)
    moreover have "finite (\<Union>(k, n) \<in> set (ir_nodes i). {k} \<times> set (n_dependents n))" by auto
    ultimately show "finite (dep_graph (ir_nodes i))" by (rule finite_subset)
    show "acyclic (dep_graph (ir_nodes i))" using f by (simp add: forest_ir_def)
  qed
  then have "k \<in> nodes_of i \<longrightarrow> k \<in> D" for k
  proof (induction k rule: wf_induct_rule)
    case (less k)
    show ?case
    proof
      assume k: "k \<in> nodes_of i"
      then obtain n where n: "map_of (ir_nodes i) k = Some n" "set (n_dependencies n) \<subseteq> nodes_of i"
        using forest_node [OF f] by metis
      show "k \<in> D"
      proof (cases "n_dependencies n")
        case Nil
        then have "parents i k = []" by (simp add: parents_node [OF n(1)])
        then show ?thesis using r k unfolding reach_def by blast
      next
        case (Cons p ps)
        then have p: "p \<in> nodes_of i" "p \<in> set (parents i k)" using n by (auto simp: parents_node [OF n(1)])
        then have c: "k \<in> set (children i p)" using forest_child [OF f p(1) k] by simp
        then have "(p, k) \<in> dep_graph (ir_nodes i)" 
          by (cases "map_of (ir_nodes i) p") (auto simp: dep_graph_def children_def)
        with less p(1) have "p \<in> D" by blast
        then show ?thesis using r c unfolding reach_def by blast
      qed
    qed
  qed
  then show ?thesis using r by (auto simp: reach_def)
qed

section \<open>Simulation\<close>

lemma op_keys:
  "consume_op run n = consume_op run m \<longleftrightarrow> n = m" "consume_op run n \<noteq> emit_op run m u"
  by (simp_all add: consume_op_def emit_op_def)

lemma emit_op_node:
  assumes "emit_op run n u = emit_op run m v" and "CHR '':'' \<notin> set n" and "CHR '':'' \<notin> set m"
  shows "n = m"
proof -
  have "n @ CHR '':'' # u = m @ CHR '':'' # v" using assms(1) by (simp add: emit_op_def)
  then have "split_on (CHR '':'') (n @ CHR '':'' # u) = split_on (CHR '':'') (m @ CHR '':'' # v)" by simp
  then show ?thesis unfolding split_on_append [OF assms(2)] split_on_append [OF assms(3)] by simp
qed

lemma node_ops_disjoint:
  assumes "forest_ir i" and "D \<subseteq> nodes_of i" and "n \<in> nodes_of i" and "n \<notin> D"
  shows "node_ops run n \<inter> (\<Union>m \<in> D. node_ops run m) = {}"
proof -
  have c: "CHR '':'' \<notin> set k" if "k \<in> nodes_of i" for k using forest_node [OF assms(1) that] by metis
  have "node_ops run n \<inter> node_ops run m = {}" if "m \<in> D" for m
  proof -
    have nm: "n \<noteq> m" and m: "m \<in> nodes_of i" using that assms(2,4) by auto
    have "emit_op run n u \<noteq> emit_op run m v" for u v using emit_op_node c [OF assms(3)] c [OF m] nm by blast
    then show ?thesis using nm by (auto simp: node_ops_def op_keys dest: sym)
  qed
  then show ?thesis by blast
qed

lemma reach_finite: "reach i A D \<Longrightarrow> finite A"
  unfolding reach_def by (meson Un_subset_iff finite_imageI finite_set finite_subset)

lemma active_nodes: "sim run i v A D \<Longrightarrow> finite A \<Longrightarrow> n \<in># active v \<longleftrightarrow> n \<in> A"
  by (simp add: sim_def)

text \<open>Tokens, signals and handlers still to be processed, weighted by the steps each still takes.\<close>

definition weight :: "rview \<Rightarrow> nat" where
  "weight v = 3 * size (vw_toks v) + 2 * length (vw_sigs v) + length (vw_tasks v)"

text \<open>Handling the completion of node \<open>n\<close>, taken out of the spawned handlers, is a step of the abstract machine.\<close>

lemma sim_handle:
  assumes e: "reliable e" and f: "forest_ir i" and r: "reach i A D" and sim: "sim run i (view run w) A D"
    and sp: "r_spawned w = xs @ THandle s # ys" and n: "cs_node_id s = n"
  shows "n \<in> A \<and> sim run i (view run (snd (run_state (run_task e base (THandle s)) (w\<lparr>r_spawned := xs @ ys\<rparr>))))
    (A - {n} \<union> set (children i n)) (insert n D)
    \<and> weight (view run (snd (run_state (run_task e base (THandle s)) (w\<lparr>r_spawned := xs @ ys\<rparr>))))
      = weight (view run w) + 3 * length (children i n) - 1"
proof -
  let ?w = "w\<lparr>r_spawned := xs @ ys\<rparr>"
  let ?v = "view run w"
  have v0: "view run ?w = ?v\<lparr>vw_tasks := xs @ ys\<rparr>" by (simp add: view_def toks_def counter_of_def)
  have tasks: "vw_tasks ?v = xs @ THandle s # ys" using sp by (simp add: view_def)
  have gs: "good_signal run s" using sim tasks by (auto simp: sim_def)
  have finA: "finite A" by (rule reach_finite [OF r])
  have "n \<in># active ?v" using tasks n by (simp add: active_def)
  with active_nodes [OF sim finA] have nA: "n \<in> A" by blast
  have nn: "n \<in> nodes_of i" and nD: "n \<notin> D" and D: "D \<subseteq> nodes_of i" using r nA by (auto simp: reach_def)
  obtain nd where nd: "map_of (ir_nodes i) n = Some nd" "worker_node nd" "n_is_terminal nd \<longleftrightarrow> n_dependents nd = []"
    "set (n_dependents nd) \<subseteq> nodes_of i" "distinct (n_dependents nd)"
    using forest_node [OF f nn] by metis
  have ch: "children i n = n_dependents nd" by (rule children_node [OF nd(1)])
  have ds: "\<forall>d \<in> set (n_dependents nd). \<exists>m. map_of (ir_nodes i) d = Some m \<and> worker_node m"
    using nd(4) forest_node [OF f] by (metis subsetD)
  have ap: "node_ops run n \<inter> vw_applied ?v = {}"
    using node_ops_disjoint [OF f D nn nD, of run] sim by (auto simp: sim_def)
  note dis = reach_step(1) [OF f r nA]
  have cA: "1 \<le> card A" using nA finA by (metis One_nat_def Suc_leI card_gt_0_iff empty_iff)
  have "card (A \<union> set (n_dependents nd)) = card A + card (set (n_dependents nd))"
    using dis finA by (intro card_Un_disjoint) (auto simp: ch)
  moreover have "A \<union> set (n_dependents nd) \<subseteq> nodes_of i" using r nd(4) by (auto simp: reach_def)
  then have "card (A \<union> set (n_dependents nd)) \<le> card (nodes_of i)" by (intro card_mono) auto
  moreover have "card (nodes_of i) \<le> length (ir_nodes i)" using card_length [of "map fst (ir_nodes i)"] by simp
  moreover have "int (length (ir_nodes i)) < int64_max" using f by (simp add: forest_ir_def)
  ultimately have bound: "int (card A) + int (length (n_dependents nd)) \<le> int64_max"
    using distinct_card [OF nd(5)] by simp
  have pre: "vw_ir (view run ?w) = Some (RIr i)" "cs_run_id s = run" "cs_status s = ''completed''"
    "consume_op run n \<notin> vw_applied (view run ?w)" "\<forall>u. emit_op run n u \<notin> vw_applied (view run ?w)"
    "1 \<le> vw_counter (view run ?w)" "vw_counter (view run ?w) + int (length (n_dependents nd)) \<le> int64_max"
    using sim gs ap cA bound by (auto simp: v0 sim_def good_signal_def node_ops_def)
  obtain T E w' where h: "run_state (handleCompletion e base s) ?w = ((), w')" "image_mset t_to_node T = mset (n_dependents nd)"
    "\<forall>t \<in># T. good_token run t" "E \<subseteq> range (emit_op run n)"
    "view run w' = (view run ?w)\<lparr>
         vw_status := (if n_dependents nd = [] \<and> vw_counter (view run ?w) = 1 then Some (RText ''COMPLETED'') else vw_status (view run ?w)),
         vw_counter := vw_counter (view run ?w) - 1 + int (length (n_dependents nd)),
         vw_applied := E \<union> insert (consume_op run n) (vw_applied (view run ?w)),
         vw_toks := T + vw_toks (view run ?w)\<rparr>"
    using handleCompletion_view [OF e pre(1,2) n pre(3) nd(1-3) ds pre(4-7)] by blast
  have act: "active (view run w') = mset_set (A - {n} \<union> set (children i n))"
  proof -
    have "active ?v = add_mset n (active (?v\<lparr>vw_tasks := xs @ ys\<rparr>))" using tasks n by (simp add: active_def)
    moreover have "active ?v = mset_set A" using sim by (simp add: sim_def)
    ultimately have "active (?v\<lparr>vw_tasks := xs @ ys\<rparr>) = mset_set A - {#n#}" by (metis add_mset_remove_trivial)
    then have 1: "active (?v\<lparr>vw_tasks := xs @ ys\<rparr>) = mset_set (A - {n})" using nA finA by (simp add: mset_set_Diff)
    have "active (view run w') = mset (n_dependents nd) + active (?v\<lparr>vw_tasks := xs @ ys\<rparr>)"
      by (simp add: h(5) v0 active_def flip: h(2))
    also have "mset (n_dependents nd) = mset_set (set (children i n))" using nd(5) ch by (simp add: mset_set_set)
    finally show ?thesis using 1 dis finA by (subst mset_set_Union) (auto simp: add.commute)
  qed
  have cnt: "vw_counter (view run w') = int (card (A - {n} \<union> set (children i n)))"
  proof -
    have "card (A - {n} \<union> set (children i n)) = card (A - {n}) + card (set (children i n))"
      using dis finA by (intro card_Un_disjoint) auto
    moreover have "card (set (children i n)) = length (n_dependents nd)" using distinct_card [OF nd(5)] ch by simp
    ultimately show ?thesis using sim nA finA cA by (simp add: h(5) v0 sim_def card_Diff_singleton of_nat_diff)
  qed
  have st: "vw_status (view run w') = Some (RText ''COMPLETED'') \<longleftrightarrow> A - {n} \<union> set (children i n) = {}"
  proof -
    have "vw_counter ?v = 1 \<longleftrightarrow> A = {n}" using sim nA finA by (auto simp: sim_def card_1_singleton_iff)
    moreover have "vw_status ?v \<noteq> Some (RText ''COMPLETED'')" using sim nA by (auto simp: sim_def)
    ultimately show ?thesis using nA by (auto simp: h(5) v0 ch)
  qed
  have "sim run i (view run w') (A - {n} \<union> set (children i n)) (insert n D)"
    using sim act cnt st h(3,4) tasks unfolding sim_def by (auto simp: h(5) v0 node_ops_def)
  moreover have "size T = length (n_dependents nd)" using h(2) by (metis size_image_mset size_mset)
  then have "weight (view run w') = weight ?v + 3 * length (children i n) - 1"
    using tasks by (simp add: weight_def h(5) v0 ch)
  ultimately show ?thesis using nA h(1) by (simp add: run_task_def)
qed

text \<open>The two other kinds of steps move a node's work along without changing which nodes are active.\<close>

lemma tasks_in_middle: "tasks_in (xs @ ETask t # ys) = add_mset t (tasks_in (xs @ ys))"
  by (induction xs) (auto simp: tasks_in_def List.map_filter_simps split: option.split)

lemma toks_remove:
  assumes "s \<in> {''wf.tasks.http'', ''wf.tasks.hitl''}" and "r_streams w s = xs @ ETask t # ys"
  shows "toks w = add_mset t (toks (w\<lparr>r_streams := (r_streams w)(s := xs @ ys)\<rparr>))"
  using assms by (auto simp: toks_def tasks_in_middle)

lemma run_SignalCompletion:
  assumes "run_state (SignalCompletion e \<lparr>co_token = Some tok, co_status = ''completed'', co_result = Some doc, co_metadata = meta\<rparr>) w = (Inr (), w')"
  shows "\<exists>sig. cs_run_id sig = t_run_id tok \<and> cs_node_id sig = t_to_node tok \<and> cs_status sig = ''completed''
    \<and> view run w' = (view run w)\<lparr>vw_sigs := vw_sigs (view run w) @ [sig]\<rparr>"
proof -
  let ?o = "\<lparr>co_token = Some tok, co_status = ''completed'', co_result = Some doc, co_metadata = meta\<rparr>"
  have "w' = w\<lparr>r_tick := Suc (r_tick w), r_signals := r_signals w @ [completion_of tok ?o]\<rparr>"
    using assms by (auto simp: SignalCompletion_def split: option.splits if_splits)
  then show ?thesis
    by (intro exI [of _ "completion_of tok ?o"]) (simp add: completion_of_def view_def toks_def counter_of_def)
qed

lemma sim_work:
  assumes sim: "sim run i (view run w) A D" and s: "s \<in> {''wf.tasks.http'', ''wf.tasks.hitl''}"
    and st: "r_streams w s = xs @ ETask tok # ys"
    and sig: "run_state (SignalCompletion e \<lparr>co_token = Some tok, co_status = ''completed'', co_result = Some doc, co_metadata = meta\<rparr>)
      (w\<lparr>r_streams := (r_streams w)(s := xs @ ys)\<rparr>) = (Inr (), w')"
  shows "sim run i (view run w') A D \<and> weight (view run w') < weight (view run w)"
proof -
  let ?w = "w\<lparr>r_streams := (r_streams w)(s := xs @ ys)\<rparr>"
  have t: "vw_toks (view run w) = add_mset tok (vw_toks (view run ?w))"
    using toks_remove [OF s st] by (simp add: view_def)
  have v: "view run ?w = (view run w)\<lparr>vw_toks := vw_toks (view run ?w)\<rparr>" by (simp add: view_def counter_of_def)
  obtain sg where g: "cs_run_id sg = t_run_id tok" "cs_node_id sg = t_to_node tok" "cs_status sg = ''completed''"
    "view run w' = (view run ?w)\<lparr>vw_sigs := vw_sigs (view run ?w) @ [sg]\<rparr>"
    using run_SignalCompletion [OF sig] by blast
  have sigs: "vw_sigs (view run ?w) = vw_sigs (view run w)" by (simp add: view_def)
  have w': "view run w' = (view run w)\<lparr>vw_toks := vw_toks (view run ?w), vw_sigs := vw_sigs (view run w) @ [sg]\<rparr>"
    unfolding g(4) sigs by (subst v) simp
  have act: "active (view run w') = active (view run w)" by (simp add: w' active_def t g(2))
  have "good_token run tok" using sim t by (simp add: sim_def)
  then have "good_signal run sg" using g by (simp add: good_signal_def good_token_def)
  then show ?thesis using sim act t by (auto simp: sim_def w' weight_def)
qed

lemma sim_take:
  assumes sim: "sim run i (view run w) A D" and ne: "r_signals w \<noteq> []"
  shows "sim run i (view run (snd (run_state pop_signal w))) A D
    \<and> weight (view run (snd (run_state pop_signal w))) < weight (view run w)"
proof -
  obtain s ss where s: "r_signals w = s # ss" using ne by (cases "r_signals w") auto
  have v: "view run (snd (run_state pop_signal w)) = (view run w)\<lparr>vw_sigs := ss, vw_tasks := vw_tasks (view run w) @ [THandle s]\<rparr>"
    by (simp add: pop_signal_def s view_def toks_def counter_of_def)
  have sg: "vw_sigs (view run w) = s # ss" by (simp add: view_def s)
  have "active (view run (snd (run_state pop_signal w))) = active (view run w)" by (simp add: v active_def sg)
  moreover have "\<forall>x \<in> set ss. good_signal run x" "good_signal run s" using sim sg by (simp_all add: sim_def)
  ultimately have "sim run i (view run (snd (run_state pop_signal w))) A D"
    using sim unfolding sim_def by (simp add: v)
  then show ?thesis using sg by (simp add: v weight_def)
qed

text \<open>All steps together: the state stays related, the abstract machine does nothing or one step, and the work left decreases.\<close>

definition waiting :: "ir \<Rightarrow> string set \<Rightarrow> string set \<Rightarrow> nat" where
  "waiting i A D = card (nodes_of i - (A \<union> D))"

definition work_left :: "ir \<Rightarrow> rview \<Rightarrow> string set \<Rightarrow> string set \<Rightarrow> nat" where
  "work_left i v A D = 4 * waiting i A D + weight v"

lemma waiting_step:
  assumes f: "forest_ir i" and r: "reach i A D" and n: "n \<in> A"
  shows "waiting i A D = waiting i (A - {n} \<union> set (children i n)) (insert n D) + length (children i n)"
proof -
  have ch: "set (children i n) \<subseteq> nodes_of i - (A \<union> D)"
  proof -
    have "A - {n} \<union> set (children i n) \<union> insert n D \<subseteq> nodes_of i" using reach_step(2) [OF f r n] by (simp add: reach_def)
    then show ?thesis using reach_step(1) [OF f r n] by blast
  qed
  have nn: "n \<in> nodes_of i" using r n by (auto simp: reach_def)
  have "distinct (children i n)" using forest_node [OF f nn] children_node by metis
  then have "card (set (children i n)) = length (children i n)" by (rule distinct_card)
  moreover have "nodes_of i - (A - {n} \<union> set (children i n) \<union> insert n D) = nodes_of i - (A \<union> D) - set (children i n)"
    using n by blast
  moreover have "card (nodes_of i - (A \<union> D) - set (children i n)) = card (nodes_of i - (A \<union> D)) - card (set (children i n))"
    using ch by (intro card_Diff_subset) auto
  moreover have "card (set (children i n)) \<le> card (nodes_of i - (A \<union> D))" using ch by (intro card_mono) auto
  ultimately show ?thesis by (simp add: waiting_def)
qed

lemma engine_simulation:
  assumes e: "reliable e" and f: "forest_ir i" and r: "reach i A D" and sim: "sim run i (view run w) A D"
    and step: "engine_step e base w w'"
  shows "\<exists>A' D'. reach i A' D' \<and> sim run i (view run w') A' D' \<and> work_left i (view run w') A' D' < work_left i (view run w) A D
    \<and> (A' = A \<and> D' = D \<or> forest_step i (A, D) (A', D'))"
  using step
proof cases
  case (worker_signals s xs tok ys doc meta)
  from sim_work [OF sim this] show ?thesis using r by (intro exI [of _ A] exI [of _ D]) (simp add: work_left_def)
next
  case coordinator_takes
  from sim_take [OF sim this(2)] show ?thesis using r coordinator_takes(1)
    by (intro exI [of _ A] exI [of _ D]) (simp add: work_left_def)
next
  case (handler_runs xs t ys)
  have "good_task run t" using sim handler_runs(2) by (simp add: sim_def view_def)
  then obtain s where s: "t = THandle s" by (cases t) auto
  let ?n = "cs_node_id s"
  note h = sim_handle [OF e f r sim handler_runs(2) [unfolded s] refl, of base]
  have n: "?n \<in> A" using h by blast
  have "0 < weight (view run w)" using handler_runs(2) by (simp add: weight_def view_def)
  moreover note waiting_step [OF f r n]
  ultimately have "work_left i (view run w') (A - {?n} \<union> set (children i ?n)) (insert ?n D) < work_left i (view run w) A D"
    using h handler_runs(1) s by (simp add: work_left_def)
  then show ?thesis using h reach_step(2) [OF f r n] forest_step.intros [OF n] handler_runs(1) s by blast
qed

section \<open>The start of a run\<close>

text \<open>A system in which nothing is under way and the run has not been heard of.\<close>

definition fresh_run :: "string \<Rightarrow> world \<Rightarrow> bool" where
  "fresh_run run w \<longleftrightarrow> toks w = {#} \<and> r_signals w = [] \<and> r_spawned w = [] \<and> applied_ops run w = {}
     \<and> r_strs w (status_key run) \<noteq> Some (RText ''COMPLETED'')"

lemma with_owner_nodes [simp]: "ir_nodes (with_owner rq i) = ir_nodes i"
  by (simp add: with_owner_def)

lemma forest_with_owner [simp]: "forest_ir (with_owner rq i) = forest_ir i"
  by (simp add: forest_ir_def wf_ir_def)

lemma emit_initial_view:
  assumes e: "reliable e" "\<forall>t. uuid e t \<noteq> ''''"
    and "\<forall>k \<in> set ks. \<exists>n. map_of (ir_nodes i) k = Some n \<and> worker_node n"
  shows "\<exists>T w'. run_state (emit_initial e rq i ks) w = (Inr (), w') \<and> image_mset t_to_node T = mset ks
    \<and> (\<forall>t \<in># T. good_token (rq_run_id rq) t)
    \<and> view (rq_run_id rq) w' = (view (rq_run_id rq) w)\<lparr>vw_toks := T + vw_toks (view (rq_run_id rq) w)\<rparr>"
  using assms(3)
proof (induction ks arbitrary: w)
  case Nil
  show ?case by (intro exI [of _ "{#}"] exI [of _ w]) simp
next
  case (Cons k ks)
  let ?run = "rq_run_id rq"
  obtain n where n: "map_of (ir_nodes i) k = Some n" "worker_node n" using Cons.prems by auto
  obtain cfg w1 where c: "run_state (entry_config e n) w = (cfg, w1)" by (cases "run_state (entry_config e n) w")
  have "pure_read (entry_config e n)" by (auto simp: entry_config_def LoadConfig_def intro!: pure_read_bind)
  then have v1: "view ?run w1 = view ?run w" using quietD [OF pure_read_quiet c] by blast
  have st: "executor_stream (n_type n) = ''wf.tasks.http'' \<or> executor_stream (n_type n) = ''wf.tasks.hitl''"
    using n(2) by (auto simp: worker_node_def executor_stream_def)
  let ?t = "\<lparr>t_id = take 12 (uuid e (r_tick w1)), t_run_id = ?run, t_from_node = '''', t_to_node = k, t_payload_ref = '''',
               t_config = None, t_owner = None, t_metadata = entry_metadata cfg (rq_inputs rq)\<rparr>"
  obtain w2 where 2: "run_state (redis_AddToStream e (executor_stream (n_type n)) (ETask ?t)) (w1\<lparr>r_tick := Suc (r_tick w1)\<rparr>) = (Inr (), w2)"
    "view ?run w2 = (view ?run w)\<lparr>vw_toks := add_mset ?t (vw_toks (view ?run w))\<rparr>"
    using add_token_view [OF e(1) st, of ?t "w1\<lparr>r_tick := Suc (r_tick w1)\<rparr>" ?run] by (auto simp: v1)
  obtain T w' where 3: "run_state (emit_initial e rq i ks) w2 = (Inr (), w')" "image_mset t_to_node T = mset ks"
    "\<forall>t \<in># T. good_token ?run t" "view ?run w' = (view ?run w2)\<lparr>vw_toks := T + vw_toks (view ?run w2)\<rparr>"
    using Cons.IH [of w2] Cons.prems by auto
  have g: "good_token ?run ?t" using e(2) by (simp add: good_token_def)
  have "run_state (emit_initial e rq i (k # ks)) w = (Inr (), w')"
    using c 2(1) 3(1) n(1) by simp
  then show ?case using 2(2) 3(2-4) g by (intro exI [of _ "add_mset ?t T"] exI [of _ w']) simp
qed

lemma entry_nodes:
  assumes "perm_order (mord e)" and "forest_ir i"
  shows "set (findEntryNodes e i) = {k \<in> nodes_of i. parents i k = []}" and "distinct (findEntryNodes e i)"
    and "findEntryNodes e i \<noteq> []"
proof -
  have d: "distinct (map fst (ir_nodes i))" using assms(2) by (simp add: forest_ir_def wf_ir_def)
  have s: "set (range_map (mord e) ''entry'' (ir_nodes i)) = set (ir_nodes i)" by (rule set_range_map [OF assms(1) d])
  have p: "parents i k = n_dependencies n" if "(k, n) \<in> set (ir_nodes i)" for k n
    by (rule parents_node [OF map_of_is_SomeI [OF d that]])
  show "set (findEntryNodes e i) = {k \<in> nodes_of i. parents i k = []}"
  proof (intro set_eqI iffI)
    fix k
    assume "k \<in> set (findEntryNodes e i)"
    then obtain n where "(k, n) \<in> set (ir_nodes i)" "n_dependencies n = []" by (auto simp: findEntryNodes_def s)
    with p show "k \<in> {k \<in> nodes_of i. parents i k = []}" by force
  next
    fix k
    assume "k \<in> {k \<in> nodes_of i. parents i k = []}"
    then obtain n where "(k, n) \<in> set (ir_nodes i)" "parents i k = []" by auto
    with p [of k n] show "k \<in> set (findEntryNodes e i)" by (force simp: findEntryNodes_def s)
  qed
  show "distinct (findEntryNodes e i)" unfolding findEntryNodes_def
    by (intro distinct_map_filter distinct_range_map assms(1) d)
  have "\<exists>(k, n) \<in> set (ir_nodes i). n_dependencies n = []" using assms(2) by (simp add: forest_ir_def wf_ir_def)
  then show "findEntryNodes e i \<noteq> []" by (auto simp: findEntryNodes_def s filter_empty_conv)
qed

lemma start_sim:
  assumes e: "reliable e" "\<forall>t. uuid e t \<noteq> ''''" "perm_order (mord e)" and f: "forest_ir i"
    and w0: "fresh_run (rq_run_id rq) w0" and start: "run_state (start_compiled e rq i) w0 = (r, w)"
  defines "E \<equiv> {k \<in> nodes_of i. parents i k = []}"
  shows "r = Inr () \<and> sim (rq_run_id rq) (with_owner rq i) (view (rq_run_id rq) w) E {} \<and> reach (with_owner rq i) E {}
    \<and> work_left (with_owner rq i) (view (rq_run_id rq) w) E {} \<le> 4 * card (nodes_of i)"
proof -
  let ?run = "rq_run_id rq" and ?i = "with_owner rq i"
  let ?en = "findEntryNodes e ?i"
  note en = entry_nodes [OF e(3), of ?i, unfolded forest_with_owner, OF f]
  have E: "set ?en = E" using en(1) by (simp add: E_def parents_def)
  let ?w1 = "w0\<lparr>r_tick := Suc (r_tick w0), r_strs := (r_strs w0)(ir_key ?run := Some (RIr ?i))\<rparr>"
  let ?w2 = "?w1\<lparr>r_tick := Suc (Suc (r_tick w0)), r_ints := (r_ints w0)(counter_key ?run := Some (int (length ?en)))\<rparr>"
  have v2: "view ?run ?w2 = (view ?run w0)\<lparr>vw_ir := Some (RIr ?i), vw_counter := int (length ?en)\<rparr>"
    by (simp add: view_def toks_def counter_of_def ir_key_def status_key_def)
  have ks: "\<forall>k \<in> set ?en. \<exists>n. map_of (ir_nodes ?i) k = Some n \<and> worker_node n"
    unfolding E using forest_node [OF f] by (auto simp: E_def) (metis imageI fst_conv)
  obtain T w3 where 3: "run_state (emit_initial e rq ?i ?en) ?w2 = (Inr (), w3)" "image_mset t_to_node T = mset ?en"
    "\<forall>t \<in># T. good_token ?run t" "view ?run w3 = (view ?run ?w2)\<lparr>vw_toks := T + vw_toks (view ?run ?w2)\<rparr>"
    using emit_initial_view [OF e(1,2) ks] by blast
  define fin where "fin = do {
      t \<leftarrow> now (unix e);
      PublishWorkflowEvent e (rq_username rq)
        [(''type'', GStr ''workflow_started''), (''run_id'', GStr ?run), (''tag'', GStr (rq_tag rq)),
         (''nodes'', GNum (of_nat (length (ir_nodes ?i)))), (''entry_nodes'', GNum (of_nat (length ?en))),
         (''timestamp'', GNum (of_int t))];
      State_Monad.return (Inr () :: unit res)}"
  have q: "quiet ?run fin" unfolding fin_def by (intro quiet_bind) auto
  have "run_state (start_compiled e rq i) w0 = run_state fin w3"
    using en(3) 3(1) e(1) by (simp add: start_compiled_def Let_def run_Set InitializeCounter_def fin_def)
  then have rw: "run_state fin w3 = (r, w)" using start by simp
  have r: "r = Inr ()" using rw by (auto simp: fin_def split: prod.splits)
  have v: "view ?run w = (view ?run w0)\<lparr>vw_ir := Some (RIr ?i), vw_counter := int (length ?en), vw_toks := T\<rparr>"
  proof -
    have "vw_toks (view ?run w0) = {#}" using w0 by (simp add: view_def fresh_run_def)
    then show ?thesis unfolding quietD [OF q rw] 3(4) v2 by simp
  qed
  have f0: "vw_sigs (view ?run w0) = []" "vw_tasks (view ?run w0) = []" "vw_applied (view ?run w0) = {}"
    "vw_status (view ?run w0) \<noteq> Some (RText ''COMPLETED'')"
    using w0 by (simp_all add: view_def fresh_run_def)
  have act: "active (view ?run w) = mset_set E"
    using en(2) by (simp add: active_def v 3(2) f0 mset_set_set flip: E)
  have cE: "length ?en = card E" using distinct_card [OF en(2)] E by simp
  have ne: "E \<noteq> {}" using en(3) E by (metis set_empty)
  have sim: "sim ?run ?i (view ?run w) E {}"
    using act 3(3) cE ne f0 by (simp add: sim_def v)
  have reach: "reach ?i E {}" by (auto simp: reach_def E_def parents_def)
  have fin: "finite E" unfolding E_def by auto
  have "size T = card E" using 3(2) cE by (metis size_image_mset size_mset)
  then have "weight (view ?run w) = 3 * card E" by (simp add: weight_def v f0)
  moreover have "card (nodes_of i) = card (nodes_of i - E) + card E"
    using card_Diff_subset [OF fin, of "nodes_of i"] card_mono [of "nodes_of i" E] by (auto simp: E_def)
  ultimately have "work_left ?i (view ?run w) E {} \<le> 4 * card (nodes_of i)" by (simp add: work_left_def waiting_def)
  with r sim reach show ?thesis by blast
qed

section \<open>Executions\<close>

lemma engine_run:
  assumes e: "reliable e" and f: "forest_ir i" and r: "reach i A0 D0" and sim: "sim run i (view run w0) A0 D0"
    and steps: "(engine_step e base ^^ n) w0 w"
  shows "\<exists>A D. reach i A D \<and> sim run i (view run w) A D \<and> work_left i (view run w) A D + n \<le> work_left i (view run w0) A0 D0
    \<and> (forest_step i)\<^sup>*\<^sup>* (A0, D0) (A, D)"
  using steps
proof (induction n arbitrary: w)
  case 0
  then show ?case using r sim by auto
next
  case (Suc n)
  then obtain v where v: "(engine_step e base ^^ n) w0 v" "engine_step e base v w" by auto
  obtain A D where 1: "reach i A D" "sim run i (view run v) A D"
    "work_left i (view run v) A D + n \<le> work_left i (view run w0) A0 D0" "(forest_step i)\<^sup>*\<^sup>* (A0, D0) (A, D)"
    using Suc.IH [OF v(1)] by blast
  obtain A' D' where 2: "reach i A' D'" "sim run i (view run w) A' D'" "work_left i (view run w) A' D' < work_left i (view run v) A D"
    "A' = A \<and> D' = D \<or> forest_step i (A, D) (A', D')"
    using engine_simulation [OF e f 1(1,2) v(2)] by blast
  have "(forest_step i)\<^sup>*\<^sup>* (A0, D0) (A', D')" using 1(4) 2(4) by (auto intro: rtranclp.rtrancl_into_rtrancl)
  with 1(3) 2(1-3) show ?case by (intro exI [of _ A'] exI [of _ D']) auto
qed

lemma token_in_stream:
  assumes "toks w \<noteq> {#}"
  obtains s xs t ys where "s \<in> {''wf.tasks.http'', ''wf.tasks.hitl''}" "r_streams w s = xs @ ETask t # ys" "t \<in># toks w"
proof -
  have *: "\<exists>xs ys. es = xs @ ETask t # ys" if "t \<in># tasks_in es" for t es
  proof -
    have "ETask t \<in> set es" using that
      by (induction es) (auto simp: tasks_in_def List.map_filter_simps elim: task_of.elims split: option.splits)
    then show ?thesis by (meson split_list)
  qed
  obtain t where "t \<in># toks w" using assms by (meson multiset_nonemptyE)
  moreover from this consider "t \<in># tasks_in (r_streams w ''wf.tasks.http'')" | "t \<in># tasks_in (r_streams w ''wf.tasks.hitl'')"
    by (auto simp: toks_def)
  ultimately obtain s xs ys where "s \<in> {''wf.tasks.http'', ''wf.tasks.hitl''}" "r_streams w s = xs @ ETask t # ys" "t \<in># toks w"
    using * by cases (metis insertCI)+
  then show ?thesis by (rule that)
qed

lemma engine_progress:
  assumes e: "reliable e" and f: "forest_ir i" and r: "reach i A D" and sim: "sim run i (view run w) A D"
    and ne: "A \<noteq> {}" "run \<noteq> ''''"
  shows "\<exists>w'. engine_step e base w w'"
proof -
  have fin: "finite A" by (rule reach_finite [OF r])
  have "active (view run w) \<noteq> {#}" using sim ne(1) fin by (simp add: sim_def mset_set_empty_iff)
  then consider "toks w \<noteq> {#}" | "r_signals w \<noteq> []" | "r_spawned w \<noteq> []" by (auto simp: active_def view_def)
  then show ?thesis
  proof cases
    case 1
    then obtain s xs t ys where t: "s \<in> {''wf.tasks.http'', ''wf.tasks.hitl''}" "r_streams w s = xs @ ETask t # ys" "t \<in># toks w"
      using token_in_stream by blast
    have g: "good_token run t" using sim t(3) by (simp add: sim_def view_def)
    have "t_to_node t \<in># active (view run w)" using t(3) by (simp add: active_def view_def)
    then have "t_to_node t \<in> nodes_of i" using active_nodes [OF sim fin] r by (auto simp: reach_def)
    then have "t_to_node t \<noteq> ''''" using forest_node [OF f] by metis
    with g e ne(2) have "\<exists>w'. run_state (SignalCompletion e \<lparr>co_token = Some t, co_status = ''completed'', co_result = Some [], co_metadata = None\<rparr>)
        (w\<lparr>r_streams := (r_streams w)(s := xs @ ys)\<rparr>) = (Inr (), w')"
      by (simp add: SignalCompletion_def validate_opts_def good_token_def)
    with engine_step.worker_signals [OF t(1,2)] show ?thesis by blast
  next
    case 2
    then show ?thesis by (blast intro: engine_step.coordinator_takes)
  next
    case 3
    then obtain t ys where "r_spawned w = [] @ t # ys" by (cases "r_spawned w") auto
    then show ?thesis by (blast intro: engine_step.handler_runs)
  qed
qed

lemma engine_reaches_end:
  assumes e: "reliable e" and f: "forest_ir i" and r: "reach i A D" and sim: "sim run i (view run w) A D"
  shows "\<exists>n w'. (engine_step e base ^^ n) w w' \<and> \<not> (\<exists>w''. engine_step e base w' w'')"
proof (rule ccontr)
  assume "\<not> ?thesis"
  then have ext: "(engine_step e base ^^ n) w v \<Longrightarrow> \<exists>v'. engine_step e base v v'" for n v by blast
  have "\<exists>v. (engine_step e base ^^ n) w v" for n
  proof (induction n)
    case (Suc n)
    then obtain v where "(engine_step e base ^^ n) w v" by blast
    moreover from ext [OF this] obtain v' where "engine_step e base v v'" by blast
    ultimately show ?case by auto
  qed auto
  then obtain v where "(engine_step e base ^^ Suc (work_left i (view run w) A D)) w v" by blast
  from engine_run [OF e f r sim this] show False by auto
qed

text \<open>What the run's properties assume of the environment, the request and the compiled workflow.\<close>

definition run_ok :: "env \<Rightarrow> run_request \<Rightarrow> ir \<Rightarrow> world \<Rightarrow> bool" where
  "run_ok e rq i w \<longleftrightarrow> reliable e \<and> (\<forall>t. uuid e t \<noteq> '''') \<and> perm_order (mord e) \<and> rq_run_id rq \<noteq> '''' \<and> forest_ir i
     \<and> fresh_run (rq_run_id rq) w"

lemma run_execution:
  assumes "run_ok e rq i w0" and "run_state (start_compiled e rq i) w0 = (r, w1)" and "(engine_step e base ^^ n) w1 w"
  shows "\<exists>A D. reach (with_owner rq i) A D \<and> sim (rq_run_id rq) (with_owner rq i) (view (rq_run_id rq) w) A D
    \<and> n \<le> 4 * card (nodes_of i) \<and> (forest_step (with_owner rq i))\<^sup>*\<^sup>* ({k \<in> nodes_of i. parents i k = []}, {}) (A, D)"
proof -
  have ok: "reliable e" "\<forall>t. uuid e t \<noteq> ''''" "perm_order (mord e)" "forest_ir i" "fresh_run (rq_run_id rq) w0"
    using assms(1) by (auto simp: run_ok_def)
  note s = start_sim [OF ok assms(2)]
  have f: "forest_ir (with_owner rq i)" using ok(4) by simp
  from engine_run [OF ok(1) f _ _ assms(3)] s show ?thesis by (meson add_leE le_trans)
qed

lemma run_reachable:
  assumes "run_ok e rq i w0" and "run_state (start_compiled e rq i) w0 = (r, w1)" and "(engine_step e base)\<^sup>*\<^sup>* w1 w"
  shows "\<exists>A D. reach (with_owner rq i) A D \<and> sim (rq_run_id rq) (with_owner rq i) (view (rq_run_id rq) w) A D
    \<and> (forest_step (with_owner rq i))\<^sup>*\<^sup>* ({k \<in> nodes_of i. parents i k = []}, {}) (A, D)"
  using run_execution [OF assms(1,2)] rtranclp_imp_relpowp [OF assms(3)] by blast

text \<open>What a related state says about the run: it is complete exactly when nothing is under way, and then every node
  has been consumed.\<close>

lemma sim_ended:
  assumes f: "forest_ir i" and r: "reach i A D" and sim: "sim run i (view run w) A D"
  shows "r_strs w (status_key run) = Some (RText ''COMPLETED'') \<longleftrightarrow> toks w = {#} \<and> r_signals w = [] \<and> r_spawned w = []"
    and "r_strs w (status_key run) = Some (RText ''COMPLETED'') \<Longrightarrow> (\<forall>k \<in> nodes_of i. consume_op run k \<in> applied_ops run w)"
    and "run_counter run w = int (size (toks w) + length (r_signals w) + length (r_spawned w))"
proof -
  have fin: "finite A" by (rule reach_finite [OF r])
  have act: "active (view run w) = mset_set A" and st: "vw_status (view run w) = Some (RText ''COMPLETED'') \<longleftrightarrow> A = {}"
    and c: "vw_counter (view run w) = int (card A)" and D: "\<forall>n \<in> D. consume_op run n \<in> applied_ops run w"
    using sim by (auto simp: sim_def view_def)
  have "A = {} \<longleftrightarrow> toks w = {#} \<and> r_signals w = [] \<and> r_spawned w = []"
  proof -
    have "A = {} \<longleftrightarrow> active (view run w) = {#}" unfolding act using fin by (simp add: mset_set_empty_iff)
    then show ?thesis by (simp add: active_def view_def)
  qed
  then show "r_strs w (status_key run) = Some (RText ''COMPLETED'') \<longleftrightarrow> toks w = {#} \<and> r_signals w = [] \<and> r_spawned w = []"
    using st by (simp add: view_def)
  show "\<forall>k \<in> nodes_of i. consume_op run k \<in> applied_ops run w" if "r_strs w (status_key run) = Some (RText ''COMPLETED'')"
    using that st D reach_all [OF f] r by (auto simp: view_def)
  have "size (active (view run w)) = card A" using act by simp
  then show "run_counter run w = int (size (toks w) + length (r_signals w) + length (r_spawned w))"
    using c by (simp add: active_def view_def)
qed

section \<open>A small run\<close>

text \<open>Two http nodes, one after the other, and a request to run them.\<close>

definition small_ir :: ir where
  "small_ir =
     (let n = \<lparr>n_id = ''a'', n_type = ''http'', n_config_ref = '''', n_config = [(''url'', GStr ''u'')], n_dependencies = [],
        n_dependents = [''b''], n_wait_for_all = False, n_is_terminal = False, n_loop = None, n_branch = None\<rparr>
      in \<lparr>ir_version = ''1.0'', ir_nodes = [(''a'', n),
            (''b'', n\<lparr>n_id := ''b'', n_dependencies := [''a''], n_dependents := [], n_is_terminal := True\<rparr>)], ir_metadata = []\<rparr>)"

definition small_request :: run_request where
  "small_request = \<lparr>rq_run_id = ''r1'', rq_artifact_id = ''art'', rq_tag = ''main'', rq_username = ''alice'', rq_inputs = []\<rparr>"

lemma small_request_id [simp]: "rq_run_id small_request = ''r1''"
  by (simp add: small_request_def)

lemma small_graph: "dep_graph (ir_nodes small_ir) = {(''a'', ''b'')}"
  by (auto simp: dep_graph_def small_ir_def Let_def split: if_splits)

lemma small_forest: "forest_ir small_ir"
proof -
  have "acyclic {(''a'', ''b'')}" by (simp add: acyclic_insert wf_acyclic)
  then show ?thesis unfolding forest_ir_def small_graph
    by (simp add: small_ir_def Let_def wf_ir_def isTerminal_def loop_ok_def branch_ok_def worker_node_def int64_max_def)
qed

lemma small_run_ok: "run_ok calm_env small_request small_ir empty_world"
proof -
  have "show_nat t \<noteq> ''''" for t by (subst show_nat.simps) simp
  moreover have "fresh_run ''r1'' empty_world" by (simp add: fresh_run_def empty_world_def toks_def tasks_in_def List.map_filter_simps)
  ultimately show ?thesis using small_forest
    by (simp add: run_ok_def small_request_def calm_env_def perm_order_def reliable_def)
qed

definition small_started :: world where
  "small_started = snd (run_state (start_compiled calm_env small_request small_ir) empty_world)"

lemma small_starts: "\<exists>r. run_state (start_compiled calm_env small_request small_ir) empty_world = (r, small_started)"
  by (metis small_started_def prod.collapse)

end
