(* ===== verification/Security.thy ===== *)
theory Security
  imports Prelude "HOL-Library.Word"
begin

text \<open>
  The URL checks of the http worker, \<open>cmd/http-worker/security\<close>: protocol, host and addresses, path and query values.

  A Go \<open>net.IP\<close> is a slice of 4 or 16 bytes, or nil; its predicates (\<open>IsLoopback\<close>, \<open>IsPrivate\<close>, ...) are the
  standard library's. The URL parser, the name lookup and the text of an address are fields of the parameter \<open>net\<close>: the first and the last belong to
  the standard library, the lookup asks the network. Strings are byte strings; \<open>ToLower\<close> is exact on ASCII.
\<close>

unbundle bit_operations_syntax

section \<open>Addresses\<close>

type_synonym bytes = "8 word list"

definition v4_in_v6 :: bytes where
  "v4_in_v6 = replicate 10 0 @ [0xFF, 0xFF]"

text \<open>\<open>To4\<close>: the four bytes of an IPv4 address, also when it is written as a 16-byte address.\<close>

definition To4 :: "bytes \<Rightarrow> bytes option" where
  "To4 ip =
     (if length ip = 4 then Some ip
      else if length ip = 16 \<and> take 12 ip = v4_in_v6 then Some (drop 12 ip)
      else None)"

definition ip_Equal :: "bytes \<Rightarrow> bytes \<Rightarrow> bool" where
  "ip_Equal ip x =
     (if length ip = length x then ip = x
      else if length ip = 4 \<and> length x = 16 then take 12 x = v4_in_v6 \<and> ip = drop 12 x
      else if length ip = 16 \<and> length x = 4 then take 12 ip = v4_in_v6 \<and> drop 12 ip = x
      else False)"

definition IPv6loopback :: bytes where "IPv6loopback = replicate 15 0 @ [1]"
definition IPv6unspecified :: bytes where "IPv6unspecified = replicate 16 0"
definition IPv4zero :: bytes where "IPv4zero = v4_in_v6 @ [0, 0, 0, 0]"

definition IsLoopback :: "bytes \<Rightarrow> bool" where
  "IsLoopback ip = (case To4 ip of Some ip4 \<Rightarrow> ip4 ! 0 = 127 | None \<Rightarrow> ip_Equal ip IPv6loopback)"

definition IsPrivate :: "bytes \<Rightarrow> bool" where
  "IsPrivate ip =
     (case To4 ip of
        Some ip4 \<Rightarrow> ip4 ! 0 = 10 \<or> (ip4 ! 0 = 172 \<and> ip4 ! 1 AND 0xF0 = 16) \<or> (ip4 ! 0 = 192 \<and> ip4 ! 1 = 168)
      | None \<Rightarrow> length ip = 16 \<and> ip ! 0 AND 0xFE = 0xFC)"

definition IsLinkLocalUnicast :: "bytes \<Rightarrow> bool" where
  "IsLinkLocalUnicast ip =
     (case To4 ip of
        Some ip4 \<Rightarrow> ip4 ! 0 = 169 \<and> ip4 ! 1 = 254
      | None \<Rightarrow> length ip = 16 \<and> ip ! 0 = 0xFE \<and> ip ! 1 AND 0xC0 = 0x80)"

definition IsMulticast :: "bytes \<Rightarrow> bool" where
  "IsMulticast ip =
     (case To4 ip of Some ip4 \<Rightarrow> ip4 ! 0 AND 0xF0 = 0xE0 | None \<Rightarrow> length ip = 16 \<and> ip ! 0 = 0xFF)"

definition IsUnspecified :: "bytes \<Rightarrow> bool" where
  "IsUnspecified ip \<longleftrightarrow> ip_Equal ip IPv4zero \<or> ip_Equal ip IPv6unspecified"

record parsed_url =
  u_scheme :: string
  u_hostname :: string
  u_path :: string
  u_query :: "string list smap"

record net =
  url_Parse :: "string \<Rightarrow> parsed_url res"
  LookupIP :: "string \<Rightarrow> bytes option list res"
  ip_String :: "bytes \<Rightarrow> string"
  net_order :: "string \<Rightarrow> string list \<Rightarrow> string list" \<comment> \<open>Go's map order\<close>

definition ip_blocked :: "net \<Rightarrow> bytes \<Rightarrow> string \<Rightarrow> string" where
  "ip_blocked net ip why = ''IP '' @ ip_String net ip @ '' is blocked (SSRF protection: '' @ why @ '')''"

definition ip_Validate :: "net \<Rightarrow> bytes option \<Rightarrow> unit res" where
  "ip_Validate net p =
     (case p of
        None \<Rightarrow> Inl ''IP address is nil''
      | Some ip \<Rightarrow>
        if IsLoopback ip then Inl (ip_blocked net ip ''loopback address'')
        else if IsPrivate ip then Inl (ip_blocked net ip ''private network'')
        else if IsLinkLocalUnicast ip then Inl (ip_blocked net ip ''link-local address'')
        else if IsMulticast ip then Inl (ip_blocked net ip ''multicast address'')
        else if IsUnspecified ip then Inl (ip_blocked net ip ''unspecified address'')
        else Inr ())"

fun validate_each :: "('a \<Rightarrow> unit res) \<Rightarrow> 'a list \<Rightarrow> unit res" where
  "validate_each f [] = Inr ()"
| "validate_each f (x # xs) = (case f x of Inl err \<Rightarrow> Inl err | Inr _ \<Rightarrow> validate_each f xs)"

definition ip_ValidateAll :: "net \<Rightarrow> bytes option list \<Rightarrow> unit res" where
  "ip_ValidateAll net ips = (if ips = [] then Inl ''no IP addresses to validate'' else validate_each (ip_Validate net) ips)"

section \<open>Hosts, protocols and paths\<close>

definition quote :: "string \<Rightarrow> string" where "quote s = CHR 0x27 # s @ [CHR 0x27]"

definition blockedHostnames :: "string list" where
  "blockedHostnames = [''localhost'', ''127.0.0.1'', ''::1'', ''0.0.0.0'', ''::'', ''::ffff:127.0.0.1'', ''[::1]'', ''[::ffff:127.0.0.1]'']"

definition host_Validate :: "net \<Rightarrow> string \<Rightarrow> unit res" where
  "host_Validate net hostname =
     (if hostname = '''' then Inl ''hostname is required''
      else if ToLower (TrimSpace hostname) \<in> set blockedHostnames
        then Inl (''hostname '' @ quote hostname @ '' is blocked (SSRF protection: localhost access)'')
      else (case LookupIP net hostname of
              Inl _ \<Rightarrow> Inr ()
            | Inr ips \<Rightarrow> ip_ValidateAll net ips))"

definition protocol_Validate :: "string \<Rightarrow> unit res" where
  "protocol_Validate scheme =
     (let s = ToLower (TrimSpace scheme)
      in if s = '''' then Inl ''protocol scheme is required''
         else if s \<notin> {''http'', ''https''} then Inl (''protocol '' @ quote scheme @ '' is not allowed (only http/https permitted)'')
         else Inr ())"

abbreviation backslash :: char where "backslash \<equiv> CHR 0x5C"

definition blockedPatterns :: "string list" where
  "blockedPatterns = [''file://'', ''../'', ''..'' @ [backslash], ''/etc/'', ''/proc/'', ''/sys/'', ''c:/'', ''c:'' @ [backslash],
     [backslash, backslash] @ ''.'' @ [backslash] @ ''pipe'' @ [backslash]]"

definition encodedPatterns :: "string list" where
  "encodedPatterns = [''%2e%2e/'', ''%2e%2e%2f'', ''..%2f'', ''%2e%2e'' @ [backslash], ''%2e%2e%5c'', ''..%5c'']"

definition containsEncodedAttack :: "string \<Rightarrow> bool" where
  "containsEncodedAttack path \<longleftrightarrow> list_ex (Contains path) encodedPatterns"

definition path_Validate :: "string \<Rightarrow> unit res" where
  "path_Validate urlPath =
     (if urlPath = '''' then Inr ()
      else let p = ToLower urlPath
        in (case find (Contains p) blockedPatterns of
              Some pat \<Rightarrow> Inl (''path contains blocked pattern '' @ quote pat @ '' (security risk: file access attempt)'')
            | None \<Rightarrow> if containsEncodedAttack p then Inl ''path contains encoded attack patterns (security risk)'' else Inr ()))"

section \<open>URLs\<close>

definition validate_param :: "string \<times> string list \<Rightarrow> unit res" where
  "validate_param kv =
     (case validate_each path_Validate (snd kv) of
        Inl err \<Rightarrow> Inl (''query parameter '' @ quote (fst kv) @ '' contains dangerous pattern: '' @ err)
      | Inr _ \<Rightarrow> Inr ())"

definition validateQueryParams :: "net \<Rightarrow> string list smap \<Rightarrow> unit res" where
  "validateQueryParams net params = validate_each validate_param (range_map (net_order net) ''query'' params)"

definition wrap :: "string \<Rightarrow> unit res \<Rightarrow> unit res \<Rightarrow> unit res" where
  "wrap msg r k = (case r of Inl err \<Rightarrow> Inl (msg @ err) | Inr _ \<Rightarrow> k)"

definition url_Validate :: "net \<Rightarrow> string \<Rightarrow> unit res" where
  "url_Validate net urlStr =
     (case url_Parse net urlStr of
        Inl err \<Rightarrow> Inl (''invalid URL format: '' @ err)
      | Inr u \<Rightarrow>
        wrap ''protocol validation failed: '' (protocol_Validate (u_scheme u)) (
        wrap ''host validation failed: '' (host_Validate net (u_hostname u)) (
        wrap ''path validation failed: '' (path_Validate (u_path u)) (
        wrap ''query parameter validation failed: '' (validateQueryParams net (u_query u)) (Inr ())))))"

section \<open>Networks\<close>

text \<open>The number an address stands for, and membership in a network given by a base address and a prefix length.\<close>

definition num :: "bytes \<Rightarrow> nat" where
  "num bs = foldl (\<lambda>n b. n * 256 + unat b) 0 bs"

definition in_net :: "bytes \<Rightarrow> bytes \<times> nat \<Rightarrow> bool" where
  "in_net bs = (\<lambda>(base, l). length bs = length base \<and> num bs div 2 ^ (8 * length bs - l) = num base div 2 ^ (8 * length base - l))"

definition blocked_networks :: "(bytes \<times> nat) list" where
  "blocked_networks =
     [([127, 0, 0, 0], 8), ([10, 0, 0, 0], 8), ([172, 16, 0, 0], 12), ([192, 168, 0, 0], 16), ([169, 254, 0, 0], 16),
      ([224, 0, 0, 0], 4), ([0, 0, 0, 0], 32),
      (IPv6loopback, 128), (IPv6unspecified, 128), (0xFC # replicate 15 0, 7), (0xFE # 0x80 # replicate 14 0, 10), (0xFF # replicate 15 0, 8)]"

text \<open>An IPv4 address written with 16 bytes is the IPv4 address.\<close>

definition canonical :: "bytes \<Rightarrow> bytes" where
  "canonical ip = (case To4 ip of Some ip4 \<Rightarrow> ip4 | None \<Rightarrow> ip)"

definition public_ip :: "bytes \<Rightarrow> bool" where
  "public_ip ip \<longleftrightarrow> \<not> (\<exists>n \<in> set blocked_networks. in_net (canonical ip) n)"

lemma num_snoc: "num (bs @ [b]) = num bs * 256 + unat b"
  by (simp add: num_def)

lemma num_div_byte: "num (bs @ [b]) div 256 = num bs"
proof -
  have "unat b < 256" using unsigned_less [of b, where 'a = nat] by simp
  then show ?thesis by (simp add: num_snoc)
qed

lemma num_append_div: "num (xs @ ys) div 2 ^ (8 * length ys) = num xs"
proof (induction ys rule: rev_induct)
  case (snoc y ys)
  have "num (xs @ ys @ [y]) div 2 ^ (8 * length (ys @ [y])) = num ((xs @ ys) @ [y]) div 256 div 2 ^ (8 * length ys)"
    by (simp add: div_mult2_eq power_add mult.commute)
  then show ?case unfolding num_div_byte snoc .
qed simp

lemma num_inj: "length xs = length ys \<Longrightarrow> num xs = num ys \<Longrightarrow> xs = ys"
proof (induction xs arbitrary: ys rule: rev_induct)
  case (snoc x xs)
  then obtain zs z where ys: "ys = zs @ [z]" by (cases ys rule: rev_cases) auto
  have "num xs = num zs" using snoc.prems(2) num_div_byte ys by metis
  moreover from this have "unat x = unat z" using snoc.prems(2) by (simp add: ys num_snoc)
  then have "x = z" by (simp add: word_unat_eq_iff)
  ultimately show ?case using snoc ys by simp
qed simp

lemma num_take:
  assumes "k \<le> length bs"
  shows "num bs div 2 ^ (8 * (length bs - k) + j) = num (take k bs) div 2 ^ j"
  using num_append_div [of "take k bs" "drop k bs"] by (simp add: power_add div_mult2_eq)

text \<open>Membership reads off the first bytes, the last of them shifted.\<close>

lemma in_net_prefix:
  assumes "length bs = length base" and "k \<le> length base" and "l + j = 8 * k"
  shows "in_net bs (base, l) \<longleftrightarrow> num (take k bs) div 2 ^ j = num (take k base) div 2 ^ j"
proof -
  have "8 * length base - l = 8 * (length base - k) + j" using assms(2,3) by simp
  then show ?thesis using num_take [of k bs j] num_take [of k base j] assms by (simp add: in_net_def)
qed

lemma in_net_exact: "in_net bs (base, 8 * length base) \<longleftrightarrow> bs = base"
  using num_inj by (auto simp: in_net_def)

lemma unat_and_high: "unat ((w :: 8 word) AND NOT (mask n)) = unat w div 2 ^ n * 2 ^ n"
proof -
  have "unat (w AND NOT (mask n)) = push_bit n (drop_bit n (unat w))"
    by (rule bit_eqI) (auto simp: bit_simps dest: bit_imp_le_length)
  then show ?thesis by (simp add: drop_bit_eq_div push_bit_eq_mult)
qed

lemma and_high_eq:
  assumes "2 ^ n dvd unat b"
  shows "(w :: 8 word) AND NOT (mask n) = b \<longleftrightarrow> unat w div 2 ^ n = unat b div 2 ^ n"
proof -
  have "w AND NOT (mask n) = b \<longleftrightarrow> unat w div 2 ^ n * 2 ^ n = unat b"
    unfolding unat_and_high [symmetric] by (metis word_unat_eq_iff)
  also have "\<dots> \<longleftrightarrow> unat w div 2 ^ n = unat b div 2 ^ n" using assms by auto
  finally show ?thesis .
qed

lemma byte_masks: "(0xF0 :: 8 word) = NOT (mask 4)" "(0xFE :: 8 word) = NOT (mask 1)" "(0xC0 :: 8 word) = NOT (mask 6)"
  by (simp_all add: mask_eq_exp_minus_1 not_eq_complement)

lemma byte_and:
  "(w :: 8 word) AND 0xF0 = 16 \<longleftrightarrow> unat w div 16 = 1" "w AND 0xF0 = 0xE0 \<longleftrightarrow> unat w div 16 = 14"
  "w AND 0xFE = 0xFC \<longleftrightarrow> unat w div 2 = 126" "w AND 0xC0 = 0x80 \<longleftrightarrow> unat w div 64 = 2"
  unfolding byte_masks by (subst and_high_eq; simp)+

lemma num_small: "num [a] = unat a" "num [a, b] = unat a * 256 + unat b"
  by (simp_all add: num_def)

lemma two_digits: "a * k + b = m * k + n \<longleftrightarrow> a = m \<and> b = n" if "b < k" "n < k" for k :: nat
proof
  assume "a * k + b = m * k + n"
  then have "(a * k + b) div k = (m * k + n) div k" "(a * k + b) mod k = (m * k + n) mod k" by simp_all
  with that show "a = m \<and> b = n" by (simp add: div_mult_self3)
qed simp

lemma byte_less: "unat (b :: 8 word) < 256"
  using unsigned_less [of b, where 'a = nat] by simp

section \<open>What is let through\<close>

lemma blocked_v4:
  assumes "length ip = 4"
  shows "in_net ip ([127, 0, 0, 0], 8) \<longleftrightarrow> ip ! 0 = 127" "in_net ip ([10, 0, 0, 0], 8) \<longleftrightarrow> ip ! 0 = 10"
    "in_net ip ([172, 16, 0, 0], 12) \<longleftrightarrow> ip ! 0 = 172 \<and> ip ! 1 AND 0xF0 = 16"
    "in_net ip ([192, 168, 0, 0], 16) \<longleftrightarrow> ip ! 0 = 192 \<and> ip ! 1 = 168"
    "in_net ip ([169, 254, 0, 0], 16) \<longleftrightarrow> ip ! 0 = 169 \<and> ip ! 1 = 254"
    "in_net ip ([224, 0, 0, 0], 4) \<longleftrightarrow> ip ! 0 AND 0xF0 = 0xE0"
    "in_net ip ([0, 0, 0, 0], 32) \<longleftrightarrow> ip = [0, 0, 0, 0]"
proof -
  obtain a b c d where ip: "ip = [a, b, c, d]" using assms by (auto simp: numeral_eq_Suc length_Suc_conv)
  show "in_net ip ([127, 0, 0, 0], 8) \<longleftrightarrow> ip ! 0 = 127" "in_net ip ([10, 0, 0, 0], 8) \<longleftrightarrow> ip ! 0 = 10"
    by (subst in_net_prefix [where k = 1 and j = 0]; simp add: ip num_small word_unat_eq_iff)+
  show "in_net ip ([192, 168, 0, 0], 16) \<longleftrightarrow> ip ! 0 = 192 \<and> ip ! 1 = 168"
    "in_net ip ([169, 254, 0, 0], 16) \<longleftrightarrow> ip ! 0 = 169 \<and> ip ! 1 = 254"
    using two_digits [OF byte_less, of 168 "unat a" b 192] two_digits [OF byte_less, of 254 "unat a" b 169]
    by (subst in_net_prefix [where k = 2 and j = 0]; simp add: ip num_small word_unat_eq_iff)+
  show "in_net ip ([224, 0, 0, 0], 4) \<longleftrightarrow> ip ! 0 AND 0xF0 = 0xE0"
    unfolding byte_and by (subst in_net_prefix [where k = 1 and j = 4]; simp add: ip num_small)
  have "(unat a * 256 + unat b) div 16 = unat a * 16 + unat b div 16" by simp
  moreover have "unat b div 16 < 16" using byte_less [of b] by simp
  ultimately show "in_net ip ([172, 16, 0, 0], 12) \<longleftrightarrow> ip ! 0 = 172 \<and> ip ! 1 AND 0xF0 = 16"
    unfolding byte_and using two_digits [of "unat b div 16" 16 1 "unat a" 172]
    by (subst in_net_prefix [where k = 2 and j = 4]; simp add: ip num_small word_unat_eq_iff)
  show "in_net ip ([0, 0, 0, 0], 32) \<longleftrightarrow> ip = [0, 0, 0, 0]"
    using in_net_exact [of ip "[0, 0, 0, 0]"] by simp
qed

lemma blocked_v6:
  assumes "length ip = 16"
  shows "in_net ip (IPv6loopback, 128) \<longleftrightarrow> ip = IPv6loopback" "in_net ip (IPv6unspecified, 128) \<longleftrightarrow> ip = IPv6unspecified"
    "in_net ip (0xFC # replicate 15 0, 7) \<longleftrightarrow> ip ! 0 AND 0xFE = 0xFC"
    "in_net ip (0xFE # 0x80 # replicate 14 0, 10) \<longleftrightarrow> ip ! 0 = 0xFE \<and> ip ! 1 AND 0xC0 = 0x80"
    "in_net ip (0xFF # replicate 15 0, 8) \<longleftrightarrow> ip ! 0 = 0xFF"
proof -
  obtain a b rest where ip: "ip = a # b # rest" "length rest = 14" using assms by (auto simp: numeral_eq_Suc length_Suc_conv)
  show "in_net ip (IPv6loopback, 128) \<longleftrightarrow> ip = IPv6loopback"
    using in_net_exact [of ip IPv6loopback] by (simp add: IPv6loopback_def)
  show "in_net ip (IPv6unspecified, 128) \<longleftrightarrow> ip = IPv6unspecified"
    using in_net_exact [of ip IPv6unspecified] by (simp add: IPv6unspecified_def)
  show "in_net ip (0xFC # replicate 15 0, 7) \<longleftrightarrow> ip ! 0 AND 0xFE = 0xFC"
    unfolding byte_and by (subst in_net_prefix [where k = 1 and j = 1]; simp add: ip num_small)
  show "in_net ip (0xFF # replicate 15 0, 8) \<longleftrightarrow> ip ! 0 = 0xFF"
    by (subst in_net_prefix [where k = 1 and j = 0]; simp add: ip num_small word_unat_eq_iff)
  have "(unat a * 256 + unat b) div 64 = unat a * 4 + unat b div 64" by simp
  moreover have "unat b div 64 < 4" using byte_less [of b] by simp
  ultimately show "in_net ip (0xFE # 0x80 # replicate 14 0, 10) \<longleftrightarrow> ip ! 0 = 0xFE \<and> ip ! 1 AND 0xC0 = 0x80"
    unfolding byte_and using two_digits [of "unat b div 64" 4 2 "unat a" 254]
    by (subst in_net_prefix [where k = 2 and j = 6]; simp add: ip num_small word_unat_eq_iff)
qed

lemma in_net_length: "in_net ip (base, l) \<Longrightarrow> length ip = length base"
  by (simp add: in_net_def)

lemma To4_canonical: "To4 ip = Some ip4 \<Longrightarrow> length ip4 = 4"
  by (auto simp: To4_def split: if_splits)

lemma Equal_canonical:
  "length ip = 16 \<Longrightarrow> To4 ip = None \<Longrightarrow> ip_Equal ip IPv4zero = False"
  "To4 ip = Some ip4 \<Longrightarrow> ip_Equal ip IPv4zero \<longleftrightarrow> ip4 = [0, 0, 0, 0]"
  "To4 ip = Some ip4 \<Longrightarrow> ip_Equal ip IPv6unspecified = False"
proof -
  have z: "length IPv4zero = 16" "take 12 IPv4zero = v4_in_v6" "drop 12 IPv4zero = [0, 0, 0, 0]"
    by (simp_all add: IPv4zero_def v4_in_v6_def)
  have "take 12 IPv6unspecified ! 11 = 0" "v4_in_v6 ! 11 = 0xFF" by (simp_all add: IPv6unspecified_def v4_in_v6_def nth_append)
  moreover have "(0 :: 8 word) \<noteq> 0xFF" by simp
  ultimately have "take 12 IPv6unspecified \<noteq> v4_in_v6" by metis
  moreover have "length IPv6unspecified = 16" by (simp add: IPv6unspecified_def)
  ultimately have u: "length IPv6unspecified = 16" "take 12 IPv6unspecified \<noteq> v4_in_v6" by blast+
  show "length ip = 16 \<Longrightarrow> To4 ip = None \<Longrightarrow> ip_Equal ip IPv4zero = False"
    using z by (auto simp: To4_def ip_Equal_def split: if_splits)
  show "To4 ip = Some ip4 \<Longrightarrow> ip_Equal ip IPv4zero \<longleftrightarrow> ip4 = [0, 0, 0, 0]"
    using z by (auto simp: To4_def ip_Equal_def split: if_splits) (metis append_take_drop_id)
  show "To4 ip = Some ip4 \<Longrightarrow> ip_Equal ip IPv6unspecified = False"
    using u by (auto simp: To4_def ip_Equal_def split: if_splits)
qed

lemma ip_Validate_ok:
  "ip_Validate net (Some ip) = Inr () \<longleftrightarrow>
     \<not> (IsLoopback ip \<or> IsPrivate ip \<or> IsLinkLocalUnicast ip \<or> IsMulticast ip \<or> IsUnspecified ip)"
  by (simp add: ip_Validate_def)

lemma blocked_networks_v4:
  assumes "length ip = 4"
  shows "(\<exists>n \<in> set blocked_networks. in_net ip n) \<longleftrightarrow>
    ip ! 0 = 127 \<or> ip ! 0 = 10 \<or> (ip ! 0 = 172 \<and> ip ! 1 AND 0xF0 = 16) \<or> (ip ! 0 = 192 \<and> ip ! 1 = 168)
    \<or> (ip ! 0 = 169 \<and> ip ! 1 = 254) \<or> ip ! 0 AND 0xF0 = 0xE0 \<or> ip = [0, 0, 0, 0]"
proof -
  have "\<not> in_net ip (base, l)" if "length base = 16" for base l using in_net_length that assms by fastforce
  then show ?thesis unfolding blocked_networks_def
    using blocked_v4 [OF assms] by (simp add: IPv6loopback_def IPv6unspecified_def)
qed

lemma blocked_networks_v6:
  assumes "length ip = 16"
  shows "(\<exists>n \<in> set blocked_networks. in_net ip n) \<longleftrightarrow>
    ip = IPv6loopback \<or> ip = IPv6unspecified \<or> ip ! 0 AND 0xFE = 0xFC \<or> (ip ! 0 = 0xFE \<and> ip ! 1 AND 0xC0 = 0x80) \<or> ip ! 0 = 0xFF"
proof -
  have "\<not> in_net ip ([a, b, c, d], l)" for a b c d l using in_net_length assms by fastforce
  then show ?thesis unfolding blocked_networks_def using blocked_v6 [OF assms] by simp
qed

lemma ip_Validate_iff:
  assumes "length ip = 4 \<or> length ip = 16"
  shows "ip_Validate net (Some ip) = Inr () \<longleftrightarrow> public_ip ip"
proof (cases "To4 ip")
  case None
  then have l: "length ip = 16" using assms by (auto simp: To4_def)
  have "IsUnspecified ip \<longleftrightarrow> ip = IPv6unspecified" "IsLoopback ip \<longleftrightarrow> ip = IPv6loopback"
    using None l Equal_canonical(1) by (auto simp: IsUnspecified_def IsLoopback_def ip_Equal_def IPv6unspecified_def IPv6loopback_def)
  then show ?thesis unfolding ip_Validate_ok public_ip_def using None l blocked_networks_v6 [OF l]
    by (auto simp: canonical_def IsPrivate_def IsLinkLocalUnicast_def IsMulticast_def)
next
  case (Some ip4)
  have "IsUnspecified ip \<longleftrightarrow> ip4 = [0, 0, 0, 0]"
    using Equal_canonical(2,3) [OF Some] by (auto simp: IsUnspecified_def)
  then show ?thesis unfolding ip_Validate_ok public_ip_def using Some blocked_networks_v4 [OF To4_canonical [OF Some]]
    by (auto simp: canonical_def IsPrivate_def IsLinkLocalUnicast_def IsMulticast_def IsLoopback_def)
qed

text \<open>C16. The address check is exact: an address of 4 or 16 bytes is accepted if and only if the address, with a mapped
  IPv4 address taken as the IPv4 address, lies in none of the blocked networks: \<open>127/8\<close>, \<open>10/8\<close>, \<open>172.16/12\<close>,
  \<open>192.168/16\<close>, \<open>169.254/16\<close>, \<open>224/4\<close>, \<open>0.0.0.0\<close>, \<open>::1\<close>, \<open>::\<close>, \<open>fc00::/7\<close>, \<open>fe80::/10\<close>, \<open>ff00::/8\<close>.\<close>

theorem ip_Validate_networks:
  assumes "length ip = 4 \<or> length ip = 16"
  shows "ip_Validate net (Some ip) = Inr () \<longleftrightarrow> public_ip ip"
  using assms by (rule ip_Validate_iff)

definition quiet_net :: net where
  "quiet_net = \<lparr>url_Parse = (\<lambda>s. Inr \<lparr>u_scheme = ''https'', u_hostname = s, u_path = ''/v1'', u_query = []\<rparr>),
     LookupIP = (\<lambda>h. Inr [Some [8, 8, 8, 8]]), ip_String = (\<lambda>_. ''ip''), net_order = (\<lambda>_ ks. ks)\<rparr>"

theorem ip_Validate_networks_witness:
  "length ([172, 31, 255, 1] :: bytes) = 4 \<and> (\<exists>n \<in> set blocked_networks. in_net [172, 31, 255, 1] n)
   \<and> ip_Validate quiet_net (Some (v4_in_v6 @ [169, 254, 169, 254])) \<noteq> Inr ()"
proof -
  have "\<not> public_ip [172, 31, 255, 1]"
    using ip_Validate_networks [of "[172, 31, 255, 1]" quiet_net]
    by (simp add: ip_Validate_ok IsPrivate_def To4_def)
  moreover have "ip_Validate quiet_net (Some (v4_in_v6 @ [169, 254, 169, 254])) \<noteq> Inr ()"
    unfolding ip_Validate_ok by (simp add: IsLinkLocalUnicast_def To4_def v4_in_v6_def)
  ultimately show ?thesis by (simp add: public_ip_def canonical_def To4_def)
qed

section \<open>Accepted URLs\<close>

lemma validate_each_ok: "validate_each f xs = Inr () \<longleftrightarrow> (\<forall>x \<in> set xs. f x = Inr ())"
  by (induction xs) (auto split: sum.splits)

lemma wrap_ok: "wrap msg r k = Inr () \<longleftrightarrow> r = Inr () \<and> k = Inr ()"
  by (auto simp: wrap_def split: sum.splits)

text \<open>A text without any of the patterns, in any mix of upper and lower case.\<close>

definition harmless :: "string \<Rightarrow> bool" where
  "harmless s \<longleftrightarrow> (\<forall>pat \<in> set (blockedPatterns @ encodedPatterns). \<not> Contains (ToLower s) pat)"

lemma path_Validate_ok: "path_Validate p = Inr () \<longleftrightarrow> harmless p"
proof (cases "p = ''''")
  case True
  then show ?thesis by (simp add: path_Validate_def harmless_def ToLower_def Contains_def blockedPatterns_def encodedPatterns_def)
next
  case False
  then show ?thesis
    by (auto simp: path_Validate_def Let_def harmless_def containsEncodedAttack_def list_ex_iff find_None_iff find_Some_iff
      split: option.split)
qed

lemma validateQueryParams_ok:
  assumes "perm_order (net_order net)" and "distinct (map fst q)"
  shows "validateQueryParams net q = Inr () \<longleftrightarrow> (\<forall>(k, vs) \<in> set q. \<forall>v \<in> set vs. harmless v)"
proof -
  have "validate_param (k, vs) = Inr () \<longleftrightarrow> (\<forall>v \<in> set vs. harmless v)" for k vs
    unfolding path_Validate_ok [symmetric] validate_each_ok [symmetric] by (auto simp: validate_param_def split: sum.split)
  then show ?thesis unfolding validateQueryParams_def validate_each_ok set_range_map [OF assms] by auto
qed

lemma host_Validate_ok:
  "host_Validate net h = Inr () \<longleftrightarrow> h \<noteq> '''' \<and> ToLower (TrimSpace h) \<notin> set blockedHostnames
     \<and> (\<forall>ips. LookupIP net h = Inr ips \<longrightarrow> ips \<noteq> [] \<and> (\<forall>ip \<in> set ips. ip_Validate net ip = Inr ()))"
  by (auto simp: host_Validate_def ip_ValidateAll_def validate_each_ok split: sum.split)



end
