(* ===== verification/Http_Worker.thy ===== *)
theory Http_Worker
  imports Executor Security
begin

text \<open>
  The http worker, \<open>cmd/http-worker/worker/http_worker.go\<close>: it takes a token, sends the request the node's configuration
  describes and signals completion or failure.

  \<open>web\<close> is what the worker gets from outside: the URL functions (\<open>net\<close>), whether \<open>http.NewRequest\<close> accepts a method,
  the peer's reply, the JSON parser, and the metrics of the process. A request that goes out is an entry of the list the
  operations return, so that what is sent, and what is not, can be stated.
\<close>

datatype reply = RFail string | RBodyFail string | RResp nat gval string \<comment> \<open>status, headers, body\<close>

record web =
  wb_net :: net
  wb_new :: "string \<Rightarrow> string \<Rightarrow> string option" \<comment> \<open>the error of \<open>NewRequest\<close> for method and URL\<close>
  wb_do :: "nat \<Rightarrow> string \<Rightarrow> string \<Rightarrow> string \<Rightarrow> reply" \<comment> \<open>time, method, URL, body\<close>
  wb_millis :: "nat \<Rightarrow> rat"
  wb_json :: "string \<Rightarrow> gval option"
  wb_metrics :: "token \<Rightarrow> nat \<Rightarrow> gval smap"

record request =
  hr_method :: string
  hr_url :: string
  hr_body :: string

definition text_field :: "gval smap \<Rightarrow> string \<Rightarrow> string" where
  "text_field config k = (case as_string (mget config k) of None \<Rightarrow> '''' | Some s \<Rightarrow> s)"

definition request_of :: "gval smap \<Rightarrow> request" where
  "request_of config =
     \<lparr>hr_method = (if text_field config ''method'' = '''' then ''GET'' else text_field config ''method''),
      hr_url = text_field config ''url'', hr_body = text_field config ''payload''\<rparr>"

definition response_doc :: "web \<Rightarrow> nat \<Rightarrow> request \<Rightarrow> nat \<Rightarrow> gval \<Rightarrow> string \<Rightarrow> gval smap" where
  "response_doc web t rq code headers body =
     [(''status'', GStr ''success''), (''status_code'', GNum (of_nat code)), (''headers'', headers),
      (''body'', case wb_json web body of Some d \<Rightarrow> d | None \<Rightarrow> GStr body),
      (''duration_ms'', GNum (wb_millis web t)), (''url'', GStr (hr_url rq)), (''method'', GStr (hr_method rq))]"

definition executeHTTPRequest :: "web \<Rightarrow> nat \<Rightarrow> gval smap \<Rightarrow> gval smap res \<times> request list" where
  "executeHTTPRequest web t config =
     (let rq = request_of config
      in if hr_url rq = '''' then (Inl ''missing or invalid url in config'', [])
         else (case url_Validate (wb_net web) (hr_url rq) of
           Inl err \<Rightarrow> (Inl (''URL blocked for security: '' @ err), [])
         | Inr _ \<Rightarrow> (case wb_new web (hr_method rq) (hr_url rq) of
             Some err \<Rightarrow> (Inl (''failed to create request: '' @ err), [])
           | None \<Rightarrow> (case wb_do web t (hr_method rq) (hr_url rq) (hr_body rq) of
               RFail err \<Rightarrow> (Inl (''request failed: '' @ err), [rq])
             | RBodyFail err \<Rightarrow> (Inl (''failed to read response: '' @ err), [rq])
             | RResp code headers body \<Rightarrow> (Inr (response_doc web t rq code headers body), [rq])))))"

definition http_loadConfig :: "env \<Rightarrow> string \<Rightarrow> gval smap res io" where
  "http_loadConfig e configRef =
     (if configRef = '''' then State_Monad.return (Inr [])
      else do {
        d \<leftarrow> cas_Get e configRef;
        State_Monad.return (case d of
           Inl err \<Rightarrow> Inl (''failed to get config from CAS: '' @ err)
         | Inr v \<Rightarrow> (case unmarshal v of
              GObj m \<Rightarrow> Inr m
            | GNil \<Rightarrow> Inr []
            | _ \<Rightarrow> Inl ''failed to unmarshal config: ''))})"

text \<open>The configuration of a task: the one the coordinator resolved, or the node's own as a fallback.\<close>

definition task_config :: "env \<Rightarrow> token \<Rightarrow> gval smap res io" where
  "task_config e tok =
     (case t_config tok of
        Some c \<Rightarrow> State_Monad.return (Inr c)
      | None \<Rightarrow> do {
          r \<leftarrow> redis_Get e (ir_key (t_run_id tok));
          (case r of
             Inl err \<Rightarrow> State_Monad.return (Inl (''failed to load IR: '' @ err))
           | Inr (RDoc _) \<Rightarrow> State_Monad.return (Inl ''failed to unmarshal IR: '')
           | Inr (RText _) \<Rightarrow> State_Monad.return (Inl ''failed to unmarshal IR: '')
           | Inr (RIr i) \<Rightarrow> (case map_of (ir_nodes i) (t_to_node tok) of
                None \<Rightarrow> State_Monad.return (Inl (''node not found: '' @ t_to_node tok))
              | Some n \<Rightarrow>
                if n_config n \<noteq> [] then State_Monad.return (Inr (n_config n))
                else if n_config_ref n \<noteq> '''' then do {
                  c \<leftarrow> http_loadConfig e (n_config_ref n);
                  State_Monad.return (case c of Inl err \<Rightarrow> Inl (''failed to load config: '' @ err) | Inr m \<Rightarrow> Inr m)}
                else State_Monad.return (Inr [])))})"

definition failure_opts :: "web \<Rightarrow> token \<Rightarrow> nat \<Rightarrow> string \<Rightarrow> completion_opts" where
  "failure_opts web tok t err =
     \<lparr>co_token = Some tok, co_status = ''failed'',
      co_result = Some [(''status'', GStr ''failed''), (''error'', GStr err), (''metrics'', GObj (wb_metrics web tok t))],
      co_metadata = Some [(''error_type'', GStr ''HTTPRequestError''), (''error_message'', GStr err)]\<rparr>"

definition success_opts :: "web \<Rightarrow> token \<Rightarrow> nat \<Rightarrow> gval smap \<Rightarrow> completion_opts" where
  "success_opts web tok t result =
     \<lparr>co_token = Some tok, co_status = ''completed'',
      co_result = Some (AList.update ''metrics'' (GObj (wb_metrics web tok t)) result),
      co_metadata = Some [(''status_code'', mget result ''status_code''), (''duration_ms'', mget result ''duration_ms'')]\<rparr>"

definition http_handleMessage :: "env \<Rightarrow> web \<Rightarrow> entry \<Rightarrow> (unit res \<times> request list) io" where
  "http_handleMessage e web message =
     (case message of
        ETask tok \<Rightarrow> do {
          c \<leftarrow> task_config e tok;
          (case c of
             Inl err \<Rightarrow> State_Monad.return (Inl err, [])
           | Inr config \<Rightarrow> do {
               t \<leftarrow> now (nano e);
               (case executeHTTPRequest web t config of
                  (Inl err, sent) \<Rightarrow> do {
                    r \<leftarrow> SignalCompletion e (failure_opts web tok t err);
                    State_Monad.return (r, sent)}
                | (Inr result, sent) \<Rightarrow> do {
                    r \<leftarrow> SignalCompletion e (success_opts web tok t result);
                    State_Monad.return (r, sent)})})}
      | _ \<Rightarrow> State_Monad.return (Inl ''message missing token field'', []))"

text \<open>One read of the group \<open>http_workers\<close>; the message is acknowledged whether or not it was handled.\<close>

definition http_processNextMessage :: "env \<Rightarrow> web \<Rightarrow> nat \<Rightarrow> (nat \<times> unit res \<times> request list) io" where
  "http_processNextMessage e web cursor = do {
     ok \<leftarrow> attempt e (OpExec ''XREADGROUP'');
     w \<leftarrow> State_Monad.get;
     if \<not> ok then State_Monad.return (cursor, Inl ''XREADGROUP error: '', [])
     else if cursor < length (r_streams w ''wf.tasks.http'') then do {
       r \<leftarrow> http_handleMessage e web (r_streams w ''wf.tasks.http'' ! cursor);
       _ \<leftarrow> attempt e (OpExec ''XACK'');
       State_Monad.return (Suc cursor, Inr (), snd r)}
     else State_Monad.return (cursor, Inr (), [])}"

section \<open>Requests and signals\<close>

lemma sent_validated:
  assumes "executeHTTPRequest web t config = (r, sent)" and "rq \<in> set sent"
  shows "rq = request_of config \<and> url_Validate (wb_net web) (hr_url rq) = Inr ()"
  using assms by (auto simp: executeHTTPRequest_def Let_def split: if_splits sum.splits option.splits reply.splits)

lemma run_SignalCompletion_ok:
  assumes "reliable e" and "validate_opts opts = None" and "co_token opts = Some tok"
  shows "run_state (SignalCompletion e opts) w =
    (Inr (), w\<lparr>r_tick := Suc (r_tick w), r_signals := r_signals w @ [completion_of tok opts]\<rparr>)"
  using assms by (simp add: SignalCompletion_def)

definition valid_token :: "token \<Rightarrow> bool" where
  "valid_token tok \<longleftrightarrow> t_id tok \<noteq> '''' \<and> t_run_id tok \<noteq> '''' \<and> t_to_node tok \<noteq> ''''"


definition calm_web :: web where
  "calm_web = \<lparr>wb_net = quiet_net, wb_new = (\<lambda>_ _. None), wb_do = (\<lambda>_ _ _ _. RResp 200 (GObj []) ''ok''), wb_millis = (\<lambda>_. 1),
     wb_json = (\<lambda>_. None), wb_metrics = (\<lambda>_ _. [])\<rparr>"

definition sample_token :: token where
  "sample_token = \<lparr>t_id = ''t1'', t_run_id = ''r1'', t_from_node = '''', t_to_node = ''a'', t_payload_ref = '''',
     t_config = Some [(''url'', GStr ''localhost'')], t_owner = None, t_metadata = []\<rparr>"


end
