(* ===== verification/Hitl_Worker.thy ===== *)
theory Hitl_Worker
  imports Executor
begin

text \<open>
  Human approvals: the worker \<open>cmd/hitl-worker/worker/hitl_worker.go\<close> and the endpoint of the fanout server
  (\<open>cmd/fanout/server.go\<close>, \<open>HandleApproval\<close>) that takes a user's decision.

  A task token opens an approval (a Redis key that is set only once) and counts it; a decision goes through a stream of its own,
  closes the approval, counts it down and signals the node's completion. \<open>metrics\<close> stands for the measurements
  of the process that the result carries.
\<close>

section \<open>Keys\<close>

definition approval_key :: "string \<Rightarrow> string \<Rightarrow> string" where
  "approval_key run nodeID = ''hitl:approval:'' @ run @ '':'' @ nodeID"

definition workflow_pending_key :: "string \<Rightarrow> string \<Rightarrow> string" where
  "workflow_pending_key username tag = ''workflow:'' @ username @ '':'' @ tag @ '':pending_approvals''"

definition run_pending_key :: "string \<Rightarrow> string" where
  "run_pending_key run = ''run:'' @ run @ '':pending_approvals''"

definition node_status_key :: "string \<Rightarrow> string \<Rightarrow> string" where
  "node_status_key run nodeID = ''run:'' @ run @ '':node:'' @ nodeID @ '':status''"

definition hitl_run_status_key :: "string \<Rightarrow> string" where
  "hitl_run_status_key run = ''run:'' @ run @ '':status''"

text \<open>\<open>s, _ := m[k].(string)\<close>, and the default for an empty one.\<close>

definition str_at :: "gval smap \<Rightarrow> string \<Rightarrow> string" where
  "str_at m k = (case as_string (mget m k) of None \<Rightarrow> '''' | Some s \<Rightarrow> s)"

definition bool_at :: "gval smap \<Rightarrow> string \<Rightarrow> bool" where
  "bool_at m k = (case mget m k of GBool b \<Rightarrow> b | _ \<Rightarrow> False)"

definition or_unknown :: "string \<Rightarrow> string" where
  "or_unknown s = (if s = '''' then ''unknown'' else s)"

section \<open>Requests\<close>

definition hitl_loadIR :: "env \<Rightarrow> string \<Rightarrow> ir res io" where
  "hitl_loadIR e run = do {
     r \<leftarrow> redis_Get e (ir_key run);
     State_Monad.return (case r of
        Inl err \<Rightarrow> Inl (''failed to load IR: '' @ err)
      | Inr (RIr i) \<Rightarrow> Inr i
      | Inr _ \<Rightarrow> Inl ''failed to unmarshal IR: '')}"

definition publishApprovalRequest :: "env \<Rightarrow> string \<Rightarrow> string \<Rightarrow> string \<Rightarrow> gval smap \<Rightarrow> unit res io" where
  "publishApprovalRequest e run nodeID tag config = do {
     r \<leftarrow> hitl_loadIR e run;
     (case r of
        Inl err \<Rightarrow> State_Monad.return (Inl err)
      | Inr i \<Rightarrow> (case ir_username i of
           None \<Rightarrow> State_Monad.return (Inl ''username not found in IR metadata'')
         | Some username \<Rightarrow> do {
             t \<leftarrow> now (unix e);
             p \<leftarrow> redis_PublishEvent e (''workflow:events:'' @ username)
               (GObj [(''type'', GStr ''approval_required''), (''run_id'', GStr run), (''node_id'', GStr nodeID),
                      (''workflow_tag'', GStr tag), (''message'', mget config ''message''), (''timestamp'', GNum (of_int t))]);
             State_Monad.return (case p of Inl err \<Rightarrow> Inl (''failed to publish event: '' @ err) | Inr _ \<Rightarrow> Inr ())}))}"

definition approval_doc :: "token \<Rightarrow> string \<Rightarrow> string \<Rightarrow> gval smap \<Rightarrow> int \<Rightarrow> gval smap" where
  "approval_doc tok username tag config t =
     [(''run_id'', GStr (t_run_id tok)), (''node_id'', GStr (t_to_node tok)), (''token_id'', GStr (t_id tok)),
      (''username'', GStr username), (''workflow_tag'', GStr tag), (''message'', mget config ''message''),
      (''created_at'', GNum (of_int t)), (''status'', GStr ''pending'')]"

text \<open>After the transaction: a key that existed already means that the two increments are taken back.\<close>

definition approval_exists :: "env \<Rightarrow> token \<Rightarrow> string \<Rightarrow> string \<Rightarrow> unit res io" where
  "approval_exists e tok username tag = do {
     _ \<leftarrow> redis_Decrement e (workflow_pending_key username tag);
     _ \<leftarrow> redis_Decrement e (run_pending_key (t_run_id tok));
     State_Monad.return (Inr ())}"

definition approval_created :: "env \<Rightarrow> token \<Rightarrow> string \<Rightarrow> gval smap \<Rightarrow> unit res io" where
  "approval_created e tok tag config = do {
     _ \<leftarrow> redis_Set e (node_status_key (t_run_id tok) (t_to_node tok)) (RText ''waiting_for_approval'');
     _ \<leftarrow> redis_Set e (hitl_run_status_key (t_run_id tok)) (RText ''WAITING_FOR_APPROVAL'');
     _ \<leftarrow> publishApprovalRequest e (t_run_id tok) (t_to_node tok) tag config;
     State_Monad.return (Inr ())}"

definition open_approval :: "env \<Rightarrow> token \<Rightarrow> ir \<Rightarrow> unit res io" where
  "open_approval e tok i =
     (let config = (case t_config tok of None \<Rightarrow> [] | Some c \<Rightarrow> c);
          tag = or_unknown (str_at (ir_metadata i) ''tag'');
          username = or_unknown (str_at (ir_metadata i) ''username'')
      in do {
        t \<leftarrow> now (unix e);
        r \<leftarrow> redis_TxExec e
          [TxSetNX (approval_key (t_run_id tok) (t_to_node tok)) (RDoc (GObj (approval_doc tok username tag config t))),
           TxIncr (workflow_pending_key username tag), TxIncr (run_pending_key (t_run_id tok))];
        (case r of
           Inl err \<Rightarrow> State_Monad.return (Inl (''failed to execute Redis transaction: '' @ err))
         | Inr replies \<Rightarrow>
           if hd replies = TBool True then approval_created e tok tag config
           else approval_exists e tok username tag)})"

definition handleApprovalRequest :: "env \<Rightarrow> entry \<Rightarrow> unit res io" where
  "handleApprovalRequest e message =
     (case message of
        ETask tok \<Rightarrow> do {
          r \<leftarrow> hitl_loadIR e (t_run_id tok);
          (case r of Inl err \<Rightarrow> State_Monad.return (Inl err) | Inr i \<Rightarrow> open_approval e tok i)}
      | _ \<Rightarrow> State_Monad.return (Inl ''message missing token field''))"

section \<open>Decisions\<close>

text \<open>\<open>POST /api/approval\<close>. A body that does not decode is \<open>None\<close>. The result is the HTTP status and, for an error, its text.\<close>

record approval_request =
  ap_run_id :: string
  ap_node_id :: string
  ap_approved :: bool
  ap_comment :: string
  ap_data :: "gval smap"

definition response_stream :: string where "response_stream = ''wf.tasks.hitl.responses''"

definition HandleApproval :: "env \<Rightarrow> string \<Rightarrow> string \<Rightarrow> approval_request option \<Rightarrow> (nat \<times> string) io" where
  "HandleApproval e method username body =
     (if method = ''OPTIONS'' then State_Monad.return (200, '''')
      else if method \<noteq> ''POST'' then State_Monad.return (405, ''Method not allowed'')
      else if username = '''' then State_Monad.return (400, ''X-User-ID header required'')
      else (case body of
         None \<Rightarrow> State_Monad.return (400, ''Invalid request body'')
       | Some req \<Rightarrow>
         if ap_run_id req = '''' \<or> ap_node_id req = '''' then State_Monad.return (400, ''run_id and node_id are required'')
         else do {
           r \<leftarrow> redis_Get e (approval_key (ap_run_id req) (ap_node_id req));
           (case r of
              Inr (RDoc (GObj approvalData)) \<Rightarrow>
                if str_at approvalData ''status'' \<noteq> ''pending'' then State_Monad.return (409, ''Approval already processed'')
                else do {
                  t \<leftarrow> now (unix e);
                  x \<leftarrow> redis_AddToStream e response_stream (EApproval
                    [(''run_id'', GStr (ap_run_id req)), (''node_id'', GStr (ap_node_id req)), (''approved'', GBool (ap_approved req)),
                     (''comment'', GStr (ap_comment req)), (''approved_by'', GStr username), (''approved_at'', GNum (of_int t)),
                     (''workflow_tag'', mget approvalData ''workflow_tag'')]);
                  State_Monad.return (case x of Inl _ \<Rightarrow> (500, ''Failed to process approval'') | Inr _ \<Rightarrow> (200, ''''))}
            | Inr _ \<Rightarrow> State_Monad.return (500, ''Invalid approval data'')
            | Inl _ \<Rightarrow> State_Monad.return (404, ''Approval request not found''))}))"

section \<open>Responses\<close>

text \<open>The first read of the approval and up to three more.\<close>

primrec get_with_retries :: "env \<Rightarrow> string \<Rightarrow> nat \<Rightarrow> rstr res io" where
  "get_with_retries e key 0 = redis_Get e key"
| "get_with_retries e key (Suc n) = do {
     r \<leftarrow> redis_Get e key;
     (case r of Inr v \<Rightarrow> State_Monad.return (Inr v) | Inl _ \<Rightarrow> get_with_retries e key n)}"

definition bare_token :: "string \<Rightarrow> string \<Rightarrow> string \<Rightarrow> token" where
  "bare_token tokenID run nodeID = \<lparr>t_id = tokenID, t_run_id = run, t_from_node = '''', t_to_node = nodeID, t_payload_ref = '''',
     t_config = None, t_owner = None, t_metadata = []\<rparr>"

definition decision_opts :: "string \<Rightarrow> string \<Rightarrow> string \<Rightarrow> bool \<Rightarrow> gval smap \<Rightarrow> gval smap \<Rightarrow> int \<Rightarrow> completion_opts" where
  "decision_opts tokenID run nodeID approved approvalData metrics t =
     \<lparr>co_token = Some (bare_token tokenID run nodeID), co_status = ''completed'',
      co_result = Some [(''status'', GStr ''completed''), (''approved'', GBool approved), (''approval_data'', GObj approvalData),
         (''node_id'', GStr nodeID), (''timestamp'', GNum (of_int t)), (''metrics'', GObj metrics)],
      co_metadata = Some [(''approved'', GBool approved)]\<rparr>"

definition decided_doc :: "gval smap \<Rightarrow> bool \<Rightarrow> int \<Rightarrow> gval smap" where
  "decided_doc approvalData approved t =
     AList.update ''processed_at'' (GNum (of_int t))
       (AList.update ''status'' (GStr (if approved then ''approved'' else ''rejected'')) approvalData)"

text \<open>A pending approval: count it down, signal the node's completion, then record the decision.\<close>

definition decide :: "env \<Rightarrow> gval smap \<Rightarrow> string \<Rightarrow> string \<Rightarrow> bool \<Rightarrow> string \<Rightarrow> gval smap \<Rightarrow> unit res io" where
  "decide e metrics run nodeID approved tag0 approvalData =
     (let tag = or_unknown (if tag0 = '''' then str_at approvalData ''workflow_tag'' else tag0);
          username = or_unknown (str_at approvalData ''username'');
          tokenID = str_at approvalData ''token_id''
      in if tokenID = '''' then State_Monad.return (Inl ''approval missing token_id'')
         else do {
           _ \<leftarrow> redis_TxExec e [TxDecr (workflow_pending_key username tag), TxDecr (run_pending_key run)];
           t \<leftarrow> now (unix e);
           s \<leftarrow> SignalCompletion e (decision_opts tokenID run nodeID approved approvalData metrics t);
           (case s of
              Inl err \<Rightarrow> State_Monad.return (Inl (''failed to signal completion: '' @ err))
            | Inr _ \<Rightarrow> do {
                t2 \<leftarrow> now (unix e);
                _ \<leftarrow> redis_Set e (approval_key run nodeID) (RDoc (GObj (decided_doc approvalData approved t2)));
                _ \<leftarrow> redis_Set e (node_status_key run nodeID) (RText ''completed'');
                State_Monad.return (Inr ())})})"

definition handleApprovalResponse :: "env \<Rightarrow> gval smap \<Rightarrow> entry \<Rightarrow> unit res io" where
  "handleApprovalResponse e metrics message =
     (case message of
        EApproval approval \<Rightarrow>
          (let run = str_at approval ''run_id''; nodeID = str_at approval ''node_id''
           in if run = '''' \<or> nodeID = '''' then State_Monad.return (Inl ''approval missing run_id or node_id'')
              else do {
                r \<leftarrow> get_with_retries e (approval_key run nodeID) 3;
                (case r of
                   Inl err \<Rightarrow> State_Monad.return (Inl (''failed to load approval after retries: '' @ err))
                 | Inr (RDoc (GObj approvalData)) \<Rightarrow>
                     if str_at approvalData ''status'' \<noteq> ''pending'' then State_Monad.return (Inr ())
                     else decide e metrics run nodeID (bool_at approval ''approved'') (str_at approval ''workflow_tag'') approvalData
                 | Inr _ \<Rightarrow> State_Monad.return (Inl ''failed to unmarshal approval data: ''))})
      | _ \<Rightarrow> State_Monad.return (Inl ''message missing approval field''))"

text \<open>One read of each group; messages are acknowledged whether or not they were handled.\<close>

definition read_stream :: "env \<Rightarrow> string \<Rightarrow> (entry \<Rightarrow> unit res io) \<Rightarrow> nat \<Rightarrow> (nat \<times> unit res) io" where
  "read_stream e stream handle cursor = do {
     ok \<leftarrow> attempt e (OpExec ''XREADGROUP'');
     w \<leftarrow> State_Monad.get;
     if \<not> ok then State_Monad.return (cursor, Inl ''XREADGROUP error: '')
     else if cursor < length (r_streams w stream) then do {
       _ \<leftarrow> handle (r_streams w stream ! cursor);
       _ \<leftarrow> attempt e (OpExec ''XACK'');
       State_Monad.return (Suc cursor, Inr ())}
     else State_Monad.return (cursor, Inr ())}"

definition processNextRequest :: "env \<Rightarrow> nat \<Rightarrow> (nat \<times> unit res) io" where
  "processNextRequest e = read_stream e ''wf.tasks.hitl'' (handleApprovalRequest e)"

definition processNextResponse :: "env \<Rightarrow> gval smap \<Rightarrow> nat \<Rightarrow> (nat \<times> unit res) io" where
  "processNextResponse e metrics = read_stream e response_stream (handleApprovalResponse e metrics)"

section \<open>What the handlers change\<close>

text \<open>The part of the state the approvals of a run live in: the approval records, the run's count of open approvals, and the signals.
  Run ids are UUIDs; what matters is that they have no colon, so that an approval's key determines run and node.\<close>

definition plain_id :: "string \<Rightarrow> bool" where "plain_id s \<longleftrightarrow> CHR '':'' \<notin> set s"

lemma approval_key_inj:
  assumes "plain_id run" and "plain_id run'"
  shows "approval_key run n = approval_key run' n' \<longleftrightarrow> run = run' \<and> n = n'"
proof
  assume "approval_key run n = approval_key run' n'"
  then have *: "run @ CHR '':'' # n = run' @ CHR '':'' # n'" by (simp add: approval_key_def)
  then have "split_on (CHR '':'') (run @ CHR '':'' # n) = split_on (CHR '':'') (run' @ CHR '':'' # n')" by simp
  then have "run = run'" using assms by (simp add: plain_id_def split_on_append)
  with * show "run = run' \<and> n = n'" by simp
qed simp

lemma hitl_keys [simp]:
  "approval_key r n \<noteq> node_status_key r' n'" "approval_key r n \<noteq> hitl_run_status_key r'"
  "node_status_key r' n' \<noteq> approval_key r n" "hitl_run_status_key r' \<noteq> approval_key r n"
  "run_pending_key r \<noteq> workflow_pending_key u t" "workflow_pending_key u t \<noteq> run_pending_key r"
  "run_pending_key r = run_pending_key r' \<longleftrightarrow> r = r'" "ir_key r \<noteq> approval_key r' n"
  "approval_key r' n \<noteq> ir_key r"
  by (auto simp: approval_key_def node_status_key_def hitl_run_status_key_def run_pending_key_def workflow_pending_key_def ir_key_def)

lemma int_of_add [simp]: "int_of (add_int k d w) k' = int_of w k' + (if k' = k then d else 0)"
  by (simp add: int_of_def add_int_def)

lemma add_int_fields [simp]:
  "r_strs (add_int k d w) = r_strs w" "r_signals (add_int k d w) = r_signals w" "r_tick (add_int k d w) = r_tick w"
  by (simp_all add: add_int_def)

lemma int_of_upd [simp]:
  "int_of (w\<lparr>r_tick := t\<rparr>) = int_of w" "int_of (w\<lparr>r_strs := s\<rparr>) = int_of w" "int_of (w\<lparr>r_signals := g\<rparr>) = int_of w"
  "int_of (w\<lparr>r_streams := x\<rparr>) = int_of w" "int_of (w\<lparr>r_published := p\<rparr>) = int_of w"
  by (simp_all add: int_of_def fun_eq_iff)

lemma publish_frame:
  assumes "reliable e" and "run_state (publishApprovalRequest e run n tag cfg) w = (r, w')"
  shows "r_strs w' = r_strs w \<and> r_signals w' = r_signals w \<and> int_of w' = int_of w"
  using assms
  by (auto simp: publishApprovalRequest_def hitl_loadIR_def run_Get run_PublishEvent
    split: option.splits rstr.splits sum.splits)

text \<open>Opening: nothing changes but the tick and display keys, or the approval is new and is counted.\<close>

lemma handleApprovalRequest_effect:
  assumes e: "reliable e" and run: "run_state (handleApprovalRequest e (ETask tok)) w = (r, w')"
  defines "k \<equiv> approval_key (t_run_id tok) (t_to_node tok)"
  shows "r_signals w' = r_signals w \<and>
    (if r_strs w (ir_key (t_run_id tok)) \<noteq> None \<and> (\<exists>i. r_strs w (ir_key (t_run_id tok)) = Some (RIr i)) \<and> r_strs w k = None
     then (\<exists>m. str_at m ''status'' = ''pending'' \<and> str_at m ''token_id'' = t_id tok
        \<and> (\<forall>x n. r_strs w' (approval_key x n) = (if approval_key x n = k then Some (RDoc (GObj m)) else r_strs w (approval_key x n))))
        \<and> (\<forall>x. int_of w' (run_pending_key x) = int_of w (run_pending_key x) + (if x = t_run_id tok then 1 else 0))
     else (\<forall>x n. r_strs w' (approval_key x n) = r_strs w (approval_key x n))
        \<and> (\<forall>x. int_of w' (run_pending_key x) = int_of w (run_pending_key x)))"
proof (cases "\<exists>i. r_strs w (ir_key (t_run_id tok)) = Some (RIr i)")
  case False
  then have "w' = w\<lparr>r_tick := Suc (r_tick w)\<rparr>"
    using run e by (auto simp: handleApprovalRequest_def hitl_loadIR_def run_Get split: option.splits rstr.splits)
  then show ?thesis using False by simp
next
  case True
  then obtain i where i: "r_strs w (ir_key (t_run_id tok)) = Some (RIr i)" by blast
  let ?w1 = "w\<lparr>r_tick := Suc (Suc (Suc (r_tick w)))\<rparr>"
  define tag where "tag = or_unknown (str_at (ir_metadata i) ''tag'')"
  define usr where "usr = or_unknown (str_at (ir_metadata i) ''username'')"
  define cfg where "cfg = (case t_config tok of None \<Rightarrow> [] | Some c \<Rightarrow> c)"
  define m where "m = approval_doc tok usr tag cfg (unix e (Suc (r_tick w)))"
  let ?wk = "workflow_pending_key usr tag" and ?rk = "run_pending_key (t_run_id tok)"
  have start: "run_state (handleApprovalRequest e (ETask tok)) w =
     (if r_strs w k = None
      then run_state (approval_created e tok tag cfg) (add_int ?rk 1 (add_int ?wk 1 (?w1\<lparr>r_strs := (r_strs w)(k := Some (RDoc (GObj m)))\<rparr>)))
      else run_state (approval_exists e tok usr tag) (add_int ?rk 1 (add_int ?wk 1 ?w1)))"
    using e i by (simp add: handleApprovalRequest_def hitl_loadIR_def run_Get open_approval_def Let_def redis_TxExec_def
      tag_def usr_def cfg_def m_def k_def)
  show ?thesis
  proof (cases "r_strs w k")
    case None
    let ?w2 = "add_int ?rk 1 (add_int ?wk 1 (?w1\<lparr>r_strs := (r_strs w)(k := Some (RDoc (GObj m)))\<rparr>))"
    let ?w3 = "?w2\<lparr>r_tick := Suc (r_tick ?w2), r_strs := (r_strs ?w2)(node_status_key (t_run_id tok) (t_to_node tok) := Some (RText ''waiting_for_approval''))\<rparr>"
    let ?w4 = "?w3\<lparr>r_tick := Suc (r_tick ?w3), r_strs := (r_strs ?w3)(hitl_run_status_key (t_run_id tok) := Some (RText ''WAITING_FOR_APPROVAL''))\<rparr>"
    obtain x where x: "run_state (publishApprovalRequest e (t_run_id tok) (t_to_node tok) tag cfg) ?w4 = (x, w')"
      using run start None e by (auto simp: approval_created_def run_Set split: prod.splits)
    have f: "r_strs w' = r_strs ?w4" "r_signals w' = r_signals ?w4" "int_of w' = int_of ?w4" using publish_frame [OF e x] by simp_all
    have "str_at m ''status'' = ''pending''" "str_at m ''token_id'' = t_id tok"
      by (simp_all add: m_def approval_doc_def str_at_def mget_def)
    then show ?thesis using None i by (auto simp: f intro!: exI [of _ m])
  next
    case (Some v)
    then have "run_state (approval_exists e tok usr tag) (add_int ?rk 1 (add_int ?wk 1 ?w1)) = (r, w')" using run start by simp
    then have "w' = add_int ?rk (- 1) ((add_int ?wk (- 1) ((add_int ?rk 1 (add_int ?wk 1 ?w1))\<lparr>r_tick := Suc (r_tick ?w1)\<rparr>))\<lparr>r_tick := Suc (Suc (r_tick ?w1))\<rparr>)"
      using e by (simp add: approval_exists_def redis_Decrement_def)
    then show ?thesis using Some by simp
  qed
qed

lemma run_retries:
  assumes "reliable e"
  shows "\<exists>t. run_state (get_with_retries e key n) w =
    ((case r_strs w key of None \<Rightarrow> Inl (''key not found: '' @ key) | Some v \<Rightarrow> Inr v), w\<lparr>r_tick := t\<rparr>)"
proof (induction n arbitrary: w)
  case 0
  then show ?case using assms by (auto simp: run_Get)
next
  case (Suc n)
  show ?case
  proof (cases "r_strs w key")
    case None
    obtain t where "run_state (get_with_retries e key n) (w\<lparr>r_tick := Suc (r_tick w)\<rparr>) = (Inl (''key not found: '' @ key), w\<lparr>r_tick := t\<rparr>)"
      using Suc [of "w\<lparr>r_tick := Suc (r_tick w)\<rparr>"] None by auto
    then show ?thesis using None assms by (simp add: run_Get) blast
  next
    case (Some v)
    then show ?thesis using assms by (simp add: run_Get) blast
  qed
qed

definition verdict_text :: "bool \<Rightarrow> string" where "verdict_text approved = (if approved then ''approved'' else ''rejected'')"

lemma verdict_text_pending [simp]: "verdict_text approved \<noteq> ''pending''"
  by (simp add: verdict_text_def)

lemma decided_status: "str_at (decided_doc m approved t) ''status'' = verdict_text approved"
  by (simp add: decided_doc_def str_at_def mget_def update_conv' verdict_text_def)

lemma decide_effect:
  assumes e: "reliable e" and ids: "run \<noteq> ''''" "n \<noteq> ''''" and tok: "str_at m ''token_id'' \<noteq> ''''"
    and run: "run_state (decide e metrics run n approved tag0 m) w = (r, w')"
  shows "r = Inr () \<and> (\<exists>m' sig. str_at m' ''status'' = verdict_text approved \<and> cs_run_id sig = run \<and> cs_node_id sig = n \<and> r_signals w' = r_signals w @ [sig]
    \<and> (\<forall>x y. r_strs w' (approval_key x y) = (if approval_key x y = approval_key run n then Some (RDoc (GObj m')) else r_strs w (approval_key x y)))
    \<and> (\<forall>x. int_of w' (run_pending_key x) = int_of w (run_pending_key x) - (if x = run then 1 else 0)))"
proof -
  let ?o = "\<lambda>t. decision_opts (str_at m ''token_id'') run n approved m metrics t"
  let ?t = "unix e (Suc (r_tick w))"
  let ?sig = "completion_of (bare_token (str_at m ''token_id'') run n) (?o ?t)"
  have v: "validate_opts (?o t) = None" "co_token (?o t) = Some (bare_token (str_at m ''token_id'') run n)" for t
    using ids tok by (simp_all add: validate_opts_def decision_opts_def bare_token_def)
  have "r = Inr () \<and> (\<exists>t2. r_strs w' = (r_strs w)(approval_key run n := Some (RDoc (GObj (decided_doc m approved t2))),
        node_status_key run n := Some (RText ''completed'')) \<and> r_signals w' = r_signals w @ [?sig]
      \<and> (\<forall>x. int_of w' (run_pending_key x) = int_of w (run_pending_key x) - (if x = run then 1 else 0)))"
    using run e tok v by (auto simp: decide_def Let_def redis_TxExec_def SignalCompletion_def run_Set)
  then obtain t2 where t2: "r = Inr ()" "r_strs w' = (r_strs w)(approval_key run n := Some (RDoc (GObj (decided_doc m approved t2))),
        node_status_key run n := Some (RText ''completed''))" "r_signals w' = r_signals w @ [?sig]"
      "\<forall>x. int_of w' (run_pending_key x) = int_of w (run_pending_key x) - (if x = run then 1 else 0)" by blast
  have "cs_run_id ?sig = run" "cs_node_id ?sig = n" by (simp_all add: completion_of_def bare_token_def)
  then show ?thesis using t2 decided_status by (intro conjI exI [of _ "decided_doc m approved t2"] exI [of _ ?sig]) auto
qed

text \<open>A response acts on an open approval only.\<close>

definition open_at :: "world \<Rightarrow> string \<Rightarrow> string \<Rightarrow> bool" where
  "open_at w run n \<longleftrightarrow> (\<exists>m. r_strs w (approval_key run n) = Some (RDoc (GObj m)) \<and> str_at m ''status'' = ''pending'')"

lemma handleApprovalResponse_effect:
  assumes e: "reliable e" and run: "run_state (handleApprovalResponse e metrics (EApproval a)) w = (r, w')"
  defines "rn \<equiv> str_at a ''run_id''" and "n \<equiv> str_at a ''node_id''"
  shows "(r_strs w' = r_strs w \<and> int_of w' = int_of w \<and> r_signals w' = r_signals w)
    \<or> (open_at w rn n \<and> rn \<noteq> '''' \<and> (\<exists>m' sig. str_at m' ''status'' \<noteq> ''pending'' \<and> cs_run_id sig = rn \<and> cs_node_id sig = n \<and> r_signals w' = r_signals w @ [sig]
      \<and> (\<forall>x y. r_strs w' (approval_key x y) = (if approval_key x y = approval_key rn n then Some (RDoc (GObj m')) else r_strs w (approval_key x y)))
      \<and> (\<forall>x. int_of w' (run_pending_key x) = int_of w (run_pending_key x) - (if x = rn then 1 else 0))))"
proof (cases "rn = '''' \<or> n = ''''")
  case True
  then show ?thesis using run by (auto simp: handleApprovalResponse_def Let_def rn_def n_def)
next
  case False
  obtain t where t: "run_state (get_with_retries e (approval_key rn n) 3) w =
      ((case r_strs w (approval_key rn n) of None \<Rightarrow> Inl (''key not found: '' @ approval_key rn n) | Some v \<Rightarrow> Inr v), w\<lparr>r_tick := t\<rparr>)"
    using run_retries [OF e] by blast
  have h: "run_state (handleApprovalResponse e metrics (EApproval a)) w =
     (case r_strs w (approval_key rn n) of
        Some (RDoc (GObj m)) \<Rightarrow>
          if str_at m ''status'' \<noteq> ''pending'' then (Inr (), w\<lparr>r_tick := t\<rparr>)
          else run_state (decide e metrics rn n (bool_at a ''approved'') (str_at a ''workflow_tag'') m) (w\<lparr>r_tick := t\<rparr>)
      | Some _ \<Rightarrow> (Inl ''failed to unmarshal approval data: '', w\<lparr>r_tick := t\<rparr>)
      | None \<Rightarrow> (Inl (''failed to load approval after retries: '' @ ''key not found: '' @ approval_key rn n), w\<lparr>r_tick := t\<rparr>))"
    using False t by (auto simp: handleApprovalResponse_def Let_def rn_def n_def split: option.split rstr.split gval.split)
  show ?thesis
  proof (cases "open_at w rn n")
    case False
    then have "w' = w\<lparr>r_tick := t\<rparr>" using run unfolding h
      by (auto simp: open_at_def split: option.splits rstr.splits gval.splits if_splits)
    then show ?thesis by simp
  next
    case True
    then obtain m where m: "r_strs w (approval_key rn n) = Some (RDoc (GObj m))" "str_at m ''status'' = ''pending''" by (auto simp: open_at_def)
    then have d: "run_state (decide e metrics rn n (bool_at a ''approved'') (str_at a ''workflow_tag'') m) (w\<lparr>r_tick := t\<rparr>) = (r, w')"
      using run unfolding h by simp
    show ?thesis
    proof (cases "str_at m ''token_id'' = ''''")
      case empty: True
      then show ?thesis using d by (auto simp: decide_def Let_def)
    next
      case False
      have ids: "rn \<noteq> ''''" "n \<noteq> ''''" using \<open>\<not> (rn = '''' \<or> n = '''')\<close> by auto
      have upd: "r_strs (w\<lparr>r_tick := t\<rparr>) = r_strs w" "r_signals (w\<lparr>r_tick := t\<rparr>) = r_signals w" by simp_all
      obtain m' sig where x: "str_at m' ''status'' = verdict_text (bool_at a ''approved'')" "cs_run_id sig = rn" "cs_node_id sig = n"
        "r_signals w' = r_signals w @ [sig]"
        "\<forall>x y. r_strs w' (approval_key x y) = (if approval_key x y = approval_key rn n then Some (RDoc (GObj m')) else r_strs w (approval_key x y))"
        "\<forall>x. int_of w' (run_pending_key x) = int_of w (run_pending_key x) - (if x = rn then 1 else 0)"
        using decide_effect [OF e ids False d, unfolded int_of_upd upd] by (elim conjE exE) (rule that)
      moreover have "str_at m' ''status'' \<noteq> ''pending''" using x(1) by simp
      ultimately show ?thesis using True ids(1) by blast
    qed
  qed
qed

lemma HandleApproval_frame:
  assumes "reliable e" and "run_state (HandleApproval e method user body) w = (r, w')"
  shows "r_strs w' = r_strs w \<and> int_of w' = int_of w \<and> r_signals w' = r_signals w"
  using assms by (auto simp: HandleApproval_def run_Get run_AddToStream split: if_splits option.splits rstr.splits gval.splits)

section \<open>The approval protocol\<close>

text \<open>Tokens, decisions and responses in any order and any number of times.\<close>

inductive hitl_step :: "env \<Rightarrow> world \<Rightarrow> world \<Rightarrow> bool" for e where
  token: "plain_id (t_run_id tok) \<Longrightarrow> hitl_step e w (snd (run_state (handleApprovalRequest e (ETask tok)) w))"
| decision: "hitl_step e w (snd (run_state (HandleApproval e method user body) w))"
| response: "plain_id (str_at a ''run_id'') \<Longrightarrow> hitl_step e w (snd (run_state (handleApprovalResponse e metrics (EApproval a)) w))"

definition signals_for :: "world \<Rightarrow> string \<Rightarrow> string \<Rightarrow> nat" where
  "signals_for w run n = length (filter (\<lambda>s. cs_run_id s = run \<and> cs_node_id s = n) (r_signals w))"

definition decided_at :: "world \<Rightarrow> string \<Rightarrow> string \<Rightarrow> bool" where
  "decided_at w run n \<longleftrightarrow> (\<exists>m. r_strs w (approval_key run n) = Some (RDoc (GObj m)) \<and> str_at m ''status'' \<noteq> ''pending'')"

definition open_nodes :: "world \<Rightarrow> string \<Rightarrow> string set" where
  "open_nodes w run = {n. open_at w run n}"

definition hitl_inv :: "world \<Rightarrow> bool" where
  "hitl_inv w \<longleftrightarrow> (\<forall>run. plain_id run \<longrightarrow>
     finite (open_nodes w run) \<and> int_of w (run_pending_key run) = int (card (open_nodes w run))
     \<and> (\<forall>n. signals_for w run n = (if decided_at w run n then 1 else 0)))"

lemma hitl_frame:
  assumes "hitl_inv w" and "\<forall>x n. r_strs w' (approval_key x n) = r_strs w (approval_key x n)"
    and "\<forall>x. int_of w' (run_pending_key x) = int_of w (run_pending_key x)" and "r_signals w' = r_signals w"
  shows "hitl_inv w'"
  using assms by (simp add: hitl_inv_def open_nodes_def open_at_def decided_at_def signals_for_def)

text \<open>A new approval and a closed one.\<close>

lemma hitl_opened:
  assumes inv: "hitl_inv w" and id: "plain_id rn" and none: "r_strs w (approval_key rn n) = None"
    and m: "str_at m ''status'' = ''pending''"
    and strs: "\<forall>x y. r_strs w' (approval_key x y) = (if approval_key x y = approval_key rn n then Some (RDoc (GObj m)) else r_strs w (approval_key x y))"
    and ints: "\<forall>x. int_of w' (run_pending_key x) = int_of w (run_pending_key x) + (if x = rn then 1 else 0)"
    and sigs: "r_signals w' = r_signals w"
  shows "hitl_inv w'"
  unfolding hitl_inv_def
proof (intro allI impI conjI)
  fix run
  assume run: "plain_id run"
  have at: "open_at w' run x \<longleftrightarrow> (run = rn \<and> x = n) \<or> open_at w run x" "decided_at w' run x \<longleftrightarrow> decided_at w run x" for x
    using strs m none approval_key_inj [OF run id] by (auto simp: open_at_def decided_at_def)
  have on: "open_nodes w' run = (if run = rn then insert n (open_nodes w run) else open_nodes w run)"
    by (auto simp: open_nodes_def at)
  have "n \<notin> open_nodes w rn" using none by (simp add: open_nodes_def open_at_def)
  then show "finite (open_nodes w' run)" "int_of w' (run_pending_key run) = int (card (open_nodes w' run))"
    using inv run ints by (auto simp: hitl_inv_def on)
  show "signals_for w' run x = (if decided_at w' run x then 1 else 0)" for x
    using inv run sigs by (simp add: hitl_inv_def signals_for_def at)
qed

lemma hitl_closed:
  assumes inv: "hitl_inv w" and id: "plain_id rn" and op: "open_at w rn n"
    and m: "str_at m ''status'' \<noteq> ''pending''" and sg: "cs_run_id sig = rn" "cs_node_id sig = n"
    and strs: "\<forall>x y. r_strs w' (approval_key x y) = (if approval_key x y = approval_key rn n then Some (RDoc (GObj m)) else r_strs w (approval_key x y))"
    and ints: "\<forall>x. int_of w' (run_pending_key x) = int_of w (run_pending_key x) - (if x = rn then 1 else 0)"
    and sigs: "r_signals w' = r_signals w @ [sig]"
  shows "hitl_inv w'"
  unfolding hitl_inv_def
proof (intro allI impI conjI)
  fix run
  assume run: "plain_id run"
  have at: "open_at w' run x \<longleftrightarrow> \<not> (run = rn \<and> x = n) \<and> open_at w run x" "decided_at w' run x \<longleftrightarrow> (run = rn \<and> x = n) \<or> decided_at w run x" for x
    using strs m approval_key_inj [OF run id] by (auto simp: open_at_def decided_at_def)
  have nd: "\<not> decided_at w rn n" using op by (auto simp: open_at_def decided_at_def)
  have on: "open_nodes w' run = (if run = rn then open_nodes w run - {n} else open_nodes w run)"
    by (auto simp: open_nodes_def at)
  have n: "n \<in> open_nodes w rn" using op by (simp add: open_nodes_def)
  have fin: "finite (open_nodes w run)" and c: "int_of w (run_pending_key run) = int (card (open_nodes w run))"
    using inv run by (auto simp: hitl_inv_def)
  show "finite (open_nodes w' run)" using fin by (auto simp: on)
  show "int_of w' (run_pending_key run) = int (card (open_nodes w' run))"
  proof (cases "run = rn")
    case True
    then have "0 < card (open_nodes w run)" using n fin by (auto simp: card_gt_0_iff)
    moreover have "open_nodes w' run = open_nodes w run - {n}" using on True by simp
    ultimately show ?thesis using True n fin c ints by (simp add: card_Diff_singleton of_nat_diff)
  next
    case False
    then have "open_nodes w' run = open_nodes w run" using on by simp
    then show ?thesis using False c ints by simp
  qed
  show "signals_for w' run x = (if decided_at w' run x then 1 else 0)" for x
    using inv run sigs sg nd by (auto simp: hitl_inv_def signals_for_def at)
qed

lemma hitl_step_inv:
  assumes e: "reliable e" and "hitl_step e w w'" and inv: "hitl_inv w"
  shows "hitl_inv w'"
  using assms(2)
proof cases
  case (token tok)
  then have r: "run_state (handleApprovalRequest e (ETask tok)) w = (fst (run_state (handleApprovalRequest e (ETask tok)) w), w')" by simp
  note eff = handleApprovalRequest_effect [OF e r]
  show ?thesis
  proof (cases "(\<exists>i. r_strs w (ir_key (t_run_id tok)) = Some (RIr i)) \<and> r_strs w (approval_key (t_run_id tok) (t_to_node tok)) = None")
    case True
    then obtain m where "str_at m ''status'' = ''pending''"
      "\<forall>x n. r_strs w' (approval_key x n) = (if approval_key x n = approval_key (t_run_id tok) (t_to_node tok) then Some (RDoc (GObj m)) else r_strs w (approval_key x n))"
      "\<forall>x. int_of w' (run_pending_key x) = int_of w (run_pending_key x) + (if x = t_run_id tok then 1 else 0)" "r_signals w' = r_signals w"
      using eff by (auto split: if_splits)
    with True hitl_opened [OF inv token(2)] show ?thesis by blast
  next
    case False
    then show ?thesis using eff by (intro hitl_frame [OF inv]) (auto split: if_splits)
  qed
next
  case (decision mth user body)
  then have "run_state (HandleApproval e mth user body) w = (fst (run_state (HandleApproval e mth user body) w), w')" by simp
  from HandleApproval_frame [OF e this] show ?thesis by (intro hitl_frame [OF inv]) simp_all
next
  case (response a metrics)
  then have "run_state (handleApprovalResponse e metrics (EApproval a)) w = (fst (run_state (handleApprovalResponse e metrics (EApproval a)) w), w')" by simp
  from handleApprovalResponse_effect [OF e this] show ?thesis
    using hitl_closed [OF inv response(2)] hitl_frame [OF inv] by auto
qed

lemma hitl_reachable_inv: "reliable e \<Longrightarrow> hitl_inv w \<Longrightarrow> (hitl_step e)\<^sup>*\<^sup>* w w' \<Longrightarrow> hitl_inv w'"
  by (rotate_tac 2, induction rule: rtranclp_induct) (blast intro: hitl_step_inv)+

definition no_approvals :: "world \<Rightarrow> bool" where
  "no_approvals w \<longleftrightarrow> (\<forall>run n. r_strs w (approval_key run n) = None) \<and> (\<forall>run. int_of w (run_pending_key run) = 0) \<and> r_signals w = []"

lemma no_approvals_inv: "no_approvals w \<Longrightarrow> hitl_inv w"
  by (simp add: no_approvals_def hitl_inv_def open_nodes_def open_at_def decided_at_def signals_for_def)


definition one_ir :: world where
  "one_ir = empty_world\<lparr>r_strs := (\<lambda>k. if k = ir_key ''r1'' then Some (RIr \<lparr>ir_version = '''', ir_nodes = [], ir_metadata = []\<rparr>) else None)\<rparr>"

lemma one_ir_none: "no_approvals one_ir"
  by (auto simp: no_approvals_def one_ir_def empty_world_def int_of_def)


text \<open>C20. A decision reaches the coordinator: a user's answer to an open approval is accepted and queued, and handling the queued
  message records the verdict and signals the node's completion.\<close>

theorem decision_reaches_coordinator:
  assumes e: "reliable e" and m: "r_strs w (approval_key run n) = Some (RDoc (GObj m))" "str_at m ''status'' = ''pending''"
      "str_at m ''token_id'' \<noteq> ''''"
    and ids: "run \<noteq> ''''" "n \<noteq> ''''" "user \<noteq> ''''" and req: "ap_run_id req = run" "ap_node_id req = n"
  shows "\<exists>w1 x w2 m' sig. run_state (HandleApproval e ''POST'' user (Some req)) w = ((200, ''''), w1)
    \<and> r_streams w1 response_stream = r_streams w response_stream @ [x]
    \<and> run_state (handleApprovalResponse e metrics x) w1 = (Inr (), w2)
    \<and> r_strs w2 (approval_key run n) = Some (RDoc (GObj m')) \<and> str_at m' ''status'' = verdict_text (ap_approved req)
    \<and> r_signals w2 = r_signals w @ [sig] \<and> cs_run_id sig = run \<and> cs_node_id sig = n"
proof -
  define a where "a = [(''run_id'', GStr run), (''node_id'', GStr n), (''approved'', GBool (ap_approved req)),
    (''comment'', GStr (ap_comment req)), (''approved_by'', GStr user), (''approved_at'', GNum (of_int (unix e (Suc (r_tick w))))),
    (''workflow_tag'', mget m ''workflow_tag'')]"
  define w1 where "w1 = w\<lparr>r_tick := Suc (Suc (Suc (r_tick w))), r_streams := (r_streams w)(response_stream := r_streams w response_stream @ [EApproval a])\<rparr>"
  have post: "run_state (HandleApproval e ''POST'' user (Some req)) w = ((200, ''''), w1)"
    using e m ids req by (simp add: HandleApproval_def run_Get run_AddToStream a_def w1_def)
  have a: "str_at a ''run_id'' = run" "str_at a ''node_id'' = n" "bool_at a ''approved'' = ap_approved req"
    by (simp_all add: a_def str_at_def bool_at_def mget_def)
  have m1: "r_strs w1 (approval_key run n) = Some (RDoc (GObj m))" using m by (simp add: w1_def)
  obtain t where t: "run_state (get_with_retries e (approval_key run n) 3) w1 = (Inr (RDoc (GObj m)), w1\<lparr>r_tick := t\<rparr>)"
    using run_retries [OF e, of "approval_key run n" 3 w1] m1 by auto
  obtain r w2 where d: "run_state (decide e metrics run n (ap_approved req) (str_at a ''workflow_tag'') m) (w1\<lparr>r_tick := t\<rparr>) = (r, w2)"
    by fastforce
  have "run_state (handleApprovalResponse e metrics (EApproval a)) w1 = (r, w2)"
    using t d ids m a by (simp add: handleApprovalResponse_def Let_def)
  moreover note decide_effect [OF e ids(1,2) m(3) d]
  moreover have "r_signals w1 = r_signals w" "r_streams w1 response_stream = r_streams w response_stream @ [EApproval a]"
    by (simp_all add: w1_def)
  ultimately show ?thesis using post by auto
qed

definition waiting_world :: world where
  "waiting_world = empty_world\<lparr>r_strs := (\<lambda>k. if k = approval_key ''r1'' ''a'' then
     Some (RDoc (GObj [(''token_id'', GStr ''t1''), (''status'', GStr ''pending'')])) else None)\<rparr>"

theorem decision_reaches_coordinator_witness:
  "\<exists>w1 x w2 m'. run_state (HandleApproval calm_env ''POST'' ''bob''
        (Some \<lparr>ap_run_id = ''r1'', ap_node_id = ''a'', ap_approved = False, ap_comment = '''', ap_data = []\<rparr>)) waiting_world = ((200, ''''), w1)
    \<and> run_state (handleApprovalResponse calm_env [] x) w1 = (Inr (), w2)
    \<and> r_strs w2 (approval_key ''r1'' ''a'') = Some (RDoc (GObj m')) \<and> str_at m' ''status'' = ''rejected'' \<and> length (r_signals w2) = 1"
proof -
  let ?m = "[(''token_id'', GStr ''t1''), (''status'', GStr ''pending'')]"
  have m: "r_strs waiting_world (approval_key ''r1'' ''a'') = Some (RDoc (GObj ?m))" "r_signals waiting_world = []"
    by (simp_all add: waiting_world_def empty_world_def)
  have s: "str_at ?m ''status'' = ''pending''" "str_at ?m ''token_id'' \<noteq> ''''" by (simp_all add: str_at_def mget_def)
  from decision_reaches_coordinator [OF reliable_calm m(1) s, of "''bob''"
      "\<lparr>ap_run_id = ''r1'', ap_node_id = ''a'', ap_approved = False, ap_comment = '''', ap_data = []\<rparr>" "[]"]
  show ?thesis using m(2) by (fastforce simp: verdict_text_def)
qed

text \<open>A decided node is never asked again: another token for the node (a loop that comes back to it) changes no approval, opens
  none and gives no signal, so the run waits for a completion that never comes.\<close>

theorem decided_node_not_asked_again:
  assumes "reliable e" and "decided_at w (t_run_id tok) (t_to_node tok)"
    and "run_state (handleApprovalRequest e (ETask tok)) w = (r, w')"
  shows "r_signals w' = r_signals w \<and> (\<forall>x n. r_strs w' (approval_key x n) = r_strs w (approval_key x n))
    \<and> (\<forall>x. int_of w' (run_pending_key x) = int_of w (run_pending_key x))"
  using handleApprovalRequest_effect [OF assms(1,3)] assms(2) by (auto simp: decided_at_def split: if_splits)

theorem decided_node_not_asked_again_witness:
  "\<exists>w. decided_at w ''r1'' ''a'' \<and>
     r_signals (snd (run_state (handleApprovalRequest calm_env (ETask (bare_token ''t2'' ''r1'' ''a''))) w)) = r_signals w"
proof -
  define w where "w = waiting_world\<lparr>r_strs := (\<lambda>k. Some (RDoc (GObj [(''status'', GStr ''approved'')])))\<rparr>"
  let ?t = "bare_token ''t2'' ''r1'' ''a''"
  have ids: "t_run_id ?t = ''r1''" "t_to_node ?t = ''a''" by (simp_all add: bare_token_def)
  have d: "decided_at w ''r1'' ''a''" by (simp add: decided_at_def w_def str_at_def mget_def)
  then have d': "decided_at w (t_run_id ?t) (t_to_node ?t)" by (simp only: ids)
  from decided_node_not_asked_again [OF reliable_calm d', of "fst (run_state (handleApprovalRequest calm_env (ETask ?t)) w)"
      "snd (run_state (handleApprovalRequest calm_env (ETask ?t)) w)"] d
  show ?thesis by auto
qed

end
