(* ===== verification/Stream_Groups.thy ===== *)
theory Stream_Groups
  imports Http_Worker Hitl_Worker
begin

text \<open>
  Consumer groups: how the services share a Redis stream. The commands are those of \<open>common/redis/client.go\<close> (\<open>CreateStreamGroup\<close>,
  \<open>ReadFromStreamGroup\<close>, \<open>AckStreamMessage\<close>); the consumers are the http worker, the HITL worker, the executor's reader of run requests and
  the reader of status updates, whose loops have the same body. The rest of the client (lists, hash fields, pipelines, results of a transaction) is here too.

  A group has the position of its next entry and the entries that were delivered and not acknowledged. The services read with the id \<open>>\<close> only: an
  entry is delivered once. A consumer takes an entry, handles it and acknowledges it; several consumers do so in any order, and one may
  die at any point (a restarted one has a new name).

  The lemmas show that the readers with a cursor of the other theories are readers of a group, that an entry is handled at most once and lost
  only by a death, and that what is lost stays lost.
\<close>

section \<open>The commands\<close>

record stream_group =
  gr_next :: nat
  gr_pending :: "(nat \<times> string) list"

record grouped =
  gd_world :: world
  gd_groups :: "string \<times> string \<Rightarrow> stream_group option"
  gd_lists :: "string \<Rightarrow> string list"

definition on_world :: "'a io \<Rightarrow> (grouped, 'a) state" where
  "on_world m = State (\<lambda>s. case run_state m (gd_world s) of (a, w) \<Rightarrow> (a, s\<lparr>gd_world := w\<rparr>))"

definition set_group :: "string \<Rightarrow> string \<Rightarrow> stream_group \<Rightarrow> (grouped, unit) state" where
  "set_group stream grp g = State_Monad.update (\<lambda>s. s\<lparr>gd_groups := (gd_groups s)((stream, grp) := Some g)\<rparr>)"

text \<open>\<open>XGROUP CREATE ... 0 MKSTREAM\<close>; that the group exists already is not an error.\<close>

definition create_group :: "env \<Rightarrow> string \<Rightarrow> string \<Rightarrow> (grouped, bool) state" where
  "create_group e stream grp = do {
     ok \<leftarrow> on_world (attempt e (OpExec ''XGROUP CREATE''));
     s \<leftarrow> State_Monad.get;
     _ \<leftarrow> (if ok \<and> gd_groups s (stream, grp) = None then set_group stream grp \<lparr>gr_next = 0, gr_pending = []\<rparr> else State_Monad.return ());
     State_Monad.return ok}"

definition CreateStreamGroup :: "env \<Rightarrow> string \<Rightarrow> string \<Rightarrow> (grouped, unit res) state" where
  "CreateStreamGroup e stream grp = do {
     ok \<leftarrow> create_group e stream grp;
     State_Monad.return (if ok then Inr () else Inl (''failed to create consumer group '' @ grp @ '': ''))}"

text \<open>\<open>XREADGROUP ... >\<close>: at most \<open>n\<close> entries from the group's position on, with their ids. Without an entry the client returns an empty result.\<close>

definition ReadFromStreamGroup :: "env \<Rightarrow> string \<Rightarrow> string \<Rightarrow> string \<Rightarrow> nat \<Rightarrow> (grouped, (nat \<times> entry) list res) state" where
  "ReadFromStreamGroup e grp consumer stream n = do {
     ok \<leftarrow> on_world (attempt e (OpExec ''XREADGROUP''));
     s \<leftarrow> State_Monad.get;
     (case (ok, gd_groups s (stream, grp)) of
        (True, Some g) \<Rightarrow>
          (let es = take n (drop (gr_next g) (r_streams (gd_world s) stream)); ids = [gr_next g ..< gr_next g + length es] in do {
             _ \<leftarrow> set_group stream grp \<lparr>gr_next = gr_next g + length es, gr_pending = gr_pending g @ map (\<lambda>i. (i, consumer)) ids\<rparr>;
             State_Monad.return (Inr (zip ids es))})
      | _ \<Rightarrow> State_Monad.return (Inl (''failed to read from stream '' @ stream @ '': '')))}"

definition AckStreamMessage :: "env \<Rightarrow> string \<Rightarrow> string \<Rightarrow> nat \<Rightarrow> (grouped, unit res) state" where
  "AckStreamMessage e stream grp i = do {
     ok \<leftarrow> on_world (attempt e (OpExec ''XACK''));
     s \<leftarrow> State_Monad.get;
     (if \<not> ok then State_Monad.return (Inl ''failed to ack message: '')
      else do {
        _ \<leftarrow> (case gd_groups s (stream, grp) of None \<Rightarrow> State_Monad.return ()
           | Some g \<Rightarrow> set_group stream grp (g\<lparr>gr_pending := filter (\<lambda>(j, c). j \<noteq> i) (gr_pending g)\<rparr>));
        State_Monad.return (Inr ())})}"

text \<open>One turn of a consumer: an error of the handler or of the acknowledgement is only logged.\<close>

fun handle_messages :: "env \<Rightarrow> string \<Rightarrow> string \<Rightarrow> (entry \<Rightarrow> 'a io) \<Rightarrow> (nat \<times> entry) list \<Rightarrow> (grouped, unit) state" where
  "handle_messages e stream grp h [] = State_Monad.return ()"
| "handle_messages e stream grp h ((i, x) # ms) = do {
     _ \<leftarrow> on_world (h x);
     _ \<leftarrow> AckStreamMessage e stream grp i;
     handle_messages e stream grp h ms}"

definition consumer_turn :: "env \<Rightarrow> string \<Rightarrow> string \<Rightarrow> string \<Rightarrow> (entry \<Rightarrow> 'a io) \<Rightarrow> (grouped, unit res) state" where
  "consumer_turn e stream grp consumer h = do {
     r \<leftarrow> ReadFromStreamGroup e grp consumer stream 1;
     (case r of Inl err \<Rightarrow> State_Monad.return (Inl (''XREADGROUP error: '' @ err))
      | Inr ms \<Rightarrow> do {_ \<leftarrow> handle_messages e stream grp h ms; State_Monad.return (Inr ())})}"

text \<open>The life of a consumer until its context is done after \<open>n\<close> turns; a failing turn is logged and followed by a pause.\<close>

fun consumer_loop :: "env \<Rightarrow> string \<Rightarrow> string \<Rightarrow> string \<Rightarrow> (entry \<Rightarrow> 'a io) \<Rightarrow> nat \<Rightarrow> (grouped, unit) state" where
  "consumer_loop e stream grp consumer h 0 = State_Monad.return ()"
| "consumer_loop e stream grp consumer h (Suc n) = do {
     _ \<leftarrow> consumer_turn e stream grp consumer h;
     consumer_loop e stream grp consumer h n}"

definition consumer_Start :: "env \<Rightarrow> string \<Rightarrow> string \<Rightarrow> string \<Rightarrow> (entry \<Rightarrow> 'a io) \<Rightarrow> nat \<Rightarrow> (grouped, unit res) state" where
  "consumer_Start e stream grp consumer h n = do {
     ok \<leftarrow> create_group e stream grp;
     if ok then do {_ \<leftarrow> consumer_loop e stream grp consumer h n; State_Monad.return (Inr ())}
     else State_Monad.return (Inl ''failed to create consumer group: '')}"

text \<open>The start of the HITL worker: both groups are there before its two loops run.\<close>

definition hitl_Start :: "env \<Rightarrow> (grouped, unit res) state" where
  "hitl_Start e = do {
     r \<leftarrow> CreateStreamGroup e ''wf.tasks.hitl'' ''hitl_request_workers'';
     (case r of Inl err \<Rightarrow> State_Monad.return (Inl (''failed to create request consumer group: '' @ err))
      | Inr _ \<Rightarrow> do {
          q \<leftarrow> CreateStreamGroup e response_stream ''hitl_response_workers'';
          State_Monad.return (case q of Inl err \<Rightarrow> Inl (''failed to create response consumer group: '' @ err) | Inr _ \<Rightarrow> Inr ())})}"

section \<open>Lists, hash fields, pipelines and results of a transaction\<close>

text \<open>\<open>RPUSH\<close>, and \<open>BLPOP\<close>: the first element of the first list with one, or nothing when the time is over.\<close>

definition PushToList :: "env \<Rightarrow> string \<Rightarrow> string list \<Rightarrow> (grouped, unit res) state" where
  "PushToList e key vs = do {
     ok \<leftarrow> on_world (attempt e (OpRPush key));
     if \<not> ok then State_Monad.return (Inl (''failed to rpush to '' @ key @ '': ''))
     else do {
       State_Monad.update (\<lambda>s. s\<lparr>gd_lists := (gd_lists s)(key := gd_lists s key @ vs)\<rparr>);
       State_Monad.return (Inr ())}}"

definition BlockingPopList :: "env \<Rightarrow> string list \<Rightarrow> (grouped, (string \<times> string) option res) state" where
  "BlockingPopList e keys = do {
     ok \<leftarrow> on_world (attempt e (OpExec ''BLPOP''));
     s \<leftarrow> State_Monad.get;
     if \<not> ok then State_Monad.return (Inl ''failed to blpop: '')
     else (case filter (\<lambda>k. gd_lists s k \<noteq> []) keys of
         [] \<Rightarrow> State_Monad.return (Inr None)
       | k # _ \<Rightarrow> do {
           State_Monad.set (s\<lparr>gd_lists := (gd_lists s)(k := tl (gd_lists s k))\<rparr>);
           State_Monad.return (Inr (Some (k, hd (gd_lists s k))))})}"

text \<open>A list is a FIFO queue: what is pushed comes out after everything that was there.\<close>

fun pop_all :: "env \<Rightarrow> string \<Rightarrow> nat \<Rightarrow> (grouped, string list) state" where
  "pop_all e key 0 = State_Monad.return []"
| "pop_all e key (Suc n) = do {
     r \<leftarrow> BlockingPopList e [key];
     vs \<leftarrow> pop_all e key n;
     State_Monad.return ((case r of Inr (Some (k, v)) \<Rightarrow> [v] | _ \<Rightarrow> []) @ vs)}"

lemma pop_all_list:
  "reliable e \<Longrightarrow> length (gd_lists s key) \<le> n \<Longrightarrow> fst (run_state (pop_all e key n) s) = gd_lists s key"
proof (induction n arbitrary: s)
  case (Suc n)
  then show ?case
    by (cases "gd_lists s key") (auto simp: BlockingPopList_def on_world_def reliable_def case_prod_unfold)
qed simp

lemma pushed_list_popped:
  assumes "reliable e" and "run_state (PushToList e key vs) s = (r, s')" and "length (gd_lists s key) + length vs \<le> n"
  shows "fst (run_state (pop_all e key n) s') = gd_lists s key @ vs"
  using pop_all_list [OF assms(1), of s' key n] assms by (auto simp: PushToList_def on_world_def reliable_def)

definition redis_SetWithExpiry :: "env \<Rightarrow> string \<Rightarrow> rstr \<Rightarrow> unit res io" where
  "redis_SetWithExpiry e key v = do {
     ok \<leftarrow> attempt e (OpSet key);
     if \<not> ok then State_Monad.return (Inl (''failed to set key '' @ key @ '': ''))
     else do {
       State_Monad.update (\<lambda>w. w\<lparr>r_strs := (r_strs w)(key := Some v)\<rparr>);
       State_Monad.return (Inr ())}}"

definition redis_GetHash :: "env \<Rightarrow> string \<Rightarrow> string \<Rightarrow> string res io" where
  "redis_GetHash e key field = do {
     ok \<leftarrow> attempt e (OpHGet key);
     w \<leftarrow> State_Monad.get;
     State_Monad.return (if \<not> ok then Inl (''failed to get hash '' @ key @ '' field '' @ field @ '': '')
       else case map_of (r_hash w key) field of None \<Rightarrow> Inl (''field not found: '' @ key @ ''.'' @ field) | Some v \<Rightarrow> Inr v)}"

definition redis_SetHash :: "env \<Rightarrow> string \<Rightarrow> string \<Rightarrow> string \<Rightarrow> unit res io" where
  "redis_SetHash e key field v = do {
     ok \<leftarrow> attempt e (OpHSet key);
     if \<not> ok then State_Monad.return (Inl (''failed to set hash '' @ key @ '' field '' @ field @ '': ''))
     else do {
       State_Monad.update (\<lambda>w. w\<lparr>r_hash := (r_hash w)(key := AList.update field v (r_hash w key))\<rparr>);
       State_Monad.return (Inr ())}}"

definition redis_Increment :: "env \<Rightarrow> string \<Rightarrow> int res io" where
  "redis_Increment e key = do {
     ok \<leftarrow> attempt e (OpExec (''INCR '' @ key));
     w \<leftarrow> State_Monad.get;
     if \<not> ok then State_Monad.return (Inl (''failed to increment key '' @ key @ '': ''))
     else do {
       State_Monad.set (add_int key 1 w);
       State_Monad.return (Inr (int_of w key + 1))}}"

datatype pipe_cmd = PipeSet string rstr | PipeXAdd string entry | PipePublish string gval

fun pipe_step :: "pipe_cmd \<Rightarrow> world \<Rightarrow> world" where
  "pipe_step (PipeSet key v) w = w\<lparr>r_strs := (r_strs w)(key := Some v)\<rparr>"
| "pipe_step (PipeXAdd stream x) w = w\<lparr>r_streams := (r_streams w)(stream := r_streams w stream @ [x])\<rparr>"
| "pipe_step (PipePublish channel m) w = w\<lparr>r_published := r_published w @ [(channel, m)]\<rparr>"

text \<open>\<open>Exec\<close> sends the queued commands in one round trip; without commands there is none.\<close>

definition redis_PipeExec :: "env \<Rightarrow> pipe_cmd list \<Rightarrow> unit res io" where
  "redis_PipeExec e cmds = (if cmds = [] then State_Monad.return (Inr ())
     else do {
       ok \<leftarrow> attempt e (OpPipe ''EXEC'');
       if \<not> ok then State_Monad.return (Inl ''failed to execute pipeline: '')
       else do {
         State_Monad.update (fold pipe_step cmds);
         State_Monad.return (Inr ())}})"

text \<open>The labels under which a transaction keeps its commands; the replies are those of \<open>redis_TxExec\<close>.\<close>

fun tx_label :: "tx_cmd \<Rightarrow> string" where
  "tx_label (TxSetNX key v) = ''setnx_'' @ key"
| "tx_label (TxIncr key) = ''incr_'' @ key"
| "tx_label (TxDecr key) = ''decr_'' @ key"

definition tx_results :: "tx_cmd list \<Rightarrow> tx_reply list \<Rightarrow> string \<Rightarrow> tx_reply option" where
  "tx_results cmds rs = map_of (rev (zip (map tx_label cmds) rs))"

definition GetBoolResult :: "(string \<Rightarrow> tx_reply option) \<Rightarrow> string \<Rightarrow> bool res" where
  "GetBoolResult rs label = (case rs label of None \<Rightarrow> Inl (''command with label '' @ label @ '' not found'')
     | Some (TBool b) \<Rightarrow> Inr b | Some _ \<Rightarrow> Inl (''command '' @ label @ '' is not a BoolCmd''))"

definition GetIntResult :: "(string \<Rightarrow> tx_reply option) \<Rightarrow> string \<Rightarrow> int res" where
  "GetIntResult rs label = (case rs label of None \<Rightarrow> Inl (''command with label '' @ label @ '' not found'')
     | Some (TInt i) \<Rightarrow> Inr i | Some _ \<Rightarrow> Inl (''command '' @ label @ '' is not an IntCmd''))"

section \<open>Readers with a cursor are readers of a group\<close>

text \<open>What the loops of the services have in common: a command \<open>XREADGROUP\<close>, the handler on the next entry, a command \<open>XACK\<close>.\<close>

locale cursor_reader =
  fixes e :: env and stream :: string and h :: "entry \<Rightarrow> 'a io" and turn :: "nat \<Rightarrow> (nat \<times> 'r) io" and failed :: "'r \<Rightarrow> bool"
  assumes read_fails: "fault e (r_tick w) (OpExec ''XREADGROUP'')
      \<Longrightarrow> \<exists>r. run_state (turn i) w = ((i, r), w\<lparr>r_tick := Suc (r_tick w)\<rparr>) \<and> failed r"
    and no_entry: "\<not> fault e (r_tick w) (OpExec ''XREADGROUP'') \<Longrightarrow> length (r_streams w stream) \<le> i
      \<Longrightarrow> \<exists>r. run_state (turn i) w = ((i, r), w\<lparr>r_tick := Suc (r_tick w)\<rparr>) \<and> \<not> failed r"
    and one_entry: "\<not> fault e (r_tick w) (OpExec ''XREADGROUP'') \<Longrightarrow> i < length (r_streams w stream)
      \<Longrightarrow> run_state (h (r_streams w stream ! i)) (w\<lparr>r_tick := Suc (r_tick w)\<rparr>) = (a, w1)
      \<Longrightarrow> \<exists>r. run_state (turn i) w = ((Suc i, r), w1\<lparr>r_tick := Suc (r_tick w1)\<rparr>) \<and> \<not> failed r"
begin

text \<open>A turn of the reader and a turn of a consumer whose group is at the cursor do the same to the world, and the group is at the new cursor afterwards.\<close>

lemma turn_of_group:
  assumes "gd_groups s (stream, grp) = Some g" and "run_state (turn (gr_next g)) (gd_world s) = ((i, r), w)"
  shows "\<exists>x s' g'. run_state (consumer_turn e stream grp consumer h) s = (x, s') \<and> gd_world s' = w \<and> gd_groups s' (stream, grp) = Some g'
    \<and> gr_next g' = i \<and> (isl x \<longleftrightarrow> failed r)"
proof -
  let ?w = "gd_world s" and ?i = "gr_next g"
  consider (fails) "fault e (r_tick ?w) (OpExec ''XREADGROUP'')"
    | (none) "\<not> fault e (r_tick ?w) (OpExec ''XREADGROUP'')" "length (r_streams ?w stream) \<le> ?i"
    | (one) "\<not> fault e (r_tick ?w) (OpExec ''XREADGROUP'')" "?i < length (r_streams ?w stream)" by linarith
  then show ?thesis
  proof cases
    case fails
    then show ?thesis using read_fails [OF fails, of ?i] assms
      by (simp add: consumer_turn_def ReadFromStreamGroup_def on_world_def)
  next
    case none
    then show ?thesis using no_entry [OF none] assms
      by (simp add: consumer_turn_def ReadFromStreamGroup_def on_world_def set_group_def Let_def)
  next
    case one
    obtain a w1 where a: "run_state (h (r_streams ?w stream ! ?i)) (?w\<lparr>r_tick := Suc (r_tick ?w)\<rparr>) = (a, w1)"
      by (cases "run_state (h (r_streams ?w stream ! ?i)) (?w\<lparr>r_tick := Suc (r_tick ?w)\<rparr>)")
    have t: "take (Suc 0) (drop ?i (r_streams ?w stream)) = [r_streams ?w stream ! ?i]" using one(2) by (simp add: take_Suc_conv_app_nth)
    show ?thesis using one_entry [OF one a] assms one a
      by (auto simp: consumer_turn_def ReadFromStreamGroup_def AckStreamMessage_def on_world_def set_group_def Let_def t split: if_splits)
  qed
qed

end

interpretation status_reader: cursor_reader e status_stream "handleMessage e" "processNextMessage e" isl for e
  by unfold_locales (auto simp: processNextMessage_def)

interpretation request_reader: cursor_reader e request_stream "handleRunRequest e base" "processRunRequest e base" isl for e base
  by unfold_locales (auto simp: processRunRequest_def)

interpretation http_reader: cursor_reader e "''wf.tasks.http''" "http_handleMessage e web" "http_processNextMessage e web" "isl \<circ> fst" for e web
  by unfold_locales (auto simp: http_processNextMessage_def)

interpretation approval_reader: cursor_reader e "''wf.tasks.hitl''" "handleApprovalRequest e" "processNextRequest e" isl for e
  by unfold_locales (auto simp: processNextRequest_def read_stream_def)

interpretation decision_reader: cursor_reader e response_stream "handleApprovalResponse e metrics" "processNextResponse e metrics" isl for e metrics
  by unfold_locales (auto simp: processNextResponse_def read_stream_def)

section \<open>A single consumer\<close>

definition stays_in :: "string \<Rightarrow> (entry \<Rightarrow> 'a io) \<Rightarrow> bool" where
  "stays_in stream h \<longleftrightarrow> (\<forall>x w. r_streams (snd (run_state (h x) w)) stream = r_streams w stream)"

lemma turn_advances:
  assumes "reliable e" and "stays_in stream h" and "gd_groups s (stream, grp) = Some \<lparr>gr_next = i, gr_pending = []\<rparr>"
    and "run_state (consumer_turn e stream grp consumer h) s = (r, s')"
  shows "gd_groups s' (stream, grp) = Some \<lparr>gr_next = min (Suc i) (max i (length (r_streams (gd_world s) stream))), gr_pending = []\<rparr>
    \<and> r_streams (gd_world s') stream = r_streams (gd_world s) stream"
proof -
  let ?w = "gd_world s"
  obtain a w1 where a: "run_state (h (r_streams ?w stream ! i)) (?w\<lparr>r_tick := Suc (r_tick ?w)\<rparr>) = (a, w1)"
    by (cases "run_state (h (r_streams ?w stream ! i)) (?w\<lparr>r_tick := Suc (r_tick ?w)\<rparr>)")
  have w1: "r_streams w1 stream = r_streams ?w stream"
    using assms(2) a unfolding stays_in_def by (metis snd_conv world.select_convs(7) world.surjective world.update_convs(1))
  have t: "take (Suc 0) (drop i (r_streams ?w stream)) = (if i < length (r_streams ?w stream) then [r_streams ?w stream ! i] else [])"
    by (simp add: take_Suc_conv_app_nth)
  show ?thesis using assms(1,3,4) a w1
    by (auto simp: consumer_turn_def ReadFromStreamGroup_def AckStreamMessage_def on_world_def set_group_def Let_def t reliable_def split: if_splits)
qed

lemma loop_advances:
  assumes "reliable e" and "stays_in stream h"
  shows "gd_groups s (stream, grp) = Some \<lparr>gr_next = i, gr_pending = []\<rparr> \<Longrightarrow> i \<le> length (r_streams (gd_world s) stream)
    \<Longrightarrow> run_state (consumer_loop e stream grp consumer h n) s = (r, s')
    \<Longrightarrow> gd_groups s' (stream, grp) = Some \<lparr>gr_next = min (i + n) (length (r_streams (gd_world s) stream)), gr_pending = []\<rparr>"
proof (induction n arbitrary: i s)
  case (Suc n)
  obtain x s1 where x: "run_state (consumer_turn e stream grp consumer h) s = (x, s1)" by (cases "run_state (consumer_turn e stream grp consumer h) s")
  have l: "run_state (consumer_loop e stream grp consumer h n) s1 = (r, s')" using Suc.prems(3) x by simp
  note t = turn_advances [OF assms Suc.prems(1) x]
  show ?case
  proof (cases "i < length (r_streams (gd_world s) stream)")
    case True
    then show ?thesis using Suc.IH [of s1 "Suc i"] t l by simp
  next
    case False
    then show ?thesis using Suc.IH [of s1 i] t l Suc.prems(2) by simp
  qed
qed auto

text \<open>A consumer drains its stream. If no command fails and handling an entry does not change the stream, a consumer whose group is new has handled and acknowledged
  every entry after as many turns as there are entries.\<close>

theorem consumer_drains_stream:
  assumes "reliable e" and "stays_in stream h" and "gd_groups s (stream, grp) = None" and "length (r_streams (gd_world s) stream) \<le> n"
    and "run_state (consumer_Start e stream grp consumer h n) s = (r, s')"
  shows "gd_groups s' (stream, grp) = Some \<lparr>gr_next = length (r_streams (gd_world s) stream), gr_pending = []\<rparr>"
proof -
  let ?s = "s\<lparr>gd_world := (gd_world s)\<lparr>r_tick := Suc (r_tick (gd_world s))\<rparr>, gd_groups := (gd_groups s)((stream, grp) := Some \<lparr>gr_next = 0, gr_pending = []\<rparr>)\<rparr>"
  obtain x where "run_state (consumer_loop e stream grp consumer h n) ?s = (x, s')"
    using assms(1,3,5) by (auto simp: consumer_Start_def create_group_def on_world_def set_group_def reliable_def split: prod.splits)
  from loop_advances [OF assms(1,2) _ _ this, of 0] show ?thesis using assms(4) by simp
qed

lemma status_stays: "stays_in stream (handleMessage e)"
  by (auto simp: stays_in_def handleMessage_def UpdateStatus_def split: entry.split prod.split if_splits option.split)

theorem consumer_drains_stream_witness:
  "\<exists>r s'. run_state (consumer_Start calm_env status_stream ''status_updaters'' ''c'' (handleMessage calm_env) 1)
      \<lparr>gd_world = empty_world\<lparr>r_streams := (\<lambda>_. [EStatus ''r'' ''RUNNING''])\<rparr>, gd_groups = (\<lambda>_. None), gd_lists = (\<lambda>_. [])\<rparr> = (r, s')
    \<and> gd_groups s' (status_stream, ''status_updaters'') = Some \<lparr>gr_next = 1, gr_pending = []\<rparr>"
proof -
  let ?s = "\<lparr>gd_world = empty_world\<lparr>r_streams := (\<lambda>_. [EStatus ''r'' ''RUNNING''])\<rparr>, gd_groups = (\<lambda>_. None), gd_lists = (\<lambda>_. [])\<rparr>"
  let ?m = "consumer_Start calm_env status_stream ''status_updaters'' ''c'' (handleMessage calm_env) 1"
  obtain r s' where "run_state ?m ?s = (r, s')" by (cases "run_state ?m ?s")
  then show ?thesis using consumer_drains_stream [OF reliable_calm status_stays, of ?s status_stream "''status_updaters''" 1 "''c''"] by simp
qed

section \<open>Several consumers of a group\<close>

text \<open>Where a consumer is in its turn: it reads, holds an entry, has handled one, or is dead.\<close>

datatype phase = Idle | Got nat | Handled nat | Dead

record fleet =
  fl_store :: grouped
  fl_phase :: "string \<Rightarrow> phase"
  fl_handled :: "nat list" \<comment> \<open>the entries handled so far\<close>

definition reads :: "nat list \<Rightarrow> phase" where
  "reads ids = (case ids of [] \<Rightarrow> Idle | i # _ \<Rightarrow> Got i)"

text \<open>The steps: the stream grows (by a producer or by a handler), a consumer reads, handles, acknowledges, dies. The handler's work on the rest of the
  world is a step in which the stream grows, or does not.\<close>

inductive fleet_step :: "env \<Rightarrow> string \<Rightarrow> string \<Rightarrow> fleet \<Rightarrow> fleet \<Rightarrow> bool" for e stream grp where
  grow: "prefix (r_streams (gd_world (fl_store f)) stream) (r_streams w stream)
    \<Longrightarrow> fleet_step e stream grp f (f\<lparr>fl_store := (fl_store f)\<lparr>gd_world := w\<rparr>\<rparr>)"
| read: "fl_phase f c = Idle \<Longrightarrow> run_state (ReadFromStreamGroup e grp c stream 1) (fl_store f) = (Inr ms, s)
    \<Longrightarrow> fleet_step e stream grp f (f\<lparr>fl_store := s, fl_phase := (fl_phase f)(c := reads (map fst ms))\<rparr>)"
| handle: "fl_phase f c = Got i
    \<Longrightarrow> fleet_step e stream grp f (f\<lparr>fl_phase := (fl_phase f)(c := Handled i), fl_handled := fl_handled f @ [i]\<rparr>)"
| ack: "fl_phase f c = Handled i \<Longrightarrow> run_state (AckStreamMessage e stream grp i) (fl_store f) = (r, s)
    \<Longrightarrow> fleet_step e stream grp f (f\<lparr>fl_store := s, fl_phase := (fl_phase f)(c := Idle)\<rparr>)"
| die: "fleet_step e stream grp f (f\<lparr>fl_phase := (fl_phase f)(c := Dead)\<rparr>)"

definition group_in :: "string \<Rightarrow> string \<Rightarrow> fleet \<Rightarrow> stream_group option" where
  "group_in stream grp f = gd_groups (fl_store f) (stream, grp)"

definition stream_in :: "string \<Rightarrow> fleet \<Rightarrow> entry list" where
  "stream_in stream f = r_streams (gd_world (fl_store f)) stream"

text \<open>An entry is lost if it was delivered, is not handled and no living consumer holds it.\<close>

definition lost :: "string \<Rightarrow> string \<Rightarrow> fleet \<Rightarrow> nat \<Rightarrow> bool" where
  "lost stream grp f i \<longleftrightarrow> (\<exists>g. group_in stream grp f = Some g \<and> i < gr_next g) \<and> i \<notin> set (fl_handled f) \<and> (\<forall>c. fl_phase f c \<noteq> Got i)"

text \<open>The invariant, in terms of the group's position \<open>n\<close>, its pending entries \<open>P\<close>, the handled entries \<open>H\<close>, the phases and the length of the stream.\<close>

definition inv_at :: "nat \<Rightarrow> nat set \<Rightarrow> nat list \<Rightarrow> (string \<Rightarrow> phase) \<Rightarrow> nat \<Rightarrow> bool" where
  "inv_at n P H ph L \<longleftrightarrow> n \<le> L \<and> distinct H \<and> (\<forall>i \<in> set H. i < n)
     \<and> (\<forall>c i. ph c = Got i \<longrightarrow> i < n \<and> i \<notin> set H \<and> i \<in> P) \<and> (\<forall>c d i. ph c = Got i \<longrightarrow> ph d = Got i \<longrightarrow> c = d)
     \<and> (\<forall>c i. ph c = Handled i \<longrightarrow> i \<in> set H) \<and> (\<forall>i < n. i \<notin> set H \<longrightarrow> (\<forall>c. ph c \<noteq> Got i) \<longrightarrow> i \<in> P \<and> (\<exists>c. ph c = Dead))"

lemma inv_at_grow: "inv_at n P H ph L \<Longrightarrow> L \<le> L' \<Longrightarrow> inv_at n P H ph L'"
  by (auto simp: inv_at_def)

lemma inv_at_read:
  assumes "inv_at n P H ph L" and "n < L" and "ph c = Idle"
  shows "inv_at (Suc n) (insert n P) H (ph(c := Got n)) L"
proof -
  have "i \<in> insert n P \<and> (\<exists>d. (ph(c := Got n)) d = Dead)" if t: "i < Suc n" "i \<notin> set H" "\<forall>d. (ph(c := Got n)) d \<noteq> Got i" for i
  proof -
    have "i \<noteq> n" using that(3) [rule_format, of c] by simp
    moreover have "ph d \<noteq> Got i" for d using that(3) [rule_format, of d] assms(3) by (cases "d = c") auto
    ultimately obtain d where d: "i \<in> P" "ph d = Dead" using assms(1) t(1,2) unfolding inv_at_def less_Suc_eq by blast
    then have "d \<noteq> c" using assms(3) by auto
    then show ?thesis using d by (auto intro!: exI [of _ d])
  qed
  then show ?thesis using assms unfolding inv_at_def by (auto simp: less_Suc_eq)
qed

lemma inv_at_handle:
  assumes "inv_at n P H ph L" and "ph c = Got i"
  shows "inv_at n P (H @ [i]) (ph(c := Handled i)) L"
proof -
  have "j \<in> P \<and> (\<exists>d. (ph(c := Handled i)) d = Dead)" if t: "j < n" "j \<notin> set (H @ [i])" "\<forall>d. (ph(c := Handled i)) d \<noteq> Got j" for j
  proof -
    have "ph d \<noteq> Got j" for d using that(2) that(3) [rule_format, of d] assms(2) by (cases "d = c") auto
    then obtain d where d: "j \<in> P" "ph d = Dead" using assms(1) t(1,2) unfolding inv_at_def by auto
    then have "d \<noteq> c" using assms(2) by auto
    then show ?thesis using d by (auto intro!: exI [of _ d])
  qed
  then show ?thesis using assms unfolding inv_at_def by auto
qed

lemma inv_at_ack:
  assumes "inv_at n P H ph L" and "ph c = Handled i" and "P \<subseteq> insert i P'"
  shows "inv_at n P' H (ph(c := Idle)) L"
proof -
  have h: "i \<in> set H" using assms(1,2) by (auto simp: inv_at_def)
  have "j \<in> P' \<and> (\<exists>d. (ph(c := Idle)) d = Dead)" if t: "j < n" "j \<notin> set H" "\<forall>d. (ph(c := Idle)) d \<noteq> Got j" for j
  proof -
    have "ph d \<noteq> Got j" for d using that(3) [rule_format, of d] assms(2) by (cases "d = c") auto
    then obtain d where d: "j \<in> P" "ph d = Dead" using assms(1) t(1,2) unfolding inv_at_def by blast
    then have "d \<noteq> c" using assms(2) by auto
    then show ?thesis using d h that(2) assms(3) by (auto intro!: exI [of _ d])
  qed
  moreover have "k \<in> P'" if "ph d = Got k" for d k using assms(1,3) h that unfolding inv_at_def by blast
  ultimately show ?thesis using assms unfolding inv_at_def by auto
qed

lemma inv_at_die:
  assumes "inv_at n P H ph L"
  shows "inv_at n P H (ph(c := Dead)) L"
proof -
  have "j \<in> P" if t: "j < n" "j \<notin> set H" "\<forall>d. (ph(c := Dead)) d \<noteq> Got j" for j
  proof (cases "ph c = Got j")
    case True
    then show ?thesis using assms unfolding inv_at_def by blast
  next
    case False
    then have "ph d \<noteq> Got j" for d using that(3) [rule_format, of d] by (cases "d = c") auto
    then show ?thesis using assms that(1,2) unfolding inv_at_def by blast
  qed
  then show ?thesis using assms unfolding inv_at_def by auto
qed

definition fleet_inv :: "string \<Rightarrow> string \<Rightarrow> fleet \<Rightarrow> bool" where
  "fleet_inv stream grp f \<longleftrightarrow> (\<exists>g. group_in stream grp f = Some g
     \<and> inv_at (gr_next g) (fst ` set (gr_pending g)) (fl_handled f) (fl_phase f) (length (stream_in stream f)))"

text \<open>What the commands do to a group.\<close>

lemma read_one:
  assumes "run_state (ReadFromStreamGroup e grp c stream 1) s = (Inr ms, s')" and "gd_groups s (stream, grp) = Some g"
  shows "r_streams (gd_world s') stream = r_streams (gd_world s) stream"
    "if gr_next g < length (r_streams (gd_world s) stream)
     then map fst ms = [gr_next g] \<and> gd_groups s' (stream, grp) = Some \<lparr>gr_next = Suc (gr_next g), gr_pending = gr_pending g @ [(gr_next g, c)]\<rparr>
     else ms = [] \<and> gd_groups s' (stream, grp) = Some g"
proof -
  have "take (Suc 0) (drop i xs) = (if i < length xs then [xs ! i] else [])" for i and xs :: "entry list" by (simp add: take_Suc_conv_app_nth)
  then show "r_streams (gd_world s') stream = r_streams (gd_world s) stream"
    "if gr_next g < length (r_streams (gd_world s) stream)
     then map fst ms = [gr_next g] \<and> gd_groups s' (stream, grp) = Some \<lparr>gr_next = Suc (gr_next g), gr_pending = gr_pending g @ [(gr_next g, c)]\<rparr>
     else ms = [] \<and> gd_groups s' (stream, grp) = Some g"
    using assms by (auto simp: ReadFromStreamGroup_def on_world_def set_group_def Let_def split: bool.splits if_splits)
qed

lemma ack_one:
  assumes "run_state (AckStreamMessage e stream grp i) s = (r, s')" and "gd_groups s (stream, grp) = Some g"
  shows "r_streams (gd_world s') stream = r_streams (gd_world s) stream \<and> (\<exists>g'. gd_groups s' (stream, grp) = Some g' \<and> gr_next g' = gr_next g
     \<and> fst ` set (gr_pending g') \<subseteq> fst ` set (gr_pending g) \<and> fst ` set (gr_pending g) \<subseteq> insert i (fst ` set (gr_pending g')))"
  using assms by (auto simp: AckStreamMessage_def on_world_def set_group_def image_iff split: if_splits) force+

lemma fleet_inv_step:
  assumes "fleet_step e stream grp f f'" and "fleet_inv stream grp f"
  shows "fleet_inv stream grp f'"
proof -
  from assms(2) obtain g where g: "gd_groups (fl_store f) (stream, grp) = Some g"
    and inv: "inv_at (gr_next g) (fst ` set (gr_pending g)) (fl_handled f) (fl_phase f) (length (stream_in stream f))"
    unfolding fleet_inv_def group_in_def by blast
  from assms(1) show ?thesis
  proof cases
    case (grow w)
    then show ?thesis using g inv_at_grow [OF inv] by (simp add: fleet_inv_def group_in_def stream_in_def prefix_length_le)
  next
    case (read c ms s)
    note r = read_one [OF read(3) g]
    show ?thesis
    proof (cases "gr_next g < length (stream_in stream f)")
      case True
      then show ?thesis using r read(1) inv_at_read [OF inv True read(2)] by (simp add: fleet_inv_def group_in_def stream_in_def reads_def)
    next
      case False
      have "(fl_phase f)(c := Idle) = fl_phase f" using read(2) by auto
      then show ?thesis using r read(1) inv False by (simp add: fleet_inv_def group_in_def stream_in_def reads_def)
    qed
  next
    case (handle c i)
    then show ?thesis using g inv_at_handle [OF inv handle(2)] by (simp add: fleet_inv_def group_in_def stream_in_def)
  next
    case (ack c i r s)
    obtain g' where "gd_groups s (stream, grp) = Some g'" "gr_next g' = gr_next g" "fst ` set (gr_pending g) \<subseteq> insert i (fst ` set (gr_pending g'))"
      "r_streams (gd_world s) stream = stream_in stream f" using ack_one [OF ack(3) g] by (auto simp: stream_in_def)
    then show ?thesis using ack(1) inv_at_ack [OF inv ack(2)] by (simp add: fleet_inv_def group_in_def stream_in_def)
  next
    case (die c)
    then show ?thesis using g inv_at_die [OF inv, of c] by (simp add: fleet_inv_def group_in_def stream_in_def)
  qed
qed

text \<open>A fleet at the start: the group was just made, and every consumer is about to read.\<close>

definition fresh_fleet :: "string \<Rightarrow> string \<Rightarrow> fleet \<Rightarrow> bool" where
  "fresh_fleet stream grp f \<longleftrightarrow> group_in stream grp f = Some \<lparr>gr_next = 0, gr_pending = []\<rparr> \<and> (\<forall>c. fl_phase f c = Idle) \<and> fl_handled f = []"

lemma fresh_fleet_inv: "fresh_fleet stream grp f \<Longrightarrow> fleet_inv stream grp f"
  by (auto simp: fresh_fleet_def fleet_inv_def inv_at_def)

lemma fleet_inv_steps: "(fleet_step e stream grp)\<^sup>*\<^sup>* f f' \<Longrightarrow> fleet_inv stream grp f \<Longrightarrow> fleet_inv stream grp f'"
  by (induction rule: rtranclp_induct) (auto intro: fleet_inv_step)


lemma lost_step:
  assumes "fleet_step e stream grp f f'" and "fleet_inv stream grp f" and "lost stream grp f i"
  shows "lost stream grp f' i"
proof -
  from assms(3) obtain g where g: "gd_groups (fl_store f) (stream, grp) = Some g" and i: "i < gr_next g" "i \<notin> set (fl_handled f)" "\<forall>c. fl_phase f c \<noteq> Got i"
    by (auto simp: lost_def group_in_def)
  from assms(1) show ?thesis
  proof cases
    case (read c ms s)
    then show ?thesis using read_one [OF read(3) g] i by (auto simp: lost_def group_in_def reads_def split: if_splits)
  next
    case (ack c j r s)
    then show ?thesis using ack_one [OF ack(3) g] i by (auto simp: lost_def group_in_def)
  qed (use g i in \<open>auto simp: lost_def group_in_def\<close>)
qed

text \<open>What is lost stays lost. No service claims the pending entries of a consumer that died: once an entry is lost, no later step of any consumer handles it.\<close>

theorem lost_entry_stays_lost:
  assumes "fresh_fleet stream grp f0" and "(fleet_step e stream grp)\<^sup>*\<^sup>* f0 f" and "lost stream grp f i" and "(fleet_step e stream grp)\<^sup>*\<^sup>* f f'"
  shows "lost stream grp f' i \<and> i \<notin> set (fl_handled f')"
proof -
  have "fleet_inv stream grp f" using fleet_inv_steps [OF assms(2)] fresh_fleet_inv [OF assms(1)] by blast
  from assms(4) this assms(3) have "fleet_inv stream grp f' \<and> lost stream grp f' i"
    by (induction rule: rtranclp_induct) (auto intro: fleet_inv_step lost_step)
  then show ?thesis by (simp add: lost_def)
qed

text \<open>One entry that a consumer takes and dies over.\<close>

definition fleet0 :: fleet where
  "fleet0 = \<lparr>fl_store = \<lparr>gd_world = empty_world\<lparr>r_streams := (\<lambda>_. [EStatus ''r'' ''RUNNING''])\<rparr>, gd_groups = (\<lambda>_. Some \<lparr>gr_next = 0, gr_pending = []\<rparr>), gd_lists = (\<lambda>_. [])\<rparr>,
     fl_phase = (\<lambda>_. Idle), fl_handled = []\<rparr>"

definition fleet1 :: fleet where
  "fleet1 = fleet0\<lparr>fl_store := snd (run_state (ReadFromStreamGroup calm_env ''g'' ''c'' ''s'' 1) (fl_store fleet0)), fl_phase := (fl_phase fleet0)(''c'' := Got 0)\<rparr>"

definition fleet2 :: fleet where
  "fleet2 = fleet1\<lparr>fl_phase := (fl_phase fleet1)(''c'' := Dead)\<rparr>"

lemma fleet0_fresh: "fresh_fleet ''s'' ''g'' fleet0"
  by (simp add: fresh_fleet_def fleet0_def group_in_def)

lemma fleet1_step: "fleet_step calm_env ''s'' ''g'' fleet0 fleet1"
proof -
  have r: "run_state (ReadFromStreamGroup calm_env ''g'' ''c'' ''s'' 1) (fl_store fleet0) = (Inr [(0, EStatus ''r'' ''RUNNING'')], fl_store fleet1)"
    by (simp add: fleet0_def fleet1_def ReadFromStreamGroup_def on_world_def set_group_def Let_def empty_world_def)
  have "fleet1 = fleet0\<lparr>fl_store := fl_store fleet1, fl_phase := (fl_phase fleet0)(''c'' := reads (map fst [(0, EStatus ''r'' ''RUNNING'')]))\<rparr>"
    by (simp add: fleet1_def reads_def)
  then show ?thesis using fleet_step.read [OF _ r] by (simp add: fleet0_def)
qed

lemma fleet2_step: "fleet_step calm_env ''s'' ''g'' fleet1 fleet2"
  unfolding fleet2_def by (rule fleet_step.die)

lemma fleet2_steps: "(fleet_step calm_env ''s'' ''g'')\<^sup>*\<^sup>* fleet0 fleet2"
  using fleet1_step fleet2_step by (meson rtranclp.rtrancl_into_rtrancl rtranclp.rtrancl_refl)

lemma fleet2_lost: "lost ''s'' ''g'' fleet2 0"
  by (simp add: lost_def fleet2_def fleet1_def fleet0_def group_in_def ReadFromStreamGroup_def on_world_def set_group_def Let_def empty_world_def)


theorem lost_entry_stays_lost_witness:
  "0 \<notin> set (fl_handled (fleet2\<lparr>fl_phase := (fl_phase fleet2)(''d'' := Dead)\<rparr>))"
proof -
  have "(fleet_step calm_env ''s'' ''g'')\<^sup>*\<^sup>* fleet2 (fleet2\<lparr>fl_phase := (fl_phase fleet2)(''d'' := Dead)\<rparr>)" by (rule r_into_rtranclp) (rule fleet_step.die)
  from lost_entry_stays_lost [OF fleet0_fresh fleet2_steps fleet2_lost this] show ?thesis by simp
qed

end
