(* ===== verification/Database.thy ===== *)
theory Database
  imports Resolver
begin

text \<open>
  The orchestrator's tables (\<open>common/models\<close>, the schema under \<open>migrations\<close>), the content store kept in
  them (\<open>common/repository/cas_blob.go\<close>, \<open>cmd/orchestrator/service/cas.go\<close>) and the artifact
  catalogue with its patch chains (\<open>common/repository/artifact.go\<close>,
  \<open>cmd/orchestrator/service/artifact.go\<close>).

  A table is the list of its rows in insertion order. A repository function issues one SQL statement;
  \<open>query\<close> runs it: the statement takes a tick, fails as the environment says (the transaction is then rolled back) or
  evaluates on the tables, where the constraints of the schema decide about the error. The text of a
  driver error, the clock, the random ids, SHA-256, the JSON parser and the json-patch library come from the
  environment; \<open>json_text\<close> of \<open>Resolver\<close> is the text that \<open>json.Marshal\<close> writes. A result without \<open>ORDER BY\<close>
  picks a row the environment chooses.
\<close>

section \<open>Tables\<close>

datatype artifact_kind = KindDAGVersion | KindPatchSet | KindRunManifest | KindRunSnapshot

record cas_blob =
  cb_id :: string
  cb_media_type :: string
  cb_size :: nat
  cb_content :: string
  cb_storage_url :: "string option"
  cb_created_at :: int

record artifact =
  ar_id :: string
  ar_kind :: artifact_kind
  ar_cas_id :: string
  ar_name :: "string option"
  ar_plan_hash :: "string option"
  ar_version_hash :: "string option"
  ar_base_version :: "string option"
  ar_depth :: "int option"
  ar_op_count :: "int option"
  ar_nodes_count :: "int option"
  ar_edges_count :: "int option"
  ar_compacted_from :: "string option"
  ar_meta :: "gval smap"
  ar_created_by :: string
  ar_created_at :: int

record tag =
  tg_username :: string
  tg_name :: string
  tg_target_kind :: artifact_kind
  tg_target_id :: string
  tg_target_hash :: "string option"
  tg_version :: int
  tg_created_by :: "string option"
  tg_moved_by :: "string option"
  tg_moved_at :: int

record tag_move =
  tm_id :: int
  tm_username :: string
  tm_tag_name :: string
  tm_from_kind :: "artifact_kind option"
  tm_from_id :: "string option"
  tm_to_kind :: artifact_kind
  tm_to_id :: string
  tm_expected_hash :: "string option"
  tm_moved_by :: "string option"
  tm_moved_at :: int

record chain_member =
  pc_head :: string
  pc_seq :: nat
  pc_member :: string

record run_patch =
  rp_id :: string
  rp_run_id :: string
  rp_artifact_id :: string
  rp_seq :: int
  rp_node_id :: "string option"
  rp_description :: "string option"
  rp_created_at :: int
  rp_created_by :: "string option"

record run =
  rn_id :: string
  rn_base_kind :: string
  rn_base_ref :: string
  rn_tags_snapshot :: "string smap"
  rn_status :: string
  rn_submitted_by :: "string option"
  rn_submitted_at :: int

record db =
  d_tick :: nat
  d_blobs :: "cas_blob list"
  d_artifacts :: "artifact list"
  d_tags :: "tag list"
  d_moves :: "tag_move list"
  d_chain :: "chain_member list"
  d_run_patches :: "run_patch list"
  d_run_rows :: "run list"

definition empty_db :: db where
  "empty_db = \<lparr>d_tick = 0, d_blobs = [], d_artifacts = [], d_tags = [], d_moves = [], d_chain = [], d_run_patches = [], d_run_rows = []\<rparr>"

section \<open>The environment\<close>

record dbenv =
  db_fault :: "nat \<Rightarrow> string option"
  db_text :: "string \<Rightarrow> string" \<comment> \<open>the driver's text for a violated constraint\<close>
  db_now :: "nat \<Rightarrow> int"
  db_time_text :: "int \<Rightarrow> string" \<comment> \<open>RFC 3339\<close>
  db_uuid :: "nat \<Rightarrow> string"
  db_pick :: "nat \<Rightarrow> nat"
  db_sha256 :: "string \<Rightarrow> string"
  db_num :: "rat \<Rightarrow> string"
  db_parse :: "string \<Rightarrow> gval res" \<comment> \<open>json.Unmarshal into an interface\<close>
  jp_decode :: "string \<Rightarrow> gval res"
  jp_apply :: "gval \<Rightarrow> string \<Rightarrow> string res"

definition marshal :: "dbenv \<Rightarrow> gval \<Rightarrow> string" where
  "marshal e = json_text (db_num e)"

type_synonym 'a dbio = "(db, 'a) state"

definition query :: "dbenv \<Rightarrow> (db \<Rightarrow> string + ('a \<times> db)) \<Rightarrow> 'a res dbio" where
  "query e q = State (\<lambda>d. let d1 = d\<lparr>d_tick := Suc (d_tick d)\<rparr> in
     case db_fault e (d_tick d) of Some msg \<Rightarrow> (Inl msg, d1)
     | None \<Rightarrow> (case q d of Inl msg \<Rightarrow> (Inl msg, d1) | Inr (a, d2) \<Rightarrow> (Inr a, d2\<lparr>d_tick := Suc (d_tick d)\<rparr>)))"

definition reading :: "(nat \<Rightarrow> 'a) \<Rightarrow> 'a dbio" where
  "reading f = State (\<lambda>d. (f (d_tick d), d\<lparr>d_tick := Suc (d_tick d)\<rparr>))"

text \<open>\<open>check m msg f\<close> is the idiom \<open>x, err := m; if err != nil { return fmt.Errorf(msg + "%w", err) }\<close>
  followed by \<open>f x\<close>.\<close>

definition check :: "'a res dbio \<Rightarrow> string \<Rightarrow> ('a \<Rightarrow> 'b res dbio) \<Rightarrow> 'b res dbio" where
  "check m msg f = State_Monad.bind m (\<lambda>r. case r of Inl x \<Rightarrow> State_Monad.return (Inl (msg @ x)) | Inr a \<Rightarrow> f a)"

definition ok :: "'a \<Rightarrow> 'a res dbio" where "ok a = State_Monad.return (Inr a)"

definition fail :: "string \<Rightarrow> 'a res dbio" where "fail msg = State_Monad.return (Inl msg)"

definition no_rows :: string where "no_rows = ''no rows in result set''"

definition select_one :: "dbenv \<Rightarrow> (db \<Rightarrow> 'a option) \<Rightarrow> 'a res dbio" where
  "select_one e f = query e (\<lambda>d. case f d of None \<Rightarrow> Inl no_rows | Some x \<Rightarrow> Inr (x, d))"

definition select :: "dbenv \<Rightarrow> (db \<Rightarrow> 'a) \<Rightarrow> 'a res dbio" where
  "select e f = query e (\<lambda>d. Inr (f d, d))"

definition select_limit :: "dbenv \<Rightarrow> int \<Rightarrow> (db \<Rightarrow> 'a list) \<Rightarrow> 'a list res dbio" where
  "select_limit e limit f = query e (\<lambda>d. if limit < 0 then Inl (db_text e ''LIMIT'') else Inr (take (nat limit) (f d), d))"

section \<open>The content store\<close>

definition find_blob :: "db \<Rightarrow> string \<Rightarrow> cas_blob option" where
  "find_blob d i = find (\<lambda>b. cb_id b = i) (d_blobs d)"

definition blob_Create :: "dbenv \<Rightarrow> cas_blob \<Rightarrow> unit res dbio" where
  "blob_Create e b = check
     (query e (\<lambda>d. Inr ((), if find_blob d (cb_id b) = None then d\<lparr>d_blobs := d_blobs d @ [b]\<rparr> else d)))
     ''failed to create CAS blob: '' ok"

definition blob_GetByID :: "dbenv \<Rightarrow> string \<Rightarrow> cas_blob res dbio" where
  "blob_GetByID e i = check (select_one e (\<lambda>d. find_blob d i)) ''failed to get CAS blob: '' ok"

definition blob_Exists :: "dbenv \<Rightarrow> string \<Rightarrow> bool res dbio" where
  "blob_Exists e i = check (select e (\<lambda>d. find_blob d i \<noteq> None)) ''failed to check CAS blob existence: '' ok"

definition blob_GetContentByID :: "dbenv \<Rightarrow> string \<Rightarrow> string res dbio" where
  "blob_GetContentByID e i = check (select_one e (\<lambda>d. map_option cb_content (find_blob d i))) ''failed to get CAS blob content: '' ok"

definition blob_GetContentBulk :: "dbenv \<Rightarrow> string list \<Rightarrow> string smap res dbio" where
  "blob_GetContentBulk e is = (if is = [] then ok [] else check
     (select e (\<lambda>d. map (\<lambda>b. (cb_id b, cb_content b)) (filter (\<lambda>b. cb_id b \<in> set is) (d_blobs d))))
     ''failed to get CAS blob contents in bulk: '' ok)"

definition blob_ListByMediaType :: "dbenv \<Rightarrow> string \<Rightarrow> int \<Rightarrow> cas_blob list res dbio" where
  "blob_ListByMediaType e media limit = check
     (select_limit e limit (\<lambda>d. sort_key (\<lambda>b. - cb_created_at b) (filter (\<lambda>b. cb_media_type b = media) (d_blobs d))))
     ''failed to list CAS blobs: '' ok"

definition ComputeHash :: "dbenv \<Rightarrow> string \<Rightarrow> string" where
  "ComputeHash e content = ''sha256:'' @ db_sha256 e content"

definition StoreContent :: "dbenv \<Rightarrow> string \<Rightarrow> string \<Rightarrow> string res dbio" where
  "StoreContent e content media = (let casID = ComputeHash e content in
     check (blob_Exists e casID) ''failed to check existence: '' (\<lambda>exists.
     if exists then ok casID
     else State_Monad.bind (reading (db_now e)) (\<lambda>t.
       check (blob_Create e \<lparr>cb_id = casID, cb_media_type = media, cb_size = length content, cb_content = content,
                cb_storage_url = None, cb_created_at = t\<rparr>) ''failed to store content: '' (\<lambda>_. ok casID))))"

definition GetContent :: "dbenv \<Rightarrow> string \<Rightarrow> string res dbio" where
  "GetContent e casID = check (blob_GetContentByID e casID) ''failed to get content: '' ok"

definition GetContentBulk :: "dbenv \<Rightarrow> string list \<Rightarrow> string smap res dbio" where
  "GetContentBulk e casIDs = (if casIDs = [] then ok []
     else check (blob_GetContentBulk e casIDs) ''failed to get bulk content: '' ok)"

definition GetBlob :: "dbenv \<Rightarrow> string \<Rightarrow> cas_blob res dbio" where
  "GetBlob e casID = check (blob_GetByID e casID) ''failed to get blob: '' ok"

definition cas_Exists :: "dbenv \<Rightarrow> string \<Rightarrow> bool res dbio" where
  "cas_Exists e casID = blob_Exists e casID"

section \<open>The artifact catalogue\<close>

definition find_artifact :: "db \<Rightarrow> string \<Rightarrow> artifact option" where
  "find_artifact d i = find (\<lambda>a. ar_id a = i) (d_artifacts d)"

text \<open>The constraints of the tables \<open>artifact\<close> and \<open>patch_chain_member\<close>: the name of a violated one.\<close>

definition missing :: "db \<Rightarrow> string option \<Rightarrow> bool" where
  "missing d r = (case r of None \<Rightarrow> False | Some i \<Rightarrow> find_artifact d i = None)"

definition negative :: "int option \<Rightarrow> bool" where
  "negative n = (case n of None \<Rightarrow> False | Some k \<Rightarrow> k < 0)"

definition artifact_violation :: "db \<Rightarrow> artifact \<Rightarrow> string option" where
  "artifact_violation d a =
    (if ar_kind a = KindRunSnapshot \<and> ar_plan_hash a = None then Some ''artifact_plan_hash_check''
     else if ar_kind a \<in> {KindDAGVersion, KindRunSnapshot} \<and> ar_version_hash a = None then Some ''artifact_version_hash_check''
     else if ar_kind a = KindPatchSet \<and> (ar_base_version a = None \<or> ar_depth a = None) then Some ''artifact_patch_depth_check''
     else if negative (ar_depth a) then Some ''artifact_depth_check''
     else if negative (ar_op_count a) then Some ''artifact_op_count_check''
     else if negative (ar_nodes_count a) then Some ''artifact_nodes_count_check''
     else if negative (ar_edges_count a) then Some ''artifact_edges_count_check''
     else if find_artifact d (ar_id a) \<noteq> None then Some ''artifact_pkey''
     else if ar_kind a = KindRunSnapshot \<and> (\<exists>x \<in> set (d_artifacts d). ar_kind x = KindRunSnapshot \<and> ar_plan_hash x = ar_plan_hash a)
       then Some ''idx_artifact_plan_hash''
     else if find_blob d (ar_cas_id a) = None then Some ''artifact_cas_id_fkey''
     else if missing d (ar_base_version a) then Some ''artifact_base_version_fkey''
     else if missing d (ar_compacted_from a) then Some ''artifact_compacted_from_id_fkey''
     else None)"

definition chain_violation :: "db \<Rightarrow> chain_member \<Rightarrow> string option" where
  "chain_violation d r =
    (if pc_seq r = 0 then Some ''patch_chain_member_seq_check''
     else if \<exists>x \<in> set (d_chain d). pc_head x = pc_head r \<and> pc_seq x = pc_seq r then Some ''patch_chain_member_pkey''
     else if \<exists>x \<in> set (d_chain d). pc_head x = pc_head r \<and> pc_member x = pc_member r then Some ''patch_chain_member_head_id_member_id_key''
     else if find_artifact d (pc_head r) = None then Some ''patch_chain_member_head_id_fkey''
     else if find_artifact d (pc_member r) = None then Some ''patch_chain_member_member_id_fkey''
     else None)"

definition art_Create :: "dbenv \<Rightarrow> artifact \<Rightarrow> unit res dbio" where
  "art_Create e a = check
     (query e (\<lambda>d. case artifact_violation d a of Some c \<Rightarrow> Inl (db_text e c)
        | None \<Rightarrow> Inr ((), d\<lparr>d_artifacts := d_artifacts d @ [a]\<rparr>)))
     ''failed to create artifact: '' ok"

definition art_GetByID :: "dbenv \<Rightarrow> string \<Rightarrow> artifact res dbio" where
  "art_GetByID e i = check (select_one e (\<lambda>d. find_artifact d i)) ''failed to get artifact: '' ok"

text \<open>\<open>LIMIT 1\<close> without an order.\<close>

definition any_row :: "dbenv \<Rightarrow> db \<Rightarrow> 'a list \<Rightarrow> 'a option" where
  "any_row e d xs = (if xs = [] then None else Some (xs ! (db_pick e (d_tick d) mod length xs)))"

definition art_GetByVersionHash :: "dbenv \<Rightarrow> string \<Rightarrow> artifact res dbio" where
  "art_GetByVersionHash e h = check
     (select_one e (\<lambda>d. any_row e d (filter (\<lambda>a. ar_version_hash a = Some h) (d_artifacts d))))
     ''failed to get artifact by version hash: '' ok"

definition art_GetByPlanHash :: "dbenv \<Rightarrow> string \<Rightarrow> artifact res dbio" where
  "art_GetByPlanHash e h = check
     (select_one e (\<lambda>d. any_row e d (filter (\<lambda>a. ar_kind a = KindRunSnapshot \<and> ar_plan_hash a = Some h) (d_artifacts d))))
     ''failed to get artifact by plan hash: '' ok"

definition art_ListByKind :: "dbenv \<Rightarrow> artifact_kind \<Rightarrow> int \<Rightarrow> artifact list res dbio" where
  "art_ListByKind e k limit = check
     (select_limit e limit (\<lambda>d. sort_key (\<lambda>a. - ar_created_at a) (filter (\<lambda>a. ar_kind a = k) (d_artifacts d))))
     ''failed to list artifacts: '' ok"

text \<open>The join of the chain rows of a head, in the order of \<open>seq\<close>, with their artifacts.\<close>

definition chain_rows :: "db \<Rightarrow> string \<Rightarrow> chain_member list" where
  "chain_rows d h = sort_key pc_seq (filter (\<lambda>r. pc_head r = h) (d_chain d))"

definition chain_of :: "db \<Rightarrow> string \<Rightarrow> artifact list" where
  "chain_of d h = List.map_filter (\<lambda>r. find_artifact d (pc_member r)) (chain_rows d h)"

definition art_GetPatchChain :: "dbenv \<Rightarrow> string \<Rightarrow> artifact list res dbio" where
  "art_GetPatchChain e h = check (select e (\<lambda>d. chain_of d h)) ''failed to get patch chain: '' ok"

definition art_FindCompactedBase :: "dbenv \<Rightarrow> string \<Rightarrow> artifact option res dbio" where
  "art_FindCompactedBase e p = State_Monad.bind
     (select_one e (\<lambda>d. case sort_key (\<lambda>a. - ar_created_at a)
        (filter (\<lambda>a. ar_kind a = KindDAGVersion \<and> ar_compacted_from a = Some p) (d_artifacts d)) of [] \<Rightarrow> None | a # _ \<Rightarrow> Some a))
     (\<lambda>r. case r of Inl _ \<Rightarrow> ok None | Inr a \<Rightarrow> ok (Some a))"

definition insert_member :: "dbenv \<Rightarrow> chain_member \<Rightarrow> unit res dbio" where
  "insert_member e r = query e (\<lambda>d. case chain_violation d r of Some c \<Rightarrow> Inl (db_text e c)
     | None \<Rightarrow> Inr ((), d\<lparr>d_chain := d_chain d @ [r]\<rparr>))"

primrec insert_members :: "dbenv \<Rightarrow> string \<Rightarrow> nat \<Rightarrow> string list \<Rightarrow> unit res dbio" where
  "insert_members e h i [] = ok ()"
| "insert_members e h i (m # ms) =
     check (insert_member e \<lparr>pc_head = h, pc_seq = i + 1, pc_member = m\<rparr>)
       (''failed to insert patch chain member (seq='' @ show_nat (i + 1) @ ''): '') (\<lambda>_. insert_members e h (i + 1) ms)"

definition InsertPatchChain :: "dbenv \<Rightarrow> string \<Rightarrow> string list \<Rightarrow> unit res dbio" where
  "InsertPatchChain e h members = (if members = [] then ok () else insert_members e h 0 members)"

definition GetCompactionCandidates :: "dbenv \<Rightarrow> int \<Rightarrow> artifact list res dbio" where
  "GetCompactionCandidates e threshold = check
     (select e (\<lambda>d. sort_key (\<lambda>a. case ar_depth a of Some k \<Rightarrow> - k | None \<Rightarrow> 0)
        (filter (\<lambda>a. ar_kind a = KindPatchSet \<and> (case ar_depth a of None \<Rightarrow> False | Some k \<Rightarrow> threshold \<le> k)) (d_artifacts d))))
     ''failed to query compaction candidates: '' ok"

section \<open>The artifact service\<close>

definition new_artifact :: "string \<Rightarrow> artifact_kind \<Rightarrow> string \<Rightarrow> string \<Rightarrow> int \<Rightarrow> artifact" where
  "new_artifact i k casID createdBy t = \<lparr>ar_id = i, ar_kind = k, ar_cas_id = casID, ar_name = None, ar_plan_hash = None,
     ar_version_hash = None, ar_base_version = None, ar_depth = None, ar_op_count = None, ar_nodes_count = None,
     ar_edges_count = None, ar_compacted_from = None, ar_meta = [], ar_created_by = createdBy, ar_created_at = t\<rparr>"

definition CreateDAGVersion :: "dbenv \<Rightarrow> string \<Rightarrow> string \<Rightarrow> string \<Rightarrow> string \<Rightarrow> int \<Rightarrow> int \<Rightarrow> string res dbio" where
  "CreateDAGVersion e casID versionHash name createdBy nodesCount edgesCount = do {
     i \<leftarrow> reading (db_uuid e);
     t \<leftarrow> reading (db_now e);
     check (art_Create e ((new_artifact i KindDAGVersion casID createdBy t)\<lparr>ar_name := Some name,
         ar_version_hash := Some versionHash, ar_nodes_count := Some nodesCount, ar_edges_count := Some edgesCount\<rparr>))
       ''failed to create DAG version artifact: '' (\<lambda>_. ok i)}"

definition CreatePatchSet :: "dbenv \<Rightarrow> string \<Rightarrow> string \<Rightarrow> int \<Rightarrow> int \<Rightarrow> string \<Rightarrow> string res dbio" where
  "CreatePatchSet e casID baseVersion depth opCount createdBy = do {
     i \<leftarrow> reading (db_uuid e);
     t \<leftarrow> reading (db_now e);
     check (art_Create e ((new_artifact i KindPatchSet casID createdBy t)\<lparr>ar_base_version := Some baseVersion,
         ar_depth := Some depth, ar_op_count := Some opCount\<rparr>))
       ''failed to create patch set artifact: '' (\<lambda>_. ok i)}"

definition previous_members :: "dbenv \<Rightarrow> string option \<Rightarrow> string list res dbio" where
  "previous_members e prev = (case prev of None \<Rightarrow> ok []
     | Some p \<Rightarrow> check (art_GetPatchChain e p) ''failed to get previous patch chain: '' (\<lambda>ps. ok (map ar_id ps)))"

definition CreatePatch :: "dbenv \<Rightarrow> string \<Rightarrow> string \<Rightarrow> string option \<Rightarrow> int \<Rightarrow> int \<Rightarrow> string \<Rightarrow> string res dbio" where
  "CreatePatch e casID baseVersion previousPatchSet depth opCount createdBy = do {
     i \<leftarrow> reading (db_uuid e);
     t \<leftarrow> reading (db_now e);
     check (art_Create e ((new_artifact i KindPatchSet casID createdBy t)\<lparr>ar_base_version := Some baseVersion,
         ar_depth := Some depth, ar_op_count := Some opCount\<rparr>))
       ''failed to create patch artifact: '' (\<lambda>_.
     check (previous_members e previousPatchSet) '''' (\<lambda>previous.
     check (InsertPatchChain e i (previous @ [i])) ''failed to insert patch chain: '' (\<lambda>_. ok i)))}"

definition CreateRunSnapshot :: "dbenv \<Rightarrow> string \<Rightarrow> string \<Rightarrow> string \<Rightarrow> int \<Rightarrow> int \<Rightarrow> string \<Rightarrow> string res dbio" where
  "CreateRunSnapshot e casID planHash versionHash nodesCount edgesCount createdBy = do {
     i \<leftarrow> reading (db_uuid e);
     t \<leftarrow> reading (db_now e);
     check (art_Create e ((new_artifact i KindRunSnapshot casID createdBy t)\<lparr>ar_plan_hash := Some planHash,
         ar_version_hash := Some versionHash, ar_nodes_count := Some nodesCount, ar_edges_count := Some edgesCount\<rparr>))
       ''failed to create run snapshot artifact: '' (\<lambda>_. ok i)}"

definition GetByID :: "dbenv \<Rightarrow> string \<Rightarrow> artifact res dbio" where
  "GetByID e i = check (art_GetByID e i) ''artifact not found: '' ok"

definition GetByVersionHash :: "dbenv \<Rightarrow> string \<Rightarrow> artifact res dbio" where
  "GetByVersionHash e h = check (art_GetByVersionHash e h) ''artifact not found: '' ok"

definition GetByPlanHash :: "dbenv \<Rightarrow> string \<Rightarrow> artifact res dbio" where
  "GetByPlanHash e h = check (art_GetByPlanHash e h) ''snapshot not found: '' ok"

definition ListByKind :: "dbenv \<Rightarrow> artifact_kind \<Rightarrow> int \<Rightarrow> artifact list res dbio" where
  "ListByKind e k limit = check (art_ListByKind e k limit) ''failed to list artifacts: '' ok"

definition GetPatchChain :: "dbenv \<Rightarrow> string \<Rightarrow> artifact list res dbio" where
  "GetPatchChain e h = check (art_GetPatchChain e h) ''failed to get patch chain: '' ok"

section \<open>Running a statement\<close>

lemma run_query [run_simps]:
  "run_state (query e q) d = (case db_fault e (d_tick d) of Some msg \<Rightarrow> (Inl msg, d\<lparr>d_tick := Suc (d_tick d)\<rparr>)
     | None \<Rightarrow> (case q d of Inl msg \<Rightarrow> (Inl msg, d\<lparr>d_tick := Suc (d_tick d)\<rparr>) | Inr (a, d2) \<Rightarrow> (Inr a, d2\<lparr>d_tick := Suc (d_tick d)\<rparr>)))"
  by (simp add: query_def Let_def)

lemma run_reading [run_simps, simp]: "run_state (reading f) d = (f (d_tick d), d\<lparr>d_tick := Suc (d_tick d)\<rparr>)"
  by (simp add: reading_def)

lemma run_ok [run_simps, simp]: "run_state (ok a) d = (Inr a, d)" by (simp add: ok_def)

lemma run_fail [run_simps, simp]: "run_state (fail x) d = (Inl x, d)" by (simp add: fail_def)

lemma run_check:
  "run_state (check m msg f) d = (case run_state m d of (Inl x, d1) \<Rightarrow> (Inl (msg @ x), d1) | (Inr a, d1) \<Rightarrow> run_state (f a) d1)"
  by (auto simp: check_def split: prod.splits sum.splits)

lemma run_check_ok:
  "run_state (check m msg f) d = (Inr b, d') \<longleftrightarrow> (\<exists>a d1. run_state m d = (Inr a, d1) \<and> run_state (f a) d1 = (Inr b, d'))"
  by (auto simp: run_check split: prod.splits sum.splits)

lemma check_cases:
  assumes "run_state (check m msg f) d = (r, d')"
  obtains (err) x where "run_state m d = (Inl x, d')" "r = Inl (msg @ x)"
    | (cont) a d1 where "run_state m d = (Inr a, d1)" "run_state (f a) d1 = (r, d')"
  using assms by (auto simp: run_check split: prod.splits sum.splits)

text \<open>A statement that only reads leaves every table as it is.\<close>

definition untick :: "db \<Rightarrow> db" where "untick d = d\<lparr>d_tick := 0\<rparr>"

definition reads :: "'a dbio \<Rightarrow> bool" where
  "reads m \<longleftrightarrow> (\<forall>d. untick (snd (run_state m d)) = untick d)"

named_theorems reads_intros \<open>statements that only read\<close>

lemma readsD: "reads m \<Longrightarrow> run_state m d = (r, d') \<Longrightarrow> untick d' = untick d"
  unfolding reads_def by (metis snd_conv)

lemma untick_tick [simp]: "untick (d\<lparr>d_tick := n\<rparr>) = untick d"
  by (simp add: untick_def)

lemma reads_check [reads_intros]: "reads m \<Longrightarrow> (\<And>a. reads (f a)) \<Longrightarrow> reads (check m msg f)"
  by (simp add: reads_def run_check split: prod.splits sum.splits) (metis snd_conv)

lemma reads_bind [reads_intros]: "reads m \<Longrightarrow> (\<And>a. reads (f a)) \<Longrightarrow> reads (State_Monad.bind m f)"
  by (simp add: reads_def case_prod_unfold)

lemma reads_basic [reads_intros]: "reads (ok a)" "reads (fail x)" "reads (State_Monad.return r)" "reads (reading g)"
  by (simp_all add: reads_def)

lemma reads_select [reads_intros]: "reads (select e f)" "reads (select_one e f')" "reads (select_limit e n f'')"
  by (simp_all add: reads_def select_def select_one_def select_limit_def run_query split: option.splits)

lemma reads_blobs [reads_intros]:
  "reads (blob_GetByID e i)" "reads (blob_Exists e i)" "reads (blob_GetContentByID e i)" "reads (blob_GetContentBulk e is)"
  "reads (blob_ListByMediaType e m n)" "reads (GetContent e i)" "reads (GetContentBulk e is)" "reads (GetBlob e i)" "reads (cas_Exists e i)"
  by (auto simp: blob_GetByID_def blob_Exists_def blob_GetContentByID_def blob_GetContentBulk_def blob_ListByMediaType_def
      GetContent_def GetContentBulk_def GetBlob_def cas_Exists_def intro!: reads_intros)

lemma reads_artifacts [reads_intros]:
  "reads (art_GetByID e i)" "reads (art_GetByVersionHash e h)" "reads (art_GetByPlanHash e h)" "reads (art_ListByKind e k n)"
  "reads (art_GetPatchChain e i)" "reads (GetCompactionCandidates e th)" "reads (previous_members e prev)"
  "reads (GetByID e i)" "reads (GetByVersionHash e h)" "reads (GetByPlanHash e h)" "reads (ListByKind e k n)" "reads (GetPatchChain e i)"
  by (auto simp: art_GetByID_def art_GetByVersionHash_def art_GetByPlanHash_def art_ListByKind_def art_GetPatchChain_def
      GetCompactionCandidates_def previous_members_def GetByID_def GetByVersionHash_def GetByPlanHash_def ListByKind_def GetPatchChain_def
      intro!: reads_intros split: option.split)

lemma reads_FindCompactedBase [reads_intros]: "reads (art_FindCompactedBase e p)"
  unfolding art_FindCompactedBase_def by (intro reads_intros) (auto intro!: reads_intros split: sum.split)

text \<open>The tables do not depend on the tick.\<close>

lemma untick_eq:
  assumes "untick d' = untick d"
  shows "d_blobs d' = d_blobs d" "d_artifacts d' = d_artifacts d" "d_tags d' = d_tags d" "d_moves d' = d_moves d"
    "d_chain d' = d_chain d" "d_run_patches d' = d_run_patches d" "d_run_rows d' = d_run_rows d"
  using assms unfolding untick_def by (metis (no_types, lifting) db.simps db.surjective)+

section \<open>The content store keeps what it stored\<close>

text \<open>What the services rely on: a store returns the address of the content, adds at most that entry and never
  changes a stored one; a read returns the stored content.\<close>

locale blob_store =
  fixes store :: "string \<Rightarrow> string \<Rightarrow> ('s, string res) state"
    and fetch :: "string \<Rightarrow> ('s, string res) state"
    and addr :: "string \<Rightarrow> string"
    and blobs :: "'s \<Rightarrow> string \<Rightarrow> string option"
  assumes store_ok: "run_state (store c m) s = (Inr r, s') \<Longrightarrow>
      r = addr c \<and> blobs s' = (if blobs s (addr c) = None then (blobs s)(addr c := Some c) else blobs s)"
    and store_err: "run_state (store c m) s = (Inl x, s') \<Longrightarrow> blobs s' = blobs s"
    and fetch_ok: "run_state (fetch i) s = (Inr c, s') \<Longrightarrow> blobs s i = Some c \<and> blobs s' = blobs s"
    and fetch_err: "run_state (fetch i) s = (Inl x, s') \<Longrightarrow> blobs s' = blobs s"
begin

definition sound :: "'s \<Rightarrow> bool" where
  "sound s \<longleftrightarrow> (\<forall>i c. blobs s i = Some c \<longrightarrow> i = addr c)"

definition collides :: "'s \<Rightarrow> string \<Rightarrow> bool" where
  "collides s c \<longleftrightarrow> (\<exists>c'. blobs s (addr c) = Some c' \<and> c' \<noteq> c)"

lemma stored: "run_state (store c m) s = (Inr r, s') \<Longrightarrow> \<not> collides s c \<Longrightarrow> r = addr c \<and> blobs s' (addr c) = Some c"
  using store_ok [of c m s r s'] by (auto simp: collides_def split: if_splits)

lemma keeps: "run_state (store c m) s = (r, s') \<Longrightarrow> blobs s i = Some c' \<Longrightarrow> blobs s' i = Some c'"
  using store_ok [of c m s _ s'] store_err [of c m s _ s'] by (cases r) (auto split: if_splits)

lemma sound_store: "run_state (store c m) s = (r, s') \<Longrightarrow> sound s \<Longrightarrow> sound s'"
  using store_ok [of c m s _ s'] store_err [of c m s _ s'] unfolding sound_def
  by (cases r) (auto split: if_splits)

lemma read_back:
  assumes "run_state (store c m) s = (Inr r, s1)" and "\<not> collides s c" and "run_state (fetch r) s1 = (Inr c', s2)"
  shows "c' = c"
  using stored [OF assms(1,2)] fetch_ok [OF assms(3)] by simp

end

definition content_at :: "db \<Rightarrow> string \<Rightarrow> string option" where
  "content_at d i = map_option cb_content (find_blob d i)"

lemma content_at_cong: "d_blobs d' = d_blobs d \<Longrightarrow> content_at d' = content_at d"
  by (simp add: content_at_def find_blob_def fun_eq_iff)

lemma find_append: "find P (xs @ ys) = (case find P xs of Some x \<Rightarrow> Some x | None \<Rightarrow> find P ys)"
  by (induction xs) auto

lemma StoreContent_cases:
  assumes "run_state (StoreContent e c m) d = (r, d')"
  shows "(\<exists>bs. d_blobs d' = d_blobs d @ bs \<and> (\<forall>b \<in> set bs. cb_id b = ComputeHash e c \<and> cb_content b = c \<and> find_blob d (cb_id b) = None)
            \<and> (\<forall>x. r = Inr x \<longrightarrow> x = ComputeHash e c \<and> find_blob d' x \<noteq> None) \<and> (r \<in> range Inl \<longrightarrow> bs = []) \<and> length bs \<le> 1)
         \<and> untick (d'\<lparr>d_blobs := d_blobs d\<rparr>) = untick d"
  using assms
  by (auto simp: StoreContent_def Let_def run_check blob_Exists_def blob_Create_def select_def run_query find_blob_def
      find_append untick_def split: option.splits sum.splits if_splits prod.splits)

lemma content_at_append:
  "d_blobs d' = d_blobs d @ bs \<Longrightarrow> content_at d' i = (case content_at d i of Some c \<Rightarrow> Some c | None \<Rightarrow> map_option cb_content (find (\<lambda>b. cb_id b = i) bs))"
  by (auto simp: content_at_def find_blob_def find_append split: option.splits)

interpretation db_cas: blob_store "StoreContent e" "GetContent e" "ComputeHash e" content_at for e
proof
  fix c m s r s'
  assume st: "run_state (StoreContent e c m) s = (Inr r, s')"
  from StoreContent_cases [OF this] obtain bs where bs: "d_blobs s' = d_blobs s @ bs"
    "\<forall>b \<in> set bs. cb_id b = ComputeHash e c \<and> cb_content b = c \<and> find_blob s (cb_id b) = None"
    "r = ComputeHash e c" "find_blob s' r \<noteq> None" by auto
  have "content_at s' i = (if content_at s (ComputeHash e c) = None then (content_at s)(ComputeHash e c := Some c) else content_at s) i" for i
  proof (cases bs)
    case Nil
    with bs have "content_at s' = content_at s" "content_at s' (ComputeHash e c) \<noteq> None"
      by (auto intro: content_at_cong simp: content_at_def)
    then show ?thesis by auto
  next
    case (Cons b rest)
    have none: "content_at s (ComputeHash e c) = None" using bs(2) Cons by (auto simp: content_at_def)
    have "map_option cb_content (find (\<lambda>b. cb_id b = i) bs) = (if i = ComputeHash e c then Some c else None)"
      using bs(2) Cons by (auto simp: find_None_iff)
    with none show ?thesis by (auto simp: content_at_append [OF bs(1)] split: option.split)
  qed
  with bs(3) show "r = ComputeHash e c \<and> content_at s' = (if content_at s (ComputeHash e c) = None then (content_at s)(ComputeHash e c := Some c) else content_at s)"
    by auto
next
  fix c m s x s'
  assume "run_state (StoreContent e c m) s = (Inl x, s')"
  from StoreContent_cases [OF this] show "content_at s' = content_at s" by (auto intro: content_at_cong)
next
  fix i s c s'
  assume g: "run_state (GetContent e i) s = (Inr c, s')"
  then have "content_at s i = Some c"
    by (auto simp: GetContent_def blob_GetContentByID_def run_check_ok select_one_def run_query content_at_def split: option.splits sum.splits)
  with untick_eq(1) [OF readsD [OF reads_blobs(6) g]] show "content_at s i = Some c \<and> content_at s' = content_at s"
    by (auto intro: content_at_cong)
next
  fix i s x s'
  assume "run_state (GetContent e i) s = (Inl x, s')"
  with untick_eq(1) [OF readsD [OF reads_blobs(6) this]] show "content_at s' = content_at s" by (auto intro: content_at_cong)
qed

end
