(* ===== verification/Tags.thy ===== *)
theory Tags
  imports Database
begin

text \<open>
  Tags: mutable pointers to artifacts in a user's namespace. \<open>common/repository/tag.go\<close>,
  \<open>cmd/orchestrator/service/tag.go\<close> and the name checks of \<open>cmd/orchestrator/service/tag_namespace.go\<close>.
  The table has the primary key (username, tag name) and a trigger that refuses a target that does not exist
  or has another kind. Orderings by name are byte-wise.
\<close>

section \<open>Names\<close>

definition GlobalUsername :: string where "GlobalUsername = ''_global_''"

definition ValidateUserTagName :: "string \<Rightarrow> string" where
  "ValidateUserTagName userTag =
    (if userTag = '''' then ''tag name cannot be empty''
     else if HasPrefix userTag GlobalUsername then ''tag name cannot start with '' @ [CHR 0x27] @ ''_global_'' @ [CHR 0x27]
     else if length userTag > 200 then ''tag name too long (max 200 characters)''
     else '''')"

definition username_char :: "char \<Rightarrow> bool" where
  "username_char c \<longleftrightarrow> (let n = of_char c :: nat in
     97 \<le> n \<and> n \<le> 122 \<or> 65 \<le> n \<and> n \<le> 90 \<or> 48 \<le> n \<and> n \<le> 57 \<or> c = CHR ''-'' \<or> c = CHR ''_'')"

definition ValidateUsername :: "string \<Rightarrow> string" where
  "ValidateUsername username =
    (if username = '''' then ''username cannot be empty''
     else if username = GlobalUsername then ''username '' @ [CHR 0x27] @ ''_global_'' @ [CHR 0x27] @ '' is reserved for system tags''
     else if length username > 100 then ''username too long (max 100 characters)''
     else if \<not> list_all username_char username then ''username can only contain letters, numbers, hyphens, and underscores''
     else '''')"

section \<open>The table\<close>

definition is_tag :: "string \<Rightarrow> string \<Rightarrow> tag \<Rightarrow> bool" where
  "is_tag user name t \<longleftrightarrow> tg_username t = user \<and> tg_name t = name"

definition find_tag :: "db \<Rightarrow> string \<Rightarrow> string \<Rightarrow> tag option" where
  "find_tag d user name = find (is_tag user name) (d_tags d)"

definition tag_violation :: "db \<Rightarrow> tag \<Rightarrow> string option" where
  "tag_violation d t =
    (case find_artifact d (tg_target_id t) of
       None \<Rightarrow> Some ''tag_validate_target_kind''
     | Some a \<Rightarrow> if ar_kind a \<noteq> tg_target_kind t then Some ''tag_validate_target_kind''
         else if tg_target_kind t \<notin> {KindDAGVersion, KindPatchSet} then Some ''tag_target_kind_check''
         else if tg_created_by t = None then Some ''tag_created_by_not_null''
         else None)"

definition tag_Create :: "dbenv \<Rightarrow> tag \<Rightarrow> unit res dbio" where
  "tag_Create e t = check
     (query e (\<lambda>d. case tag_violation d t of Some c \<Rightarrow> Inl (db_text e c)
        | None \<Rightarrow> if find_tag d (tg_username t) (tg_name t) \<noteq> None then Inl (db_text e ''tag_pkey'')
            else Inr ((), d\<lparr>d_tags := d_tags d @ [t]\<rparr>)))
     ''failed to create tag: '' ok"

definition tag_GetByName :: "dbenv \<Rightarrow> string \<Rightarrow> string \<Rightarrow> tag res dbio" where
  "tag_GetByName e user name = check (select_one e (\<lambda>d. find_tag d user name)) ''failed to get tag: '' ok"

text \<open>\<open>UPDATE tag SET ... WHERE ... RETURNING version\<close>: replaces the row the condition selects.\<close>

definition update_tag :: "dbenv \<Rightarrow> string \<Rightarrow> string \<Rightarrow> (tag \<Rightarrow> bool) \<Rightarrow> (tag \<Rightarrow> tag) \<Rightarrow> int res dbio" where
  "update_tag e user name cond set_row = query e (\<lambda>d.
     case find_tag d user name of
       None \<Rightarrow> Inl no_rows
     | Some t \<Rightarrow> if \<not> cond t then Inl no_rows
         else let t' = set_row t in (case tag_violation d t' of Some c \<Rightarrow> Inl (db_text e c)
           | None \<Rightarrow> Inr (tg_version t', d\<lparr>d_tags := map (\<lambda>x. if is_tag user name x then t' else x) (d_tags d)\<rparr>)))"

definition move :: "artifact_kind \<Rightarrow> string \<Rightarrow> string option \<Rightarrow> string option \<Rightarrow> int \<Rightarrow> tag \<Rightarrow> tag" where
  "move k i h by_whom t tg = tg\<lparr>tg_target_kind := k, tg_target_id := i, tg_target_hash := h, tg_version := tg_version tg + 1,
     tg_moved_by := by_whom, tg_moved_at := t\<rparr>"

definition tag_Update :: "dbenv \<Rightarrow> tag \<Rightarrow> int res dbio" where
  "tag_Update e t = check
     (update_tag e (tg_username t) (tg_name t) (\<lambda>_. True)
       (move (tg_target_kind t) (tg_target_id t) (tg_target_hash t) (tg_moved_by t) (tg_moved_at t)))
     ''failed to update tag: '' ok"

definition tag_CompareAndSwap :: "dbenv \<Rightarrow> string \<Rightarrow> string \<Rightarrow> int \<Rightarrow> string \<Rightarrow> artifact_kind \<Rightarrow> string \<Rightarrow> string \<Rightarrow> bool res dbio" where
  "tag_CompareAndSwap e user name expected target kind hash movedBy = do {
     t \<leftarrow> reading (db_now e);
     r \<leftarrow> update_tag e user name (\<lambda>x. tg_version x = expected) (move kind target (Some hash) (Some movedBy) t);
     (case r of Inl _ \<Rightarrow> ok False | Inr _ \<Rightarrow> ok True)}"

definition tag_Delete :: "dbenv \<Rightarrow> string \<Rightarrow> string \<Rightarrow> unit res dbio" where
  "tag_Delete e user name = check
     (query e (\<lambda>d. Inr (length (filter (is_tag user name) (d_tags d)), d\<lparr>d_tags := filter (\<lambda>t. \<not> is_tag user name t) (d_tags d)\<rparr>)))
     ''failed to delete tag: '' (\<lambda>n. if n = 0 then fail (''tag not found: '' @ user @ ''/'' @ name) else ok ())"

definition tag_List :: "dbenv \<Rightarrow> tag list res dbio" where
  "tag_List e = check (select e (\<lambda>d. sort_key tg_username (sort_key tg_name (d_tags d)))) ''failed to list tags: '' ok"

definition tag_ListByUsername :: "dbenv \<Rightarrow> string \<Rightarrow> tag list res dbio" where
  "tag_ListByUsername e user = check
     (select e (\<lambda>d. sort_key tg_name (filter (\<lambda>t. tg_username t = user) (d_tags d)))) ''failed to list tags by username: '' ok"

definition tag_Exists :: "dbenv \<Rightarrow> string \<Rightarrow> string \<Rightarrow> bool res dbio" where
  "tag_Exists e user name = check (select e (\<lambda>d. find_tag d user name \<noteq> None)) ''failed to check tag existence: '' ok"

definition tag_GetHistory :: "dbenv \<Rightarrow> string \<Rightarrow> string \<Rightarrow> int \<Rightarrow> tag_move list res dbio" where
  "tag_GetHistory e user name limit = check
     (select_limit e limit (\<lambda>d. sort_key (\<lambda>m. - tm_moved_at m) (filter (\<lambda>m. tm_username m = user \<and> tm_tag_name m = name) (d_moves d))))
     ''failed to get tag history: '' ok"

section \<open>The service\<close>

definition CreateTag :: "dbenv \<Rightarrow> string \<Rightarrow> string \<Rightarrow> artifact_kind \<Rightarrow> string \<Rightarrow> string \<Rightarrow> string \<Rightarrow> unit res dbio" where
  "CreateTag e user name kind target hash createdBy =
     check (tag_Exists e user name) ''failed to check tag existence: '' (\<lambda>exists.
     if exists then fail (''tag already exists: '' @ user @ ''/'' @ name)
     else State_Monad.bind (reading (db_now e)) (\<lambda>t.
       check (tag_Create e \<lparr>tg_username = user, tg_name = name, tg_target_kind = kind, tg_target_id = target,
           tg_target_hash = Some hash, tg_version = 1, tg_created_by = Some createdBy, tg_moved_by = Some createdBy, tg_moved_at = t\<rparr>)
         ''failed to create tag: '' ok))"

definition MoveTag :: "dbenv \<Rightarrow> string \<Rightarrow> string \<Rightarrow> artifact_kind \<Rightarrow> string \<Rightarrow> string \<Rightarrow> string \<Rightarrow> unit res dbio" where
  "MoveTag e user name kind target hash movedBy = State_Monad.bind (reading (db_now e)) (\<lambda>t.
     check (tag_Update e \<lparr>tg_username = user, tg_name = name, tg_target_kind = kind, tg_target_id = target,
         tg_target_hash = Some hash, tg_version = 0, tg_created_by = None, tg_moved_by = Some movedBy, tg_moved_at = t\<rparr>)
       ''failed to move tag: '' (\<lambda>_. ok ()))"

definition CreateOrMoveTag :: "dbenv \<Rightarrow> string \<Rightarrow> string \<Rightarrow> artifact_kind \<Rightarrow> string \<Rightarrow> string \<Rightarrow> string \<Rightarrow> unit res dbio" where
  "CreateOrMoveTag e user name kind target hash who =
     check (tag_Exists e user name) ''failed to check tag existence: '' (\<lambda>exists.
     if exists then MoveTag e user name kind target hash who else CreateTag e user name kind target hash who)"

definition GetTag :: "dbenv \<Rightarrow> string \<Rightarrow> string \<Rightarrow> tag res dbio" where
  "GetTag e user name = check (tag_GetByName e user name) ''tag not found: '' ok"

definition ListUserTags :: "dbenv \<Rightarrow> string \<Rightarrow> tag list res dbio" where
  "ListUserTags e user = check (tag_ListByUsername e user) ''failed to list user tags: '' ok"

definition ListGlobalTags :: "dbenv \<Rightarrow> tag list res dbio" where
  "ListGlobalTags e = check (tag_ListByUsername e GlobalUsername) ''failed to list global tags: '' ok"

definition ListAllAccessibleTags :: "dbenv \<Rightarrow> string \<Rightarrow> tag list res dbio" where
  "ListAllAccessibleTags e user =
     check (tag_ListByUsername e user) ''failed to list user tags: '' (\<lambda>userTags.
     check (tag_ListByUsername e GlobalUsername) ''failed to list global tags: '' (\<lambda>globalTags. ok (userTags @ globalTags)))"

definition DeleteTag :: "dbenv \<Rightarrow> string \<Rightarrow> string \<Rightarrow> unit res dbio" where
  "DeleteTag e user name = check (tag_Delete e user name) ''failed to delete tag: '' ok"

definition GetHistory :: "dbenv \<Rightarrow> string \<Rightarrow> string \<Rightarrow> int \<Rightarrow> tag_move list res dbio" where
  "GetHistory e user name limit = check (tag_GetHistory e user name limit) ''failed to get tag history: '' ok"

definition CompareAndSwap :: "dbenv \<Rightarrow> string \<Rightarrow> string \<Rightarrow> int \<Rightarrow> string \<Rightarrow> artifact_kind \<Rightarrow> string \<Rightarrow> string \<Rightarrow> bool res dbio" where
  "CompareAndSwap e user name expected target kind hash movedBy =
     check (tag_CompareAndSwap e user name expected target kind hash movedBy) ''CAS operation failed: '' ok"

end
