(* ===== verification/Versions_Correct.thy ===== *)
theory Versions_Correct
  imports Versions
begin

text \<open>
  The version store is correct: the abstract versions, the invariant of the tables, and that every operation
  refines the abstract one.
\<close>

section \<open>Abstract versions\<close>

definition version_of :: "db \<Rightarrow> artifact \<Rightarrow> (string \<times> string list) option" where
  "version_of d a = (case ar_kind a of
     KindDAGVersion \<Rightarrow> (case content_at d (ar_cas_id a) of None \<Rightarrow> None | Some c \<Rightarrow> Some (c, []))
   | KindPatchSet \<Rightarrow> (case ar_base_version a of None \<Rightarrow> None
       | Some b \<Rightarrow> (case find_artifact d b of None \<Rightarrow> None
         | Some ba \<Rightarrow> (case content_at d (ar_cas_id ba) of None \<Rightarrow> None
           | Some c \<Rightarrow> Some (c, map (\<lambda>p. the (content_at d (ar_cas_id p))) (chain_of d (ar_id a))))))
   | _ \<Rightarrow> None)"

definition versions :: "db \<Rightarrow> string \<times> string \<Rightarrow> (string \<times> string list) option" where
  "versions d k = (case find_tag d (fst k) (snd k) of None \<Rightarrow> None
     | Some t \<Rightarrow> (case find_artifact d (tg_target_id t) of None \<Rightarrow> None | Some a \<Rightarrow> version_of d a))"

section \<open>The invariant\<close>

definition head_ok :: "db \<Rightarrow> artifact \<Rightarrow> bool" where
  "head_ok d a \<longleftrightarrow> ar_kind a = KindDAGVersion \<or>
     ar_kind a = KindPatchSet \<and> ar_depth a = Some (int (length (chain_of d (ar_id a)))) \<and> chain_of d (ar_id a) \<noteq> []
     \<and> distinct (map ar_id (chain_of d (ar_id a)))"

definition artifact_ok :: "db \<Rightarrow> artifact \<Rightarrow> bool" where
  "artifact_ok d a \<longleftrightarrow> find_artifact d (ar_id a) = Some a \<and> content_at d (ar_cas_id a) \<noteq> None
     \<and> (ar_kind a = KindDAGVersion \<longrightarrow> ar_version_hash a = Some (ar_cas_id a))
     \<and> (ar_kind a = KindPatchSet \<longrightarrow> (\<exists>b. ar_base_version a = Some b \<and> find_artifact d b \<noteq> None))"

definition catalog_ok :: "dbenv \<Rightarrow> db \<Rightarrow> bool" where
  "catalog_ok e d \<longleftrightarrow>
     distinct (map cb_id (d_blobs d)) \<and> (\<forall>b \<in> set (d_blobs d). cb_id b = ComputeHash e (cb_content b))
   \<and> (\<forall>a \<in> set (d_artifacts d). artifact_ok d a)
   \<and> (\<forall>r \<in> set (d_chain d). find_artifact d (pc_head r) \<noteq> None \<and> find_artifact d (pc_member r) \<noteq> None)
   \<and> (\<forall>t \<in> set (d_tags d). \<exists>a. find_artifact d (tg_target_id t) = Some a \<and> ar_kind a = tg_target_kind t \<and> head_ok d a)"

section \<open>Growing tables\<close>

text \<open>Before a tag is moved, an operation only adds rows, and chain rows only to heads that are new.\<close>

definition grows :: "db \<Rightarrow> db \<Rightarrow> bool" where
  "grows d d' \<longleftrightarrow> (\<exists>bs as rs. d_blobs d' = d_blobs d @ bs \<and> d_artifacts d' = d_artifacts d @ as \<and> d_chain d' = d_chain d @ rs
       \<and> (\<forall>r \<in> set rs. find_artifact d (pc_head r) = None))
     \<and> d_tags d' = d_tags d"

lemma find_artifact_append:
  "d_artifacts d' = d_artifacts d @ as \<Longrightarrow> find_artifact d' i = (case find_artifact d i of Some a \<Rightarrow> Some a | None \<Rightarrow> find (\<lambda>a. ar_id a = i) as)"
  by (simp add: find_artifact_def find_append)

lemma find_artifact_grows: "grows d d' \<Longrightarrow> find_artifact d i = Some a \<Longrightarrow> find_artifact d' i = Some a"
  by (auto simp: grows_def find_artifact_append)

lemma content_at_grows: "grows d d' \<Longrightarrow> content_at d i = Some c \<Longrightarrow> content_at d' i = Some c"
  by (auto simp: grows_def content_at_append)

lemma grows_refl [simp]: "grows d d" by (simp add: grows_def)

lemma grows_untick:
  assumes "untick d' = untick d" shows "grows d d'"
  using untick_eq [OF assms] by (simp add: grows_def)

lemma grows_trans:
  assumes "grows d d1" and "grows d1 d2"
  shows "grows d d2"
proof -
  obtain bs as rs where 1: "d_blobs d1 = d_blobs d @ bs" "d_artifacts d1 = d_artifacts d @ as" "d_chain d1 = d_chain d @ rs"
    "\<forall>r \<in> set rs. find_artifact d (pc_head r) = None" "d_tags d1 = d_tags d" using assms(1) unfolding grows_def by blast
  obtain bs' as' rs' where 2: "d_blobs d2 = d_blobs d1 @ bs'" "d_artifacts d2 = d_artifacts d1 @ as'" "d_chain d2 = d_chain d1 @ rs'"
    "\<forall>r \<in> set rs'. find_artifact d1 (pc_head r) = None" "d_tags d2 = d_tags d1" using assms(2) unfolding grows_def by blast
  have "find_artifact d h = None" if "find_artifact d1 h = None" for h
    using that by (simp add: find_artifact_append [OF 1(2)] split: option.splits)
  with 1 2 have "\<forall>r \<in> set (rs @ rs'). find_artifact d (pc_head r) = None" by auto
  then show ?thesis unfolding grows_def using 1 2 append_assoc by metis
qed

lemma chain_rows_grows:
  assumes "grows d d'" and "find_artifact d h \<noteq> None"
  shows "chain_rows d' h = chain_rows d h"
proof -
  obtain rs where rs: "d_chain d' = d_chain d @ rs" "\<forall>r \<in> set rs. find_artifact d (pc_head r) = None"
    using assms(1) by (auto simp: grows_def)
  then have "filter (\<lambda>r. pc_head r = h) rs = []" using assms(2) by (auto simp: filter_empty_conv)
  then show ?thesis by (simp add: chain_rows_def rs)
qed

lemma chain_row_member: "r \<in> set (chain_rows d h) \<longleftrightarrow> r \<in> set (d_chain d) \<and> pc_head r = h"
  by (auto simp: chain_rows_def)

lemma map_filter_cong: "(\<And>x. x \<in> set xs \<Longrightarrow> f x = g x) \<Longrightarrow> List.map_filter f xs = List.map_filter g xs"
  by (induction xs) (simp_all add: List.map_filter_simps split: option.split)

lemma chain_of_grows:
  assumes "catalog_ok e d" and "grows d d'" and "find_artifact d h \<noteq> None"
  shows "chain_of d' h = chain_of d h"
  unfolding chain_of_def chain_rows_grows [OF assms(2,3)]
proof (rule map_filter_cong)
  fix r assume "r \<in> set (chain_rows d h)"
  then obtain a where "find_artifact d (pc_member r) = Some a"
    using assms(1) by (auto simp: chain_row_member catalog_ok_def)
  then show "find_artifact d' (pc_member r) = find_artifact d (pc_member r)"
    using find_artifact_grows [OF assms(2)] by simp
qed

lemma find_artifact_in: "find_artifact d i = Some a \<Longrightarrow> a \<in> set (d_artifacts d) \<and> ar_id a = i"
  by (auto simp: find_artifact_def find_Some_iff)

lemma chain_of_in: "p \<in> set (chain_of d h) \<Longrightarrow> p \<in> set (d_artifacts d)"
  by (auto simp: chain_of_def in_map_filter dest: find_artifact_in)

lemma artifact_content: "catalog_ok e d \<Longrightarrow> a \<in> set (d_artifacts d) \<Longrightarrow> \<exists>c. content_at d (ar_cas_id a) = Some c"
  by (auto simp: catalog_ok_def artifact_ok_def)

lemma content_same:
  assumes "catalog_ok e d" and "grows d d'" and "a \<in> set (d_artifacts d)"
  shows "content_at d' (ar_cas_id a) = content_at d (ar_cas_id a)"
  using artifact_content [OF assms(1,3)] content_at_grows [OF assms(2)] by auto

lemma version_of_grows:
  assumes ok: "catalog_ok e d" and g: "grows d d'" and a: "find_artifact d (ar_id a) = Some a"
  shows "version_of d' a = version_of d a"
proof (cases "ar_kind a")
  case KindDAGVersion
  then show ?thesis using content_same [OF ok g] find_artifact_in [OF a] by (simp add: version_of_def)
next
  case KindPatchSet
  obtain b ba where b: "ar_base_version a = Some b" "find_artifact d b = Some ba"
    using ok find_artifact_in [OF a] KindPatchSet by (auto simp: catalog_ok_def artifact_ok_def)
  have "content_at d' (ar_cas_id ba) = content_at d (ar_cas_id ba)"
    using content_same [OF ok g] find_artifact_in [OF b(2)] by blast
  moreover have "map (\<lambda>p. the (content_at d' (ar_cas_id p))) (chain_of d (ar_id a)) = map (\<lambda>p. the (content_at d (ar_cas_id p))) (chain_of d (ar_id a))"
    using content_same [OF ok g] chain_of_in by (auto simp: fun_eq_iff)
  ultimately show ?thesis
    using KindPatchSet b a chain_of_grows [OF ok g, of "ar_id a"] find_artifact_grows [OF g b(2)] by (auto simp: version_of_def split: option.split)
qed (simp_all add: version_of_def)

lemma find_tag_in: "find_tag d u n = Some t \<Longrightarrow> t \<in> set (d_tags d) \<and> tg_username t = u \<and> tg_name t = n"
  by (auto simp: find_tag_def is_tag_def find_Some_iff)

lemma versions_grows:
  assumes "catalog_ok e d" and "grows d d'"
  shows "versions d' = versions d"
proof
  fix k
  have t: "find_tag d' (fst k) (snd k) = find_tag d (fst k) (snd k)" using assms(2) by (simp add: grows_def find_tag_def)
  show "versions d' k = versions d k"
  proof (cases "find_tag d (fst k) (snd k)")
    case (Some t)
    then obtain a where a: "find_artifact d (tg_target_id t) = Some a"
      using assms(1) find_tag_in [OF Some] by (auto simp: catalog_ok_def)
    then have "version_of d' a = version_of d a" using version_of_grows [OF assms] find_artifact_in [OF a] by simp
    then show ?thesis using Some t a find_artifact_grows [OF assms(2) a] by (simp add: versions_def)
  qed (use t in \<open>simp add: versions_def\<close>)
qed

section \<open>Operations that add rows\<close>

lemma catalog_ok_untick:
  assumes "untick d' = untick d" and "catalog_ok e d"
  shows "catalog_ok e d'"
proof -
  note u = untick_eq [OF assms(1)]
  have f: "find_artifact d' = find_artifact d" "content_at d' = content_at d" "chain_of d' = chain_of d"
    by (simp_all add: fun_eq_iff find_artifact_def content_at_def find_blob_def chain_of_def chain_rows_def u)
  have "artifact_ok d' = artifact_ok d" "head_ok d' = head_ok d"
    by (simp_all add: fun_eq_iff artifact_ok_def head_ok_def f)
  with assms(2) show ?thesis by (simp add: catalog_ok_def f u)
qed

lemma artifact_ok_grows: "grows d d' \<Longrightarrow> artifact_ok d a \<Longrightarrow> artifact_ok d' a"
  unfolding artifact_ok_def using content_at_grows find_artifact_grows by (metis option.collapse option.distinct(1))

lemma head_ok_grows:
  assumes "catalog_ok e d" and "grows d d'" and "find_artifact d (ar_id a) \<noteq> None" and "head_ok d a"
  shows "head_ok d' a"
  using assms(4) chain_of_grows [OF assms(1-3)] by (simp add: head_ok_def)

lemma catalog_ok_grows:
  assumes ok: "catalog_ok e d" and g: "grows d d'" and db: "distinct (map cb_id (d_blobs d'))"
    and b: "\<And>b. b \<in> set (d_blobs d') \<Longrightarrow> b \<notin> set (d_blobs d) \<Longrightarrow> cb_id b = ComputeHash e (cb_content b)"
    and a: "\<And>a. a \<in> set (d_artifacts d') \<Longrightarrow> a \<notin> set (d_artifacts d) \<Longrightarrow> artifact_ok d' a"
    and r: "\<And>r. r \<in> set (d_chain d') \<Longrightarrow> r \<notin> set (d_chain d) \<Longrightarrow> find_artifact d' (pc_head r) \<noteq> None \<and> find_artifact d' (pc_member r) \<noteq> None"
  shows "catalog_ok e d'"
  unfolding catalog_ok_def
proof (intro conjI ballI db)
  fix x assume "x \<in> set (d_blobs d')"
  then show "cb_id x = ComputeHash e (cb_content x)" using b ok by (cases "x \<in> set (d_blobs d)") (auto simp: catalog_ok_def)
next
  fix x assume "x \<in> set (d_artifacts d')"
  then show "artifact_ok d' x" using a ok artifact_ok_grows [OF g] by (cases "x \<in> set (d_artifacts d)") (auto simp: catalog_ok_def)
next
  fix x assume x: "x \<in> set (d_chain d')"
  have "find_artifact d' (pc_head x) \<noteq> None \<and> find_artifact d' (pc_member x) \<noteq> None"
  proof (cases "x \<in> set (d_chain d)")
    case True
    then obtain h m where "find_artifact d (pc_head x) = Some h" "find_artifact d (pc_member x) = Some m"
      using ok by (auto simp: catalog_ok_def)
    then show ?thesis using find_artifact_grows [OF g] by simp
  qed (use r x in blast)
  then show "find_artifact d' (pc_head x) \<noteq> None" "find_artifact d' (pc_member x) \<noteq> None" by simp_all
next
  fix t assume "t \<in> set (d_tags d')"
  then have "t \<in> set (d_tags d)" using g by (simp add: grows_def)
  then obtain x where x: "find_artifact d (tg_target_id t) = Some x" "ar_kind x = tg_target_kind t" "head_ok d x"
    using ok unfolding catalog_ok_def by blast
  then have "find_artifact d (ar_id x) \<noteq> None" using find_artifact_in by fastforce
  then have "head_ok d' x" using head_ok_grows [OF ok g] x(3) by blast
  with x show "\<exists>x. find_artifact d' (tg_target_id t) = Some x \<and> ar_kind x = tg_target_kind t \<and> head_ok d' x"
    using find_artifact_grows [OF g] by blast
qed

definition extends :: "dbenv \<Rightarrow> db \<Rightarrow> db \<Rightarrow> bool" where
  "extends e d d' \<longleftrightarrow> grows d d' \<and> (catalog_ok e d \<longrightarrow> catalog_ok e d')"

lemma extends_refl [simp]: "extends e d d" by (simp add: extends_def)

lemma extends_trans: "extends e d d1 \<Longrightarrow> extends e d1 d2 \<Longrightarrow> extends e d d2"
  unfolding extends_def using grows_trans by blast

lemma extends_untick: "untick d' = untick d \<Longrightarrow> extends e d d'"
  by (simp add: extends_def grows_untick catalog_ok_untick)

lemma extends_reads: "reads m \<Longrightarrow> run_state m d = (r, d') \<Longrightarrow> extends e d d'"
  by (rule extends_untick) (rule readsD)

lemma extends_StoreContent:
  assumes "run_state (StoreContent e c m) d = (r, d')"
  shows "extends e d d'"
proof -
  from StoreContent_cases [OF assms] obtain bs where bs: "d_blobs d' = d_blobs d @ bs"
    "\<forall>b \<in> set bs. cb_id b = ComputeHash e c \<and> cb_content b = c \<and> find_blob d (cb_id b) = None" "length bs \<le> 1"
    and u: "untick (d'\<lparr>d_blobs := d_blobs d\<rparr>) = untick d" by blast
  have db: "distinct (map cb_id (d_blobs d'))" if "distinct (map cb_id (d_blobs d))"
    using that bs by (cases bs) (auto simp: find_blob_def find_None_iff)
  have o: "d_artifacts d' = d_artifacts d" "d_chain d' = d_chain d" "d_tags d' = d_tags d" using untick_eq [OF u] by simp_all
  then have "grows d d'" using bs(1) by (simp add: grows_def)
  show ?thesis unfolding extends_def
  proof (intro conjI impI \<open>grows d d'\<close>)
    assume ok: "catalog_ok e d"
    then have "distinct (map cb_id (d_blobs d'))" using db by (simp add: catalog_ok_def)
    then show "catalog_ok e d'" using catalog_ok_grows [OF ok \<open>grows d d'\<close>] bs(1,2) o by fastforce
  qed
qed

lemma art_Create_run:
  "run_state (art_Create e a) d = (r, d') \<Longrightarrow>
     r = Inr () \<and> artifact_violation d a = None \<and> d' = d\<lparr>d_artifacts := d_artifacts d @ [a], d_tick := Suc (d_tick d)\<rparr>
     \<or> (\<exists>x. r = Inl x) \<and> d' = d\<lparr>d_tick := Suc (d_tick d)\<rparr>"
  by (auto simp: art_Create_def run_check run_query split: option.splits sum.splits prod.splits)

lemma created_artifact_ok:
  assumes "artifact_violation d a = None" and "ar_kind a = KindDAGVersion \<longrightarrow> ar_version_hash a = Some (ar_cas_id a)"
    and "d' = d\<lparr>d_artifacts := d_artifacts d @ [a], d_tick := n\<rparr>"
  shows "artifact_ok d' a" "find_artifact d (ar_id a) = None" "find_artifact d' (ar_id a) = Some a" "grows d d'"
proof -
  show fresh: "find_artifact d (ar_id a) = None" using assms(1) by (simp add: artifact_violation_def split: if_splits)
  then show "find_artifact d' (ar_id a) = Some a" by (simp add: assms(3) find_artifact_def find_append)
  show "grows d d'" by (simp add: grows_def assms(3))
  have "content_at d' = content_at d" by (rule content_at_cong) (simp add: assms(3))
  moreover have "find_artifact d' b \<noteq> None" if "find_artifact d b \<noteq> None" for b
    using that by (auto simp: assms(3) find_artifact_def find_append)
  ultimately show "artifact_ok d' a"
    using assms(1,2) \<open>find_artifact d' (ar_id a) = Some a\<close>
    by (auto simp: artifact_ok_def artifact_violation_def missing_def content_at_def split: if_splits option.splits)
qed

lemma extends_art_Create:
  assumes "run_state (art_Create e a) d = (r, d')" and "ar_kind a = KindDAGVersion \<longrightarrow> ar_version_hash a = Some (ar_cas_id a)"
  shows "extends e d d'"
  using art_Create_run [OF assms(1)]
proof
  assume "r = Inr () \<and> artifact_violation d a = None \<and> d' = d\<lparr>d_artifacts := d_artifacts d @ [a], d_tick := Suc (d_tick d)\<rparr>"
  then have v: "artifact_violation d a = None" and d': "d' = d\<lparr>d_artifacts := d_artifacts d @ [a], d_tick := Suc (d_tick d)\<rparr>" by auto
  note c = created_artifact_ok [OF v assms(2) d']
  show ?thesis unfolding extends_def
  proof (intro conjI impI c(4))
    assume ok: "catalog_ok e d"
    then have "distinct (map cb_id (d_blobs d'))" by (simp add: catalog_ok_def d')
    then show "catalog_ok e d'" using catalog_ok_grows [OF ok c(4)] c(1) by (simp add: d')
  qed
qed (auto intro: extends_untick)

section \<open>The chain of a new patch\<close>

primrec member_rows :: "string \<Rightarrow> nat \<Rightarrow> string list \<Rightarrow> chain_member list" where
  "member_rows h i [] = []"
| "member_rows h i (m # ms) = \<lparr>pc_head = h, pc_seq = i + 1, pc_member = m\<rparr> # member_rows h (i + 1) ms"

lemma member_rows_head: "r \<in> set (member_rows h i ms) \<Longrightarrow> pc_head r = h \<and> i < pc_seq r \<and> pc_member r \<in> set ms"
  by (induction ms arbitrary: i) (auto, fastforce+)

lemma sorted_member_rows: "sorted (map pc_seq (member_rows h i ms))"
  by (induction ms arbitrary: i) (auto dest: member_rows_head)

lemma map_filter_member_rows: "List.map_filter (\<lambda>r. f (pc_member r)) (member_rows h i ms) = List.map_filter f ms"
  by (induction ms arbitrary: i) (simp_all add: List.map_filter_simps split: option.split)

lemma filter_member_rows: "filter (\<lambda>r. pc_head r = h) (member_rows h i ms) = member_rows h i ms"
  by (rule filter_True) (use member_rows_head in fast)

lemma insert_member_run:
  "run_state (insert_member e x) d = (r, d') \<Longrightarrow>
     r = Inr () \<and> chain_violation d x = None \<and> d' = d\<lparr>d_chain := d_chain d @ [x], d_tick := Suc (d_tick d)\<rparr>
     \<or> (\<exists>msg. r = Inl msg) \<and> d' = d\<lparr>d_tick := Suc (d_tick d)\<rparr>"
  by (auto simp: insert_member_def run_query split: option.splits)

definition chain_added :: "string \<Rightarrow> nat \<Rightarrow> string list \<Rightarrow> unit res \<Rightarrow> db \<Rightarrow> db \<Rightarrow> bool" where
  "chain_added h i ms r d d' \<longleftrightarrow> (\<exists>ps qs. ms = ps @ qs \<and> d_chain d' = d_chain d @ member_rows h i ps \<and> (r = Inr () \<longrightarrow> qs = [])
     \<and> (\<forall>x \<in> set (member_rows h i ps). find_artifact d (pc_head x) \<noteq> None \<and> find_artifact d (pc_member x) \<noteq> None))
     \<and> d_blobs d' = d_blobs d \<and> d_artifacts d' = d_artifacts d \<and> d_tags d' = d_tags d"

lemma insert_members_run:
  "run_state (insert_members e h i ms) d = (r, d') \<Longrightarrow> chain_added h i ms r d d'"
proof (induction ms arbitrary: i d)
  case (Cons m ms)
  let ?x = "\<lparr>pc_head = h, pc_seq = i + 1, pc_member = m\<rparr>"
  from Cons.prems show ?case unfolding insert_members.simps
  proof (cases rule: check_cases)
    case (err x)
    then have d': "d' = d\<lparr>d_tick := Suc (d_tick d)\<rparr>" using insert_member_run [OF err(1)] by auto
    have "\<exists>ps qs. m # ms = ps @ qs \<and> d_chain d' = d_chain d @ member_rows h i ps \<and> (r = Inr () \<longrightarrow> qs = [])
     \<and> (\<forall>x \<in> set (member_rows h i ps). find_artifact d (pc_head x) \<noteq> None \<and> find_artifact d (pc_member x) \<noteq> None)"
      by (rule exI [of _ "[]"], rule exI [of _ "m # ms"]) (simp add: d' err(2))
    then show ?thesis by (simp add: chain_added_def d')
  next
    case (cont a d1)
    then have d1: "chain_violation d ?x = None" "d1 = d\<lparr>d_chain := d_chain d @ [?x], d_tick := Suc (d_tick d)\<rparr>"
      using insert_member_run [OF cont(1)] by auto
    then have found: "find_artifact d h \<noteq> None" "find_artifact d m \<noteq> None"
      by (auto simp: chain_violation_def split: if_splits)
    have f: "find_artifact d1 = find_artifact d" by (simp add: fun_eq_iff find_artifact_def d1(2))
    from Cons.IH [OF cont(2)] obtain ps qs where ih: "ms = ps @ qs" "d_chain d' = d_chain d1 @ member_rows h (i + 1) ps"
      "r = Inr () \<longrightarrow> qs = []" "\<forall>x \<in> set (member_rows h (i + 1) ps). find_artifact d (pc_head x) \<noteq> None \<and> find_artifact d (pc_member x) \<noteq> None"
      "d_blobs d' = d_blobs d1" "d_artifacts d' = d_artifacts d1" "d_tags d' = d_tags d1" unfolding chain_added_def f by blast
    have "\<exists>ps' qs. m # ms = ps' @ qs \<and> d_chain d' = d_chain d @ member_rows h i ps' \<and> (r = Inr () \<longrightarrow> qs = [])
     \<and> (\<forall>x \<in> set (member_rows h i ps'). find_artifact d (pc_head x) \<noteq> None \<and> find_artifact d (pc_member x) \<noteq> None)"
      by (rule exI [of _ "m # ps"], rule exI [of _ qs]) (use ih(1-4) found in \<open>simp add: d1(2)\<close>)
    then show ?thesis using ih(5-7) by (simp add: chain_added_def d1(2))
  qed
qed (auto simp: chain_added_def)

lemma map_filter_find:
  assumes "\<And>a. a \<in> set as \<Longrightarrow> f (ar_id a) = Some a"
  shows "List.map_filter f (map ar_id as) = as"
  using assms by (induction as) (simp_all add: List.map_filter_simps)

lemma chain_of_found: "a \<in> set (chain_of d h) \<Longrightarrow> find_artifact d (ar_id a) = Some a"
  using find_artifact_in by (auto simp: chain_of_def in_map_filter)

definition patch_artifact :: "string \<Rightarrow> string \<Rightarrow> string \<Rightarrow> int \<Rightarrow> int \<Rightarrow> string \<Rightarrow> int \<Rightarrow> artifact" where
  "patch_artifact i casID b depth n who t = (new_artifact i KindPatchSet casID who t)\<lparr>ar_base_version := Some b,
     ar_depth := Some depth, ar_op_count := Some n\<rparr>"

lemma patch_artifact_fields [simp]:
  "ar_id (patch_artifact i casID b depth n who t) = i" "ar_kind (patch_artifact i casID b depth n who t) = KindPatchSet"
  "ar_cas_id (patch_artifact i casID b depth n who t) = casID" "ar_base_version (patch_artifact i casID b depth n who t) = Some b"
  "ar_depth (patch_artifact i casID b depth n who t) = Some depth"
  by (simp_all add: patch_artifact_def new_artifact_def)

definition prev_chain :: "db \<Rightarrow> string option \<Rightarrow> artifact list" where
  "prev_chain d prev = (case prev of None \<Rightarrow> [] | Some p \<Rightarrow> chain_of d p)"

lemma previous_members_run:
  "run_state (previous_members e prev) d = (Inr ms, d') \<Longrightarrow> ms = map ar_id (prev_chain d prev) \<and> untick d' = untick d"
  by (auto simp: previous_members_def prev_chain_def art_GetPatchChain_def run_check_ok select_def run_query split: option.splits)

text \<open>Appending a chain to a head that was just created.\<close>

lemma chain_added_new_head:
  assumes ok: "catalog_ok e d" and h: "find_artifact d h = None" and x: "extends e d d1" "d_chain d1 = d_chain d" and ca: "chain_added h 0 ms r d1 d'"
  shows "extends e d d'" "r = Inr () \<Longrightarrow> chain_of d' h = List.map_filter (find_artifact d') ms"
proof -
  obtain ps qs where c: "ms = ps @ qs" "d_chain d' = d_chain d1 @ member_rows h 0 ps" "r = Inr () \<longrightarrow> qs = []"
    "\<forall>x \<in> set (member_rows h 0 ps). find_artifact d1 (pc_head x) \<noteq> None \<and> find_artifact d1 (pc_member x) \<noteq> None"
    "d_blobs d' = d_blobs d1" "d_artifacts d' = d_artifacts d1" "d_tags d' = d_tags d1" using ca unfolding chain_added_def by blast
  have f: "find_artifact d' = find_artifact d1" by (simp add: fun_eq_iff find_artifact_def c(6))
  have g1: "grows d d1" and ok1: "catalog_ok e d1" using x(1) ok by (auto simp: extends_def)
  have "grows d d'" using g1 c(2,5,6,7) x(2) member_rows_head h unfolding grows_def by fastforce
  moreover have "catalog_ok e d'"
  proof (rule catalog_ok_grows [OF ok \<open>grows d d'\<close>])
    show "distinct (map cb_id (d_blobs d'))" using ok1 c(5) by (simp add: catalog_ok_def)
  next
    fix b assume "b \<in> set (d_blobs d')" then show "cb_id b = ComputeHash e (cb_content b)" using ok1 c(5) by (simp add: catalog_ok_def)
  next
    fix a assume "a \<in> set (d_artifacts d')"
    then have "artifact_ok d1 a" using ok1 c(6) by (simp add: catalog_ok_def)
    moreover have "content_at d' = content_at d1" by (rule content_at_cong) (rule c(5))
    ultimately show "artifact_ok d' a" by (simp add: artifact_ok_def f)
  next
    fix y assume "y \<in> set (d_chain d')"
    then show "find_artifact d' (pc_head y) \<noteq> None \<and> find_artifact d' (pc_member y) \<noteq> None"
      using c(2,4) ok1 unfolding f catalog_ok_def by auto
  qed
  ultimately show "extends e d d'" by (simp add: extends_def)
  assume "r = Inr ()"
  with c have ms: "ms = ps" by simp
  have "\<forall>y \<in> set (d_chain d). pc_head y \<noteq> h" using ok h unfolding catalog_ok_def by force
  then have "filter (\<lambda>y. pc_head y = h) (d_chain d) = []" by (simp add: filter_empty_conv)
  then have "chain_rows d' h = member_rows h 0 ms"
    by (simp add: chain_rows_def c(2) x(2) ms filter_member_rows sort_key_id_if_sorted sorted_member_rows)
  then show "chain_of d' h = List.map_filter (find_artifact d') ms" by (simp add: chain_of_def map_filter_member_rows)
qed

lemma CreatePatch_run:
  assumes ok: "catalog_ok e d" and run: "run_state (CreatePatch e casID b prev depth n who) d = (r, d')"
  shows "extends e d d' \<and> (\<forall>i. r = Inr i \<longrightarrow> (\<exists>t. let a = patch_artifact i casID b depth n who t in
     find_artifact d i = None \<and> find_artifact d' i = Some a \<and>
     ((\<forall>p. prev = Some p \<longrightarrow> find_artifact d p \<noteq> None) \<longrightarrow> chain_of d' i = prev_chain d prev @ [a])))"
proof -
  define i where "i = db_uuid e (d_tick d)"
  define a where "a = patch_artifact i casID b depth n who (db_now e (Suc (d_tick d)))"
  define d0 where "d0 = d\<lparr>d_tick := Suc (Suc (d_tick d))\<rparr>"
  have u0: "untick d0 = untick d" by (simp add: d0_def)
  have ok0: "catalog_ok e d0" by (rule catalog_ok_untick [OF u0 ok])
  have x0: "extends e d d0" by (rule extends_untick [OF u0])
  have f0: "find_artifact d0 = find_artifact d" by (simp add: fun_eq_iff find_artifact_def d0_def)
  have "run_state (check (art_Create e a) ''failed to create patch artifact: '' (\<lambda>_.
     check (previous_members e prev) '''' (\<lambda>previous.
     check (InsertPatchChain e i (previous @ [i])) ''failed to insert patch chain: '' (\<lambda>_. ok i)))) d0 = (r, d')"
    using run by (simp add: CreatePatch_def i_def a_def patch_artifact_def d0_def)
  then show ?thesis
  proof (cases rule: check_cases)
    case (err x)
    have "extends e d0 d'" by (rule extends_art_Create [OF err(1)]) (simp add: a_def)
    then show ?thesis using extends_trans [OF x0] err(2) by simp
  next
    case (cont u d1)
    from art_Create_run [OF cont(1)] have v: "artifact_violation d0 a = None"
      and d1: "d1 = d0\<lparr>d_artifacts := d_artifacts d0 @ [a], d_tick := Suc (d_tick d0)\<rparr>" by auto
    have x1: "extends e d0 d1" by (rule extends_art_Create [OF cont(1)]) (simp add: a_def)
    have c: "find_artifact d0 i = None" "find_artifact d1 i = Some a" "grows d0 d1"
      using created_artifact_ok(2-4) [OF v _ d1] by (simp_all add: a_def)
    have ok1: "catalog_ok e d1" using x1 ok0 by (simp add: extends_def)
    from cont(2) show ?thesis
    proof (cases rule: check_cases)
      case (err x)
      then show ?thesis using extends_trans [OF x0 extends_trans [OF x1 extends_reads [OF reads_artifacts(7) err(1)]]] by simp
    next
      case (cont ms d2)
      note m = previous_members_run [OF cont(1)]
      have d2: "d_chain d2 = d_chain d0" "find_artifact d2 = find_artifact d1" using untick_eq [OF conjunct2 [OF m]]
        by (simp_all add: d1 fun_eq_iff find_artifact_def)
      have x2: "extends e d0 d2" by (rule extends_trans [OF x1 extends_untick]) (use m in simp)
      have "\<exists>r1. run_state (insert_members e i 0 (ms @ [i])) d2 = (r1, d') \<and> (\<forall>k. r = Inr k \<longrightarrow> r1 = Inr () \<and> k = i)"
        using cont(2) by (auto simp: InsertPatchChain_def run_check split: prod.splits sum.splits)
      then obtain r1 where ins: "run_state (insert_members e i 0 (ms @ [i])) d2 = (r1, d')" and r: "\<And>k. r = Inr k \<Longrightarrow> r1 = Inr () \<and> k = i"
        by blast
      note cn = chain_added_new_head [OF ok0 c(1) x2 d2(1) insert_members_run [OF ins]]
      have xf: "extends e d d'" by (rule extends_trans [OF x0 cn(1)])
      show ?thesis
      proof (intro conjI allI impI xf)
        fix j assume "r = Inr j"
        then have j: "j = i" "r1 = Inr ()" using r by auto
        have f': "find_artifact d' = find_artifact d2"
          using insert_members_run [OF ins] by (simp add: chain_added_def fun_eq_iff find_artifact_def)
        have "chain_of d' i = prev_chain d prev @ [a]" if pv: "\<forall>p. prev = Some p \<longrightarrow> find_artifact d p \<noteq> None"
        proof -
          have pc: "prev_chain d1 prev = prev_chain d prev"
          proof (cases prev)
            case (Some p)
            then have pn: "find_artifact d p \<noteq> None" using pv by simp
            have gd: "grows d d1" using extends_trans [OF x0 x1] by (simp add: extends_def)
            show ?thesis using chain_of_grows [OF ok gd pn] Some by (simp add: prev_chain_def)
          qed (simp add: prev_chain_def)
          have "find_artifact d' (ar_id p) = Some p" if "p \<in> set (prev_chain d1 prev @ [a])" for p
            using that chain_of_found c(2) by (auto simp: f' d2(2) prev_chain_def a_def split: option.splits)
          then have "List.map_filter (find_artifact d') (map ar_id (prev_chain d1 prev @ [a])) = prev_chain d1 prev @ [a]"
            by (rule map_filter_find)
          then show ?thesis using cn(2) [OF j(2)] m pc by (simp add: a_def)
        qed
        then show "\<exists>t. let a = patch_artifact j casID b depth n who t in
           find_artifact d j = None \<and> find_artifact d' j = Some a \<and>
           ((\<forall>p. prev = Some p \<longrightarrow> find_artifact d p \<noteq> None) \<longrightarrow> chain_of d' j = prev_chain d prev @ [a])"
          using c f0 unfolding j Let_def a_def by (intro exI [of _ "db_now e (Suc (d_tick d))"]) (simp add: f' d2(2))
      qed
    qed
  qed
qed

section \<open>Moving a tag\<close>

text \<open>The tag points to the artifact, which has the kind; no other tag changed, and no other table.\<close>

definition retagged :: "string \<Rightarrow> string \<Rightarrow> string \<Rightarrow> artifact_kind \<Rightarrow> db \<Rightarrow> db \<Rightarrow> bool" where
  "retagged u n i k d d' \<longleftrightarrow> untick (d'\<lparr>d_tags := d_tags d\<rparr>) = untick d
     \<and> (\<exists>a. find_artifact d i = Some a \<and> ar_kind a = k)
     \<and> (\<exists>t. find_tag d' u n = Some t \<and> tg_target_id t = i \<and> tg_target_kind t = k \<and> set (d_tags d') \<subseteq> insert t (set (d_tags d)))
     \<and> (\<forall>u' n'. (u', n') \<noteq> (u, n) \<longrightarrow> find_tag d' u' n' = find_tag d u' n')"

lemma retagged_tick: "retagged u n i k (d\<lparr>d_tick := a\<rparr>) d' = retagged u n i k d d'"
  by (simp add: retagged_def find_artifact_def find_tag_def)

lemma find_replaced:
  assumes "is_tag u n t'"
  shows "find (is_tag u' n') (map (\<lambda>x. if is_tag u n x then t' else x) ts) =
    (if u' = u \<and> n' = n then (if find (is_tag u n) ts = None then None else Some t') else find (is_tag u' n') ts)"
  using assms by (induction ts) (auto simp: is_tag_def)

lemma tag_violation_None:
  "tag_violation d t = None \<Longrightarrow> \<exists>a. find_artifact d (tg_target_id t) = Some a \<and> ar_kind a = tg_target_kind t"
  by (auto simp: tag_violation_def split: option.splits if_splits)

lemma update_tag_run:
  assumes "run_state (update_tag e u n c f) d = (r, d')" and f: "\<And>t. is_tag u n t \<Longrightarrow> is_tag u n (f t) \<and> tg_target_id (f t) = i \<and> tg_target_kind (f t) = k"
  shows "(\<exists>x. r = Inl x) \<and> untick d' = untick d
    \<or> (\<exists>t. r = Inr (tg_version (f t)) \<and> find_tag d u n = Some t \<and> c t \<and> find_tag d' u n = Some (f t) \<and> retagged u n i k d d')"
proof (cases "\<exists>x. r = Inl x")
  case True
  then show ?thesis using assms(1) by (auto simp: update_tag_def run_query Let_def split: option.splits if_splits)
next
  case False
  then obtain t where t: "find_tag d u n = Some t" "c t" "tag_violation d (f t) = None" "r = Inr (tg_version (f t))"
    "d' = d\<lparr>d_tags := map (\<lambda>x. if is_tag u n x then f t else x) (d_tags d), d_tick := Suc (d_tick d)\<rparr>"
    using assms(1) by (auto simp: update_tag_def run_query Let_def split: option.splits if_splits)
  have it: "is_tag u n t" using find_tag_in [OF t(1)] by (simp add: is_tag_def)
  note ft = f [OF it]
  have fr: "find_tag d' u' n' = (if u' = u \<and> n' = n then Some (f t) else find_tag d u' n')" for u' n'
    using t(1) find_replaced [OF conjunct1 [OF ft]] by (auto simp: find_tag_def t(5))
  have "set (d_tags d') \<subseteq> insert (f t) (set (d_tags d))" by (auto simp: t(5))
  then have "retagged u n i k d d'"
    using tag_violation_None [OF t(3)] ft unfolding retagged_def by (auto simp: fr) (simp add: t(5))
  then show ?thesis using t fr by auto
qed

lemma tag_Create_run:
  assumes "run_state (tag_Create e t) d = (r, d')"
  shows "(\<exists>x. r = Inl x) \<and> untick d' = untick d
    \<or> r = Inr () \<and> find_tag d' (tg_username t) (tg_name t) = Some t \<and> retagged (tg_username t) (tg_name t) (tg_target_id t) (tg_target_kind t) d d'"
proof (cases "\<exists>x. r = Inl x")
  case True
  then show ?thesis using assms by (auto simp: tag_Create_def run_check run_query split: option.splits if_splits prod.splits sum.splits)
next
  case False
  then have t: "tag_violation d t = None" "find_tag d (tg_username t) (tg_name t) = None" "r = Inr ()"
    "d' = d\<lparr>d_tags := d_tags d @ [t], d_tick := Suc (d_tick d)\<rparr>"
    using assms by (auto simp: tag_Create_def run_check run_query split: option.splits if_splits prod.splits sum.splits)
  have fr: "find_tag d' u' n' = (if u' = tg_username t \<and> n' = tg_name t then Some t else find_tag d u' n')" for u' n'
    using t(2) by (auto simp: find_tag_def find_append is_tag_def t(4) split: option.split)
  then have "retagged (tg_username t) (tg_name t) (tg_target_id t) (tg_target_kind t) d d'"
    using tag_violation_None [OF t(1)] unfolding retagged_def by (auto) (simp_all add: t(4) subset_insertI)
  with t fr show ?thesis by auto
qed

lemma is_tag_move: "is_tag u n t \<Longrightarrow> is_tag u n (move k i h w m t) \<and> tg_target_id (move k i h w m t) = i \<and> tg_target_kind (move k i h w m t) = k"
  by (simp add: is_tag_def move_def)

lemma tag_Update_run:
  assumes "run_state (tag_Update e t) d = (r, d')"
  shows "(\<exists>x. r = Inl x) \<and> untick d' = untick d \<or> (\<exists>v. r = Inr v) \<and> retagged (tg_username t) (tg_name t) (tg_target_id t) (tg_target_kind t) d d'"
proof -
  from assms show ?thesis unfolding tag_Update_def
  proof (cases rule: check_cases)
    case (err x)
    then show ?thesis using update_tag_run [OF err(1) is_tag_move] by blast
  next
    case (cont a d1)
    then show ?thesis using update_tag_run [OF cont(1) is_tag_move] by auto
  qed
qed

lemma reads_tag [reads_intros]: "reads (tag_Exists e u n)" "reads (tag_GetByName e u n)" "reads (GetTag e u n)"
  by (auto simp: tag_Exists_def tag_GetByName_def GetTag_def intro!: reads_intros)

lemma retagged_untick:
  assumes u: "untick d1 = untick d" and r: "retagged u n i k d1 d'"
  shows "retagged u n i k d d'"
proof -
  note e = untick_eq [OF u]
  have "find_artifact d1 = find_artifact d" "find_tag d1 = find_tag d" by (simp_all add: fun_eq_iff find_artifact_def find_tag_def e)
  moreover have "untick (d'\<lparr>d_tags := d_tags d\<rparr>) = untick d" using r e(3) u by (simp add: retagged_def)
  ultimately show ?thesis using r by (simp add: retagged_def e(3))
qed

lemma CreateOrMoveTag_run:
  assumes "run_state (CreateOrMoveTag e u n k i h w) d = (r, d')"
  shows "(\<exists>x. r = Inl x) \<and> untick d' = untick d \<or> r = Inr () \<and> retagged u n i k d d'"
proof -
  have move: "(\<exists>x. r = Inl x) \<and> untick d' = untick d \<or> r = Inr () \<and> retagged u n i k d d'"
    if "run_state (MoveTag e u n k i h w) d = (r, d')" for d
  proof -
    let ?t = "\<lparr>tg_username = u, tg_name = n, tg_target_kind = k, tg_target_id = i, tg_target_hash = Some h, tg_version = 0,
      tg_created_by = None, tg_moved_by = Some w, tg_moved_at = db_now e (d_tick d)\<rparr>"
    obtain r1 d2 where up: "run_state (tag_Update e ?t) (d\<lparr>d_tick := Suc (d_tick d)\<rparr>) = (r1, d2)" by (cases "run_state (tag_Update e ?t) (d\<lparr>d_tick := Suc (d_tick d)\<rparr>)")
    have "d2 = d'" and "(\<exists>x. r1 = Inl x) = (\<exists>x. r = Inl x)" and "(\<exists>v. r1 = Inr v) = (r = Inr ())"
      using that up by (cases r1; auto simp: MoveTag_def run_check)+
    with tag_Update_run [OF up] show ?thesis by (simp add: retagged_tick)
  qed
  have create: "(\<exists>x. r = Inl x) \<and> untick d' = untick d \<or> r = Inr () \<and> retagged u n i k d d'"
    if "run_state (CreateTag e u n k i h w) d = (r, d')" for d
    using that unfolding CreateTag_def
  proof (cases rule: check_cases)
    case (err x)
    then show ?thesis using readsD [OF reads_tag(1) err(1)] by auto
  next
    case (cont ex d1)
    note u1 = readsD [OF reads_tag(1) cont(1)]
    let ?t = "\<lparr>tg_username = u, tg_name = n, tg_target_kind = k, tg_target_id = i, tg_target_hash = Some h, tg_version = 1,
      tg_created_by = Some w, tg_moved_by = Some w, tg_moved_at = db_now e (d_tick d1)\<rparr>"
    show ?thesis
    proof (cases ex)
      case False
      obtain r1 d2 where up: "run_state (tag_Create e ?t) (d1\<lparr>d_tick := Suc (d_tick d1)\<rparr>) = (r1, d2)" by (cases "run_state (tag_Create e ?t) (d1\<lparr>d_tick := Suc (d_tick d1)\<rparr>)")
      have "d2 = d'" and "(\<exists>x. r1 = Inl x) = (\<exists>x. r = Inl x)" and "r1 = Inr () \<longleftrightarrow> r = Inr ()"
        using cont(2) up False by (cases r1; auto simp: run_check)+
      with tag_Create_run [OF up] u1 retagged_untick [OF u1] show ?thesis by (simp add: retagged_tick) metis
    qed (use cont(2) u1 in auto)
  qed
  from assms show ?thesis unfolding CreateOrMoveTag_def
  proof (cases rule: check_cases)
    case (err x)
    then show ?thesis using readsD [OF reads_tag(1) err(1)] by auto
  next
    case (cont ex d1)
    note u1 = readsD [OF reads_tag(1) cont(1)]
    have "(\<exists>x. r = Inl x) \<and> untick d' = untick d1 \<or> r = Inr () \<and> retagged u n i k d1 d'"
      using cont(2) move create by (auto split: if_splits)
    then show ?thesis using u1 retagged_untick [OF u1] by auto
  qed
qed

lemma retagged_versions:
  assumes ok: "catalog_ok e d" and r: "retagged u n i k d d'" and a: "find_artifact d i = Some a" "head_ok d a"
  shows "catalog_ok e d'" "versions d' = (versions d)((u, n) := version_of d a)"
proof -
  obtain t where t: "find_tag d' u n = Some t" "tg_target_id t = i" "tg_target_kind t = k" "set (d_tags d') \<subseteq> insert t (set (d_tags d))"
    and others: "\<And>u' n'. (u', n') \<noteq> (u, n) \<Longrightarrow> find_tag d' u' n' = find_tag d u' n'"
    and u: "untick (d'\<lparr>d_tags := d_tags d\<rparr>) = untick d" and k: "ar_kind a = k" using r a(1) unfolding retagged_def by auto
  have e: "d_blobs d' = d_blobs d" "d_artifacts d' = d_artifacts d" "d_chain d' = d_chain d" using untick_eq [OF u] by simp_all
  have f: "find_artifact d' = find_artifact d" "content_at d' = content_at d" "chain_of d' = chain_of d"
    by (simp_all add: fun_eq_iff find_artifact_def content_at_def find_blob_def chain_of_def chain_rows_def e)
  have g: "artifact_ok d' = artifact_ok d" "head_ok d' = head_ok d" "version_of d' = version_of d"
    unfolding fun_eq_iff artifact_ok_def head_ok_def version_of_def f by simp_all
  have "\<forall>x \<in> set (d_tags d'). \<exists>a. find_artifact d (tg_target_id x) = Some a \<and> ar_kind a = tg_target_kind x \<and> head_ok d a"
    using t k a ok unfolding catalog_ok_def by blast
  then show "catalog_ok e d'" using ok by (simp add: catalog_ok_def e f g)
  show "versions d' = (versions d)((u, n) := version_of d a)"
    using t(1,2) a(1) others unfolding fun_eq_iff versions_def f g by auto
qed

lemma same_versions:
  assumes "catalog_ok e d" and "extends e d d'"
  shows "catalog_ok e d'" "versions d' = versions d"
  using assms versions_grows [of e d d'] unfolding extends_def by blast+

section \<open>Creating and patching a workflow\<close>

lemma CreateDAGVersion_run:
  assumes "run_state (CreateDAGVersion e c c name who n m) d = (r, d')"
  shows "extends e d d' \<and> (\<forall>i. r = Inr i \<longrightarrow> (\<exists>a. find_artifact d' i = Some a \<and> ar_version_hash a = Some c))"
proof -
  define i where "i = db_uuid e (d_tick d)"
  define a where "a = (new_artifact i KindDAGVersion c who (db_now e (Suc (d_tick d))))\<lparr>ar_name := Some name,
    ar_version_hash := Some c, ar_nodes_count := Some n, ar_edges_count := Some m\<rparr>"
  define d0 where "d0 = d\<lparr>d_tick := Suc (Suc (d_tick d))\<rparr>"
  have h: "ar_kind a = KindDAGVersion \<longrightarrow> ar_version_hash a = Some (ar_cas_id a)" by (simp add: a_def new_artifact_def)
  have x0: "extends e d d0" by (rule extends_untick) (simp add: d0_def)
  have "run_state (check (art_Create e a) ''failed to create DAG version artifact: '' (\<lambda>_. ok i)) d0 = (r, d')"
    using assms by (simp add: CreateDAGVersion_def i_def a_def d0_def)
  then show ?thesis
  proof (cases rule: check_cases)
    case (err x)
    then show ?thesis using extends_trans [OF x0 extends_art_Create [OF err(1) h]] by simp
  next
    case (cont u d1)
    from art_Create_run [OF cont(1)] have "artifact_violation d0 a = None"
      and "d1 = d0\<lparr>d_artifacts := d_artifacts d0 @ [a], d_tick := Suc (d_tick d0)\<rparr>" by auto
    note c = created_artifact_ok(3) [OF this(1) h this(2)]
    show ?thesis using extends_trans [OF x0 extends_art_Create [OF cont(1) h]] c cont(2)
      by (auto simp: a_def new_artifact_def)
  qed
qed

lemma version_artifact_run:
  assumes ok: "catalog_ok e d" and run: "run_state (version_artifact e req c) d = (r, d')"
  shows "extends e d d' \<and> (\<forall>i. r = Inr i \<longrightarrow> (\<exists>a. find_artifact d' i = Some a \<and> ar_version_hash a = Some c))"
proof -
  obtain q d1 where q: "run_state (GetByVersionHash e c) d = (q, d1)" by (cases "run_state (GetByVersionHash e c) d")
  note u1 = readsD [OF reads_artifacts(9) q]
  have x1: "extends e d d1" by (rule extends_untick [OF u1])
  show ?thesis
  proof (cases q)
    case (Inr a)
    then have a: "a \<in> set (d_artifacts d)" "ar_version_hash a = Some c"
      using q by (auto simp: GetByVersionHash_def art_GetByVersionHash_def run_check_ok select_one_def run_query any_row_def
          split: option.splits if_splits) (metis (mono_tags, lifting) length_greater_0_conv mem_Collect_eq mod_less_divisor nth_mem set_filter)+
    have "find_artifact d (ar_id a) = Some a" using ok a(1) by (auto simp: catalog_ok_def artifact_ok_def)
    then have "find_artifact d1 (ar_id a) = Some a" using untick_eq(2) [OF u1] by (simp add: find_artifact_def)
    then show ?thesis using run q Inr a(2) x1 by (auto simp: version_artifact_def)
  next
    case (Inl x)
    obtain n m where nm: "CountWorkflowElements (wq_workflow req) = (n, m)" by (cases "CountWorkflowElements (wq_workflow req)")
    have "run_state (check (CreateDAGVersion e c c (wq_tag_name req) (wq_created_by req) n m) ''failed to create artifact: '' ok) d1 = (r, d')"
      using run q Inl nm by (simp add: version_artifact_def)
    then obtain r1 where "run_state (CreateDAGVersion e c c (wq_tag_name req) (wq_created_by req) n m) d1 = (r1, d')" "r = Inr i \<Longrightarrow> r1 = Inr i" for i
      by (cases rule: check_cases) auto
    with CreateDAGVersion_run [of e c _ _ n m d1] extends_trans [OF x1] show ?thesis by blast
  qed
qed

definition no_collision :: "dbenv \<Rightarrow> db \<Rightarrow> string \<Rightarrow> bool" where
  "no_collision e d c \<longleftrightarrow> (\<forall>b \<in> set (d_blobs d). db_sha256 e (cb_content b) = db_sha256 e c \<longrightarrow> cb_content b = c)"

lemma StoreContent_stored:
  assumes ok: "catalog_ok e d" and nc: "no_collision e d c" and run: "run_state (StoreContent e c m) d = (Inr i, d')"
  shows "i = ComputeHash e c" "content_at d' i = Some c"
proof -
  have "\<not> db_cas.collides e d c"
  proof
    assume "db_cas.collides e d c"
    then obtain b where "find_blob d (ComputeHash e c) = Some b" "cb_content b \<noteq> c"
      by (auto simp: db_cas.collides_def content_at_def)
    then have "b \<in> set (d_blobs d)" "cb_id b = ComputeHash e c" by (auto simp: find_blob_def find_Some_iff)
    moreover have "cb_id b = ComputeHash e (cb_content b)" using ok calculation(1) by (simp add: catalog_ok_def)
    ultimately show False using nc \<open>cb_content b \<noteq> c\<close> by (simp add: no_collision_def ComputeHash_def)
  qed
  from db_cas.stored [OF run this] show "i = ComputeHash e c" "content_at d' i = Some c" by simp_all
qed

lemma CreateWorkflow_refines:
  assumes ok: "catalog_ok e d" and nc: "no_collision e d (marshal e (GObj (wq_workflow req)))"
    and run: "run_state (CreateWorkflow e req) d = (r, d')"
  shows "catalog_ok e d' \<and> versions d' = (case r of Inl _ \<Rightarrow> versions d
    | Inr _ \<Rightarrow> (versions d)((wq_username req, wq_tag_name req) \<mapsto> (marshal e (GObj (wq_workflow req)), [])))"
  using run unfolding CreateWorkflow_def
proof (cases rule: check_cases)
  case (err x)
  then show ?thesis using same_versions [OF ok extends_StoreContent [OF err(1)]] by simp
next
  case (cont c d1)
  note s1 = same_versions [OF ok extends_StoreContent [OF cont(1)]]
  note st = StoreContent_stored [OF ok nc cont(1)]
  from cont(2) show ?thesis
  proof (cases rule: check_cases)
    case (err x)
    then show ?thesis using version_artifact_run [OF s1(1) err(1)] same_versions [OF s1(1), of d'] s1(2) by simp
  next
    case (cont i d2)
    note va = version_artifact_run [OF s1(1) cont(1)]
    obtain a where a: "find_artifact d2 i = Some a" "ar_version_hash a = Some c" using va by blast
    note s2 = same_versions [OF s1(1) conjunct1 [OF va]]
    have c2: "content_at d2 c = Some (marshal e (GObj (wq_workflow req)))"
      using st content_at_grows [of d1 d2] va by (simp add: extends_def)
    from cont(2) show ?thesis
    proof (cases rule: check_cases)
      case (err x)
      then have u: "untick d' = untick d2" using CreateOrMoveTag_run [OF err(1)] by auto
      then show ?thesis using same_versions [OF s2(1) extends_untick [OF u]] s2(2) s1(2) err(2) by simp
    next
      case (cont v d3)
      then have rt: "retagged (wq_username req) (wq_tag_name req) i KindDAGVersion d2 d3" using CreateOrMoveTag_run [OF cont(1)] by auto
      then have k: "ar_kind a = KindDAGVersion" using a(1) by (auto simp: retagged_def)
      then have h: "head_ok d2 a" "ar_cas_id a = c" using s2(1) a find_artifact_in [OF a(1)]
        by (auto simp: head_ok_def catalog_ok_def artifact_ok_def)
      have "version_of d2 a = Some (marshal e (GObj (wq_workflow req)), [])" using k h(2) c2 by (simp add: version_of_def)
      with retagged_versions [OF s2(1) rt a(1) h(1)] s2(2) s1(2)
      have v3: "catalog_ok e d3" "versions d3 = (versions d)((wq_username req, wq_tag_name req) \<mapsto> (marshal e (GObj (wq_workflow req)), []))" by simp_all
      have "untick d' = untick d3" "\<exists>y. r = Inr y" using cont(2) by (auto split: prod.splits)
      then show ?thesis using same_versions [OF v3(1) extends_untick] v3(2) by auto
    qed
  qed
qed

lemma patch_position_ok:
  assumes "catalog_ok e d" and "find_artifact d (ar_id a) = Some a" and "head_ok d a" and "patch_position a = Inr (b, prev, depth)"
  shows "\<exists>c ba. find_artifact d b = Some ba \<and> content_at d (ar_cas_id ba) = Some c
      \<and> version_of d a = Some (c, map (\<lambda>p. the (content_at d (ar_cas_id p))) (prev_chain d prev))
      \<and> depth = int (length (prev_chain d prev)) + 1 \<and> distinct (map ar_id (prev_chain d prev)) \<and> (\<forall>p. prev = Some p \<longrightarrow> find_artifact d p \<noteq> None)"
proof (cases "ar_kind a = KindDAGVersion")
  case True
  then have "b = ar_id a" "prev = None" "depth = 1" using assms(4) by (auto simp: patch_position_def IsDAGVersion_def)
  moreover obtain c where "content_at d (ar_cas_id a) = Some c" using artifact_content [OF assms(1)] find_artifact_in [OF assms(2)] by blast
  ultimately show ?thesis using assms(2) True by (simp add: version_of_def prev_chain_def)
next
  case False
  then have k: "ar_kind a = KindPatchSet" and h: "ar_depth a = Some (int (length (chain_of d (ar_id a))))" "distinct (map ar_id (chain_of d (ar_id a)))"
    using assms(3) by (auto simp: head_ok_def)
  have p: "ar_base_version a = Some b" "prev = Some (ar_id a)" "depth = int (length (chain_of d (ar_id a))) + 1"
    using assms(4) k h by (auto simp: patch_position_def IsDAGVersion_def IsPatchSet_def split: option.splits)
  obtain ba where ba: "find_artifact d b = Some ba" using assms(1) find_artifact_in [OF assms(2)] k p(1)
    by (auto simp: catalog_ok_def artifact_ok_def)
  obtain c where "content_at d (ar_cas_id ba) = Some c" using artifact_content [OF assms(1)] find_artifact_in [OF ba] by blast
  then show ?thesis using k p ba h assms(2) by (simp add: version_of_def prev_chain_def)
qed

lemma reads_resolve [reads_intros]: "reads (resolveTagToArtifact e u n)"
  unfolding resolveTagToArtifact_def by (intro reads_intros)

lemma resolve_run:
  assumes "catalog_ok e d" and "run_state (resolveTagToArtifact e u n) d = (Inr a, d')"
  shows "untick d' = untick d" "find_artifact d (ar_id a) = Some a" "head_ok d a" "versions d (u, n) = version_of d a"
proof -
  show "untick d' = untick d" by (rule readsD [OF reads_resolve assms(2)])
  obtain t where t: "find_tag d u n = Some t" "find_artifact d (tg_target_id t) = Some a"
    using assms(2) by (auto simp: resolveTagToArtifact_def GetTag_def tag_GetByName_def GetByID_def art_GetByID_def run_check_ok
        select_one_def run_query find_artifact_def split: option.splits)
  then show "find_artifact d (ar_id a) = Some a" "versions d (u, n) = version_of d a" using find_artifact_in [OF t(2)] by (simp_all add: versions_def)
  show "head_ok d a" using assms(1) find_tag_in [OF t(1)] t(2) by (auto simp: catalog_ok_def)
qed

text \<open>The new patch is a good head, and its version appends the patch's text.\<close>

lemma new_patch_head:
  assumes ok: "catalog_ok e d" and ok': "catalog_ok e d'" and g: "grows d d'"
    and a: "find_artifact d' i = Some a" "ar_kind a = KindPatchSet" "ar_base_version a = Some b" "ar_depth a = Some (int (length ps) + 1)"
    and fresh: "find_artifact d i = None" and ch: "chain_of d' i = ps @ [a]"
    and ps: "distinct (map ar_id ps)" "\<And>p. p \<in> set ps \<Longrightarrow> p \<in> set (d_artifacts d)"
    and ba: "find_artifact d b = Some ba" "content_at d (ar_cas_id ba) = Some c" and tx: "content_at d' (ar_cas_id a) = Some s"
  shows "head_ok d' a" "version_of d' a = Some (c, map (\<lambda>p. the (content_at d (ar_cas_id p))) ps @ [s])"
proof -
  have i: "ar_id a = i" using find_artifact_in [OF a(1)] by simp
  have "i \<notin> ar_id ` set ps" using ps(2) fresh by (auto simp: find_artifact_def find_None_iff)
  then show "head_ok d' a" using a ch ps(1) i by (simp add: head_ok_def)
  have "the (content_at d' (ar_cas_id p)) = the (content_at d (ar_cas_id p))" if "p \<in> set ps" for p
    using content_same [OF ok g ps(2) [OF that]] by simp
  then have "map (\<lambda>p. the (content_at d' (ar_cas_id p))) ps = map (\<lambda>p. the (content_at d (ar_cas_id p))) ps" by simp
  then show "version_of d' a = Some (c, map (\<lambda>p. the (content_at d (ar_cas_id p))) ps @ [s])"
    using a(2,3) find_artifact_grows [OF g ba(1)] content_at_grows [OF g ba(2)] ch i tx by (simp add: version_of_def)
qed

lemma CreatePatch_refines:
  assumes ok: "catalog_ok e d" and nc: "no_collision e d (patch_text e req)"
    and run: "run_state (workflow_CreatePatch e req) d = (r, d')"
  shows "catalog_ok e d' \<and> (case r of Inl _ \<Rightarrow> versions d' = versions d
    | Inr y \<Rightarrow> \<exists>c ps. versions d (pq_username req, pq_tag_name req) = Some (c, ps) \<and> pr_depth y = int (length ps) + 1
        \<and> versions d' = (versions d)((pq_username req, pq_tag_name req) \<mapsto> (c, ps @ [patch_text e req])))"
  using run unfolding workflow_CreatePatch_def
proof (cases rule: check_cases)
  case (err x)
  then show ?thesis using same_versions [OF ok extends_reads [OF reads_resolve err(1)]] by simp
next
  case (cont cur d1)
  note rs = resolve_run [OF ok cont(1)]
  show ?thesis
  proof (cases "patch_position cur")
    case (Inl x)
    then show ?thesis using cont(2) same_versions [OF ok extends_untick [OF rs(1)]] by auto
  next
    case (Inr y)
    obtain b prev depth where pos: "patch_position cur = Inr (b, prev, depth)" using Inr by (cases y) auto
    obtain c ba where pp: "find_artifact d b = Some ba" "content_at d (ar_cas_id ba) = Some c"
      "version_of d cur = Some (c, map (\<lambda>p. the (content_at d (ar_cas_id p))) (prev_chain d prev))"
      "depth = int (length (prev_chain d prev)) + 1" "distinct (map ar_id (prev_chain d prev))" "\<forall>p. prev = Some p \<longrightarrow> find_artifact d p \<noteq> None"
      using patch_position_ok [OF ok rs(2,3) pos] by blast
    have nc1: "no_collision e d1 (patch_text e req)" using nc untick_eq(1) [OF rs(1)] by (simp add: no_collision_def)
    note s1 = same_versions [OF ok extends_untick [OF rs(1)]]
    have x1: "extends e d d1" by (rule extends_untick [OF rs(1)])
    have "run_state (check (StoreContent e (patch_text e req) ''application/json;type=patch'') ''failed to store patch content: '' (\<lambda>casID.
     check (CreatePatch e casID b prev depth (int (length (pq_operations req))) (pq_created_by req))
       ''failed to create patch artifact: '' (\<lambda>i.
     check (CreateOrMoveTag e (pq_username req) (pq_tag_name req) KindPatchSet i casID (pq_created_by req)) ''failed to move tag: '' (\<lambda>_.
     State_Monad.bind (reading (db_now e)) (\<lambda>t.
       ok \<lparr>pr_artifact_id = i, pr_cas_id = casID, pr_depth = depth, pr_op_count = int (length (pq_operations req)),
            pr_username = pq_username req, pr_tag_name = pq_tag_name req, pr_description = pq_description req, pr_created_at = t\<rparr>))))) d1 = (r, d')"
      using cont(2) pos by simp
    then show ?thesis
    proof (cases rule: check_cases)
      case (err x)
      then show ?thesis using same_versions [OF s1(1) extends_StoreContent [OF err(1)]] s1(2) by simp
    next
      case (cont casID d2)
      note st = StoreContent_stored [OF s1(1) nc1 cont(1)]
      have x2: "extends e d d2" by (rule extends_trans [OF x1 extends_StoreContent [OF cont(1)]])
      note s2 = same_versions [OF ok x2]
      from cont(2) show ?thesis
      proof (cases rule: check_cases)
        case (err x)
        then show ?thesis using same_versions [OF s2(1) conjunct1 [OF CreatePatch_run [OF s2(1) err(1)]]] s2(2) by simp
      next
        case (cont i d3)
        note cp = CreatePatch_run [OF s2(1) cont(1)]
        have x3: "extends e d d3" by (rule extends_trans [OF x2 conjunct1 [OF cp]])
        note s3 = same_versions [OF ok x3]
        have g23: "grows d2 d3" and g02: "grows d d2" and g03: "grows d d3" using cp x2 x3 by (simp_all add: extends_def)
        obtain t where t: "find_artifact d2 i = None" "find_artifact d3 i = Some (patch_artifact i casID b depth (int (length (pq_operations req))) (pq_created_by req) t)"
          "(\<forall>p. prev = Some p \<longrightarrow> find_artifact d2 p \<noteq> None) \<longrightarrow> chain_of d3 i = prev_chain d2 prev @ [patch_artifact i casID b depth (int (length (pq_operations req))) (pq_created_by req) t]"
          using cp unfolding Let_def by blast
        define a where "a = patch_artifact i casID b depth (int (length (pq_operations req))) (pq_created_by req) t"
        have pc: "prev_chain d2 prev = prev_chain d prev" "\<forall>p. prev = Some p \<longrightarrow> find_artifact d2 p \<noteq> None"
          using pp(6) chain_of_grows [OF ok g02] find_artifact_grows [OF g02] by (auto simp: prev_chain_def split: option.split)
        have fr: "find_artifact d i = None" using t(1) find_artifact_grows [OF g02] by (cases "find_artifact d i") auto
        have in_d: "p \<in> set (d_artifacts d)" if "p \<in> set (prev_chain d prev)" for p
          using that chain_of_in by (auto simp: prev_chain_def split: option.splits)
        have ca: "content_at d3 (ar_cas_id a) = Some (patch_text e req)" using content_at_grows [OF g23 st(2)] by (simp add: a_def)
        have hd: "head_ok d3 a" "version_of d3 a = Some (c, map (\<lambda>p. the (content_at d (ar_cas_id p))) (prev_chain d prev) @ [patch_text e req])"
          by (rule new_patch_head [OF ok s3(1) g03 _ _ _ _ fr _ pp(5) in_d pp(1,2) ca]; use t(2,3) pc pp(4) in \<open>simp add: a_def\<close>)+
        from cont(2) show ?thesis
        proof (cases rule: check_cases)
          case (err x)
          then have u: "untick d' = untick d3" using CreateOrMoveTag_run [OF err(1)] by auto
          then show ?thesis using same_versions [OF s3(1) extends_untick [OF u]] s3(2) err(2) by simp
        next
          case (cont v d4)
          then have rt: "retagged (pq_username req) (pq_tag_name req) i KindPatchSet d3 d4" using CreateOrMoveTag_run [OF cont(1)] by auto
          note v4 = retagged_versions [OF s3(1) rt t(2) [folded a_def] hd(1)]
          have u: "untick d' = untick d4" and y: "\<exists>y. r = Inr y \<and> pr_depth y = depth" using cont(2) by auto
          note v5 = same_versions [OF v4(1) extends_untick [OF u]]
          show ?thesis using v5 v4(2) s3(2) hd(2) pp(3,4) rs(4) y by auto
        qed
      qed
    qed
  qed
qed

end
