(* ===== verification/Version_History.thy ===== *)
theory Version_History
  imports Versions_Correct
begin

text \<open>
  What a user of the version store sees: reading returns the abstract version, at the head and at an earlier
  patch; compaction of a chain and migration of its tag keep the workflow; the history of a tag under any
  sequence of operations. The properties of the store are stated here.
\<close>

section \<open>Reading\<close>

definition db_reliable :: "dbenv \<Rightarrow> bool" where
  "db_reliable e \<longleftrightarrow> (\<forall>t. db_fault e t = None)"

primrec apply_all :: "dbenv \<Rightarrow> string \<Rightarrow> string list \<Rightarrow> string option" where
  "apply_all e c [] = Some c"
| "apply_all e c (p # ps) = (case applyPatch e c p of Inl _ \<Rightarrow> None | Inr s \<Rightarrow> apply_all e s ps)"

lemma apply_chain_all: "(apply_chain e i c ps = Inr s) = (apply_all e c (map pi_content ps) = Some s)"
  by (induction ps arbitrary: i c) (auto split: sum.splits)

lemma Materialize_iff:
  assumes "wc_kind wcs = KindDAGVersion \<and> wc_patch_chain wcs = [] \<or> wc_kind wcs = KindPatchSet"
  shows "Materialize e wcs = Inr m \<longleftrightarrow>
    (\<exists>s. apply_all e (wc_base_content wcs) (map pi_content (wc_patch_chain wcs)) = Some s \<and> unmarshalWorkflow e s = Inr m)"
proof (cases "wc_patch_chain wcs = []")
  case True
  then show ?thesis using assms by (auto simp: Materialize_def materializePatchSet_def)
next
  case False
  then have k: "wc_kind wcs = KindPatchSet" using assms by simp
  let ?all = "apply_all e (wc_base_content wcs) (map pi_content (wc_patch_chain wcs))"
  show ?thesis
  proof (cases "apply_chain e 0 (wc_base_content wcs) (wc_patch_chain wcs)")
    case (Inl x)
    then have "?all = None" using apply_chain_all [of e 0 "wc_base_content wcs" "wc_patch_chain wcs"] by (cases ?all) auto
    with Inl False k show ?thesis by (simp add: Materialize_def materializePatchSet_def)
  next
    case (Inr s)
    then have "?all = Some s" by (simp add: apply_chain_all)
    with Inr False k show ?thesis by (simp add: Materialize_def materializePatchSet_def)
  qed
qed

lemma select_one_reliable:
  "db_reliable e \<Longrightarrow> f d = Some x \<Longrightarrow> run_state (select_one e f) d = (Inr x, d\<lparr>d_tick := Suc (d_tick d)\<rparr>)"
  by (simp add: select_one_def run_query db_reliable_def)

lemma select_reliable: "db_reliable e \<Longrightarrow> run_state (select e f) d = (Inr (f d), d\<lparr>d_tick := Suc (d_tick d)\<rparr>)"
  by (simp add: select_def run_query db_reliable_def)

lemma tick_lookup [simp]:
  "find_blob (d\<lparr>d_tick := n\<rparr>) = find_blob d" "find_artifact (d\<lparr>d_tick := n\<rparr>) = find_artifact d" "find_tag (d\<lparr>d_tick := n\<rparr>) = find_tag d"
  "content_at (d\<lparr>d_tick := n\<rparr>) = content_at d" "chain_of (d\<lparr>d_tick := n\<rparr>) = chain_of d"
  by (simp_all add: fun_eq_iff find_blob_def find_artifact_def find_tag_def content_at_def chain_of_def chain_rows_def)

lemma run_GetContent:
  "db_reliable e \<Longrightarrow> content_at d i = Some c \<Longrightarrow> run_state (GetContent e i) d = (Inr c, d\<lparr>d_tick := Suc (d_tick d)\<rparr>)"
  by (simp add: GetContent_def blob_GetContentByID_def run_check select_one_reliable content_at_def)

lemma run_GetByID:
  "db_reliable e \<Longrightarrow> find_artifact d i = Some a \<Longrightarrow> run_state (GetByID e i) d = (Inr a, d\<lparr>d_tick := Suc (d_tick d)\<rparr>)"
  by (simp add: GetByID_def art_GetByID_def run_check select_one_reliable)

lemma run_GetPatchChain:
  "db_reliable e \<Longrightarrow> run_state (GetPatchChain e i) d = (Inr (chain_of d i), d\<lparr>d_tick := Suc (d_tick d)\<rparr>)"
  by (simp add: GetPatchChain_def art_GetPatchChain_def run_check select_reliable)

lemma run_resolve:
  assumes "db_reliable e" and "find_tag d u n = Some t" and "find_artifact d (tg_target_id t) = Some a"
  shows "run_state (resolveTagToArtifact e u n) d = (Inr a, d\<lparr>d_tick := Suc (Suc (d_tick d))\<rparr>)"
  using assms by (simp add: resolveTagToArtifact_def GetTag_def tag_GetByName_def run_check select_one_reliable run_GetByID)

text \<open>The bulk query finds every content it is asked for.\<close>

lemma map_of_blobs:
  assumes "distinct (map cb_id bs)"
  shows "map_of (map (\<lambda>b. (cb_id b, cb_content b)) (filter (\<lambda>b. cb_id b \<in> I) bs)) i
    = (if i \<in> I then map_option cb_content (find (\<lambda>b. cb_id b = i) bs) else None)"
  using assms by (induction bs) auto

lemma run_GetContentBulk:
  assumes "db_reliable e" and "catalog_ok e d" and "is \<noteq> []"
  shows "\<exists>m. run_state (GetContentBulk e is) d = (Inr m, d\<lparr>d_tick := Suc (d_tick d)\<rparr>) \<and> (\<forall>i \<in> set is. map_of m i = content_at d i)
    \<and> m = map (\<lambda>b. (cb_id b, cb_content b)) (filter (\<lambda>b. cb_id b \<in> set is) (d_blobs d))"
  using assms by (auto simp: GetContentBulk_def blob_GetContentBulk_def run_check select_reliable map_of_blobs catalog_ok_def content_at_def find_blob_def)

lemma build_chain_ok:
  assumes "\<And>p. p \<in> set ps \<Longrightarrow> map_of m (ar_cas_id p) = content_at d (ar_cas_id p) \<and> content_at d (ar_cas_id p) \<noteq> None"
  shows "\<exists>ch. build_chain m i ps = Inr ch \<and> map pi_content ch = map (\<lambda>p. the (content_at d (ar_cas_id p))) ps
    \<and> map pi_artifact_id ch = map ar_id ps \<and> map pi_seq ch = map Suc [i ..< i + length ps]"
  using assms
proof (induction ps arbitrary: i)
  case (Cons p ps)
  from Cons.IH [of "Suc i"] Cons.prems obtain ch where "build_chain m (Suc i) ps = Inr ch" "map pi_content ch = map (\<lambda>p. the (content_at d (ar_cas_id p))) ps"
    "map pi_artifact_id ch = map ar_id ps" "map pi_seq ch = map Suc [Suc i ..< Suc i + length ps]" by auto
  moreover obtain s where "content_at d (ar_cas_id p) = Some s" "map_of m (ar_cas_id p) = Some s" using Cons.prems by fastforce
  ultimately show ?case by (simp add: upt_conv_Cons del: upt_Suc)
qed simp

lemma loadPatchChain_ok:
  assumes "db_reliable e" and "catalog_ok e d" and "set ps \<subseteq> set (d_artifacts d)"
  shows "\<exists>ch n. run_state (loadPatchChain e ps wcs) d = (Inr (wcs\<lparr>wc_patch_chain := ch\<rparr>), d\<lparr>d_tick := n\<rparr>)
    \<and> map pi_content ch = map (\<lambda>p. the (content_at d (ar_cas_id p))) ps \<and> map pi_artifact_id ch = map ar_id ps \<and> map pi_seq ch = map Suc [0 ..< length ps]"
proof (cases "ps = []")
  case True
  then show ?thesis by (auto simp: loadPatchChain_def intro: exI [of _ "d_tick d"])
next
  case False
  obtain m where m: "run_state (GetContentBulk e (map ar_cas_id ps)) d = (Inr m, d\<lparr>d_tick := Suc (d_tick d)\<rparr>)"
    "\<forall>i \<in> set (map ar_cas_id ps). map_of m i = content_at d i" using run_GetContentBulk [OF assms(1,2), of "map ar_cas_id ps"] False by auto
  have "map_of m (ar_cas_id p) = content_at d (ar_cas_id p) \<and> content_at d (ar_cas_id p) \<noteq> None" if "p \<in> set ps" for p
    using that m(2) artifact_content [OF assms(2), of p] assms(3) by auto
  from build_chain_ok [OF this, of ps 0] obtain ch where ch: "build_chain m 0 ps = Inr ch"
    "map pi_content ch = map (\<lambda>p. the (content_at d (ar_cas_id p))) ps" "map pi_artifact_id ch = map ar_id ps" "map pi_seq ch = map Suc [0 ..< length ps]" by auto
  then show ?thesis using False m(1) by (auto simp: loadPatchChain_def run_check)
qed

definition holds_version :: "components \<Rightarrow> string \<Rightarrow> string list \<Rightarrow> bool" where
  "holds_version w c ps \<longleftrightarrow> wc_base_content w = c \<and> map pi_content (wc_patch_chain w) = ps \<and> wc_patch_count w = length ps
     \<and> map pi_seq (wc_patch_chain w) = map Suc [0 ..< length ps]
     \<and> (wc_kind w = KindDAGVersion \<and> wc_patch_chain w = [] \<or> wc_kind w = KindPatchSet)"

lemma tag_resolves:
  assumes "catalog_ok e d" and "versions d (u, n) = Some (c, ps)"
  obtains t a where "find_tag d u n = Some t" "find_artifact d (tg_target_id t) = Some a" "head_ok d a" "find_artifact d (ar_id a) = Some a"
    "version_of d a = Some (c, ps)" "tg_target_kind t = ar_kind a"
proof -
  obtain t a where ta: "find_tag d u n = Some t" "find_artifact d (tg_target_id t) = Some a" "version_of d a = Some (c, ps)"
    using assms(2) by (auto simp: versions_def split: option.splits)
  moreover have "head_ok d a" "ar_kind a = tg_target_kind t" using assms(1) find_tag_in [OF ta(1)] ta(2) by (auto simp: catalog_ok_def)
  moreover have "find_artifact d (ar_id a) = Some a" using find_artifact_in [OF ta(2)] ta(2) by simp
  ultimately show ?thesis using that by metis
qed

lemma patch_version:
  assumes "version_of d a = Some (c, ps)" and "ar_kind a = KindPatchSet"
  obtains b ba where "ar_base_version a = Some b" "find_artifact d b = Some ba" "content_at d (ar_cas_id ba) = Some c"
    "ps = map (\<lambda>p. the (content_at d (ar_cas_id p))) (chain_of d (ar_id a))"
  using assms by (auto simp: version_of_def split: option.splits)

lemma run_loadBaseDAG:
  "db_reliable e \<Longrightarrow> find_artifact d b = Some ba \<Longrightarrow> content_at d (ar_cas_id ba) = Some c \<Longrightarrow>
    run_state (loadBaseDAG e b w) d = (Inr (w\<lparr>wc_base_cas_id := ar_cas_id ba, wc_base_version_hash := or_empty (ar_version_hash ba), wc_base_content := c\<rparr>),
      d\<lparr>d_tick := Suc (Suc (d_tick d))\<rparr>)"
  by (simp add: loadBaseDAG_def run_check run_GetByID run_GetContent)

lemma catalog_ok_tick [simp]: "catalog_ok e (d\<lparr>d_tick := n\<rparr>) = catalog_ok e d"
  using catalog_ok_untick [of "d\<lparr>d_tick := n\<rparr>" d e] catalog_ok_untick [of d "d\<lparr>d_tick := n\<rparr>" e] by auto

lemma run_loadPatchSetAt:
  assumes rel: "db_reliable e" and ok: "catalog_ok e d" and a: "ar_kind a = KindPatchSet" "version_of d a = Some (c, ps)"
    and w: "wc_kind w = KindPatchSet" and k: "k \<le> length ps"
  shows "\<exists>w' m. run_state (loadPatchSetComponentsAtVersion e a w k) d = (Inr w', d\<lparr>d_tick := m\<rparr>) \<and> holds_version w' c (take k ps)"
proof -
  obtain b ba where b: "ar_base_version a = Some b" "find_artifact d b = Some ba" "content_at d (ar_cas_id ba) = Some c"
    "ps = map (\<lambda>p. the (content_at d (ar_cas_id p))) (chain_of d (ar_id a))" using patch_version [OF a(2,1)] by blast
  define q where "q = take k (chain_of d (ar_id a))"
  have q: "set q \<subseteq> set (d_artifacts d)" using chain_of_in set_take_subset unfolding q_def by fastforce
  have len: "length q = k" "\<not> length (chain_of d (ar_id a)) < k" using k b(4) by (simp_all add: q_def)
  define w1 where "w1 = w\<lparr>wc_base_version := Some b, wc_depth := (case ar_depth a of None \<Rightarrow> 0 | Some k \<Rightarrow> k), wc_patch_count := length q,
    wc_base_cas_id := ar_cas_id ba, wc_base_version_hash := or_empty (ar_version_hash ba), wc_base_content := c\<rparr>"
  define d1 where "d1 = d\<lparr>d_tick := Suc (Suc (Suc (d_tick d)))\<rparr>"
  have "catalog_ok e d1" "set q \<subseteq> set (d_artifacts d1)" "content_at d1 = content_at d" using ok q by (simp_all add: d1_def)
  from loadPatchChain_ok [OF rel this(1,2)] obtain ch m where ch: "run_state (loadPatchChain e q w1) d1 = (Inr (w1\<lparr>wc_patch_chain := ch\<rparr>), d1\<lparr>d_tick := m\<rparr>)"
    "map pi_content ch = map (\<lambda>p. the (content_at d (ar_cas_id p))) q" "map pi_seq ch = map Suc [0 ..< length q]"
    unfolding \<open>content_at d1 = content_at d\<close> by blast
  have "run_state (loadPatchSetComponentsAtVersion e a w k) d = (Inr (w1\<lparr>wc_patch_chain := ch\<rparr>), d\<lparr>d_tick := m\<rparr>)"
    using ch(1) b len(2) by (simp add: loadPatchSetComponentsAtVersion_def run_check run_GetPatchChain [OF rel] Let_def q_def [symmetric]
        run_loadBaseDAG [OF rel] w1_def d1_def)
  moreover have "holds_version (w1\<lparr>wc_patch_chain := ch\<rparr>) c (take k ps)"
    using ch(2,3) w len k b(4) by (simp add: holds_version_def w1_def q_def take_map)
  ultimately show ?thesis by blast
qed

lemma load_is_load_at:
  assumes "db_reliable e"
  shows "run_state (loadPatchSetComponents e a w) d = run_state (loadPatchSetComponentsAtVersion e a w (length (chain_of d (ar_id a)))) d"
  by (simp add: loadPatchSetComponents_def loadPatchSetComponentsAtVersion_def run_check run_GetPatchChain [OF assms] Let_def split: option.split)

lemma run_loadDAG:
  assumes "db_reliable e" and "ar_kind a = KindDAGVersion" and "version_of d a = Some (c, ps)" and "wc_kind w = KindDAGVersion" and "wc_patch_chain w = []"
  shows "ps = []" "\<exists>w' m. run_state (loadDAGVersionComponents e a w) d = (Inr w', d\<lparr>d_tick := m\<rparr>) \<and> holds_version w' c []"
  using assms by (auto simp: version_of_def loadDAGVersionComponents_def run_check run_GetContent holds_version_def split: option.splits)

lemma GetWorkflowComponents_reads:
  assumes rel: "db_reliable e" and ok: "catalog_ok e d" and v: "versions d (u, n) = Some (c, ps)"
  shows "\<exists>w m. run_state (GetWorkflowComponents e u n) d = (Inr w, d\<lparr>d_tick := m\<rparr>) \<and> holds_version w c ps"
proof -
  obtain t a where ta: "find_tag d u n = Some t" "find_artifact d (tg_target_id t) = Some a" "head_ok d a" "version_of d a = Some (c, ps)"
    using tag_resolves [OF ok v] by metis
  let ?d1 = "d\<lparr>d_tick := Suc (Suc (d_tick d))\<rparr>"
  have v1: "version_of ?d1 a = Some (c, ps)" using ta(4) unfolding version_of_def tick_lookup .
  note rr = run_resolve [OF rel ta(1,2)]
  show ?thesis
  proof (cases "ar_kind a = KindDAGVersion")
    case True
    then show ?thesis using run_loadDAG [OF rel True v1, of "initializeComponents u n a"] rr
      by (auto simp: GetWorkflowComponents_def run_check IsDAGVersion_def initializeComponents_def Let_def)
  next
    case False
    then have k: "ar_kind a = KindPatchSet" using ta(3) by (simp add: head_ok_def)
    have len: "length (chain_of ?d1 (ar_id a)) = length ps" using patch_version [OF v1 k] by (metis length_map)
    have ok1: "catalog_ok e ?d1" using ok by simp
    have "wc_kind (initializeComponents u n a) = KindPatchSet" using k by (simp add: initializeComponents_def)
    from run_loadPatchSetAt [OF rel ok1 k v1 this, of "length ps"] show ?thesis
      using rr k load_is_load_at [OF rel, of a "initializeComponents u n a" ?d1] len
      by (auto simp: GetWorkflowComponents_def run_check IsDAGVersion_def IsPatchSet_def Let_def)
  qed
qed

lemma run_loadBaseVersionOnly:
  assumes "db_reliable e" and "ar_kind a = KindPatchSet" and "version_of d a = Some (c, ps)" and "wc_kind w = KindPatchSet"
  shows "\<exists>w' m. run_state (loadBaseVersionOnly e a w) d = (Inr w', d\<lparr>d_tick := m\<rparr>) \<and> holds_version w' c []"
proof -
  obtain b ba where "ar_base_version a = Some b" "find_artifact d b = Some ba" "content_at d (ar_cas_id ba) = Some c"
    using patch_version [OF assms(3,2)] by blast
  then show ?thesis using assms(4) by (auto simp: loadBaseVersionOnly_def run_check run_loadBaseDAG [OF assms(1)] holds_version_def)
qed

lemma GetWorkflowComponentsAtVersion_reads:
  assumes rel: "db_reliable e" and ok: "catalog_ok e d" and v: "versions d (u, n) = Some (c, ps)"
  shows "k \<le> length ps \<Longrightarrow> \<exists>w m. run_state (GetWorkflowComponentsAtVersion e u n (int k)) d = (Inr w, d\<lparr>d_tick := m\<rparr>) \<and> holds_version w c (take k ps)"
    and "length ps < k \<Longrightarrow> 1 < k \<Longrightarrow> \<exists>x m. run_state (GetWorkflowComponentsAtVersion e u n (int k)) d = (Inl x, d\<lparr>d_tick := m\<rparr>)"
proof -
  obtain t a where ta: "find_tag d u n = Some t" "find_artifact d (tg_target_id t) = Some a" "head_ok d a" "version_of d a = Some (c, ps)"
    using tag_resolves [OF ok v] by metis
  let ?d1 = "d\<lparr>d_tick := Suc (Suc (d_tick d))\<rparr>"
  have v1: "version_of ?d1 a = Some (c, ps)" using ta(4) unfolding version_of_def tick_lookup .
  have ok1: "catalog_ok e ?d1" using ok by simp
  have ne: "ar_kind a = KindDAGVersion \<or> ar_kind a = KindPatchSet" using ta(3) by (auto simp: head_ok_def)
  have w: "wc_kind (initializeComponents u n a) = ar_kind a" "wc_patch_chain (initializeComponents u n a) = []" by (simp_all add: initializeComponents_def)
  have run: "run_state (GetWorkflowComponentsAtVersion e u n (int k)) d =
    (if ar_kind a = KindDAGVersion then (if k > 1 then (Inl (''dag_version only supports seq=0 or seq=1, requested seq='' @ show_int (int k)), ?d1)
        else run_state (loadDAGVersionComponents e a (initializeComponents u n a)) ?d1)
     else if k = 0 then run_state (loadBaseVersionOnly e a (initializeComponents u n a)) ?d1
     else run_state (loadPatchSetComponentsAtVersion e a (initializeComponents u n a) k) ?d1)"
    using ne by (auto simp: GetWorkflowComponentsAtVersion_def run_check run_resolve [OF rel ta(1,2)] IsDAGVersion_def IsPatchSet_def Let_def)
  show "\<exists>w m. run_state (GetWorkflowComponentsAtVersion e u n (int k)) d = (Inr w, d\<lparr>d_tick := m\<rparr>) \<and> holds_version w c (take k ps)" if k: "k \<le> length ps"
  proof (cases "ar_kind a = KindDAGVersion")
    case True
    then show ?thesis using run_loadDAG [OF rel True v1, of "initializeComponents u n a"] w run k by auto
  next
    case False
    then have kd: "ar_kind a = KindPatchSet" using ne by simp
    then have w': "wc_kind (initializeComponents u n a) = KindPatchSet" using w by simp
    show ?thesis
      using run_loadBaseVersionOnly [OF rel kd v1 w'] run_loadPatchSetAt [OF rel ok1 kd v1 w' k] run kd by (cases "k = 0") auto
  qed
  show "\<exists>x m. run_state (GetWorkflowComponentsAtVersion e u n (int k)) d = (Inl x, d\<lparr>d_tick := m\<rparr>)" if k: "length ps < k" "1 < k"
  proof (cases "ar_kind a = KindDAGVersion")
    case False
    then have kd: "ar_kind a = KindPatchSet" using ne by simp
    obtain b where "ar_base_version a = Some b" "length ps = length (chain_of ?d1 (ar_id a))" using patch_version [OF v1 kd] by (metis length_map)
    then have "\<exists>x m. run_state (loadPatchSetComponentsAtVersion e a (initializeComponents u n a) k) ?d1 = (Inl x, d\<lparr>d_tick := m\<rparr>)"
      using k by (auto simp: loadPatchSetComponentsAtVersion_def run_check run_GetPatchChain [OF rel])
    then show ?thesis using run kd k by simp
  qed (use run k in \<open>simp, blast\<close>)
qed

section \<open>Compaction\<close>

lemma compact_chain_all:
  assumes "\<And>p. p \<in> set ps \<Longrightarrow> map_of m (ar_cas_id p) = content_at d (ar_cas_id p) \<and> content_at d (ar_cas_id p) \<noteq> None"
  shows "(compact_chain e m i c ps = Inr s) = (apply_all e c (map (\<lambda>p. the (content_at d (ar_cas_id p))) ps) = Some s)"
  using assms
proof (induction ps arbitrary: i c)
  case (Cons p ps)
  obtain x where "content_at d (ar_cas_id p) = Some x" "map_of m (ar_cas_id p) = Some x" using Cons.prems by fastforce
  then show ?case using Cons.IH Cons.prems by (auto split: sum.split)
qed simp

lemma store_compacted_run:
  assumes ok: "catalog_ok e d" and nc: "no_collision e d s" and run: "run_state (store_compacted e p who depth k s m) d = (r, d')"
  shows "extends e d d' \<and> (\<forall>y. r = Inr y \<longrightarrow> (\<exists>a. find_artifact d' (cr_new_base_id y) = Some a \<and> ar_kind a = KindDAGVersion
    \<and> content_at d' (ar_cas_id a) = Some s \<and> ar_compacted_from a = Some p))"
  using run unfolding store_compacted_def
proof (cases rule: check_cases)
  case (err x)
  then show ?thesis using extends_StoreContent by auto
next
  case (cont casID d1)
  note x1 = extends_StoreContent [OF cont(1)]
  note st = StoreContent_stored [OF ok nc cont(1)]
  define a where "a = (new_artifact (db_uuid e (d_tick d1)) KindDAGVersion casID who (db_now e (Suc (Suc (d_tick d1)))))\<lparr>ar_depth := Some 0,
           ar_version_hash := Some (ComputeHash e s), ar_nodes_count := Some (array_count m ''nodes''),
           ar_edges_count := Some (array_count m ''edges''), ar_compacted_from := Some p,
           ar_meta := [(''compacted_at'', GStr (db_time_text e (db_now e (Suc (d_tick d1))))), (''original_depth'', GNum (of_int depth)), (''original_patches'', GNum (of_nat k))]\<rparr>"
  define d2 where "d2 = d1\<lparr>d_tick := Suc (Suc (Suc (d_tick d1)))\<rparr>"
  have x2: "extends e d d2" by (rule extends_trans [OF x1 extends_untick]) (simp add: d2_def)
  have h: "ar_kind a = KindDAGVersion \<longrightarrow> ar_version_hash a = Some (ar_cas_id a)" using st(1) by (simp add: a_def new_artifact_def)
  obtain q d3 where q: "run_state (art_Create e a) d2 = (q, d3)" by (cases "run_state (art_Create e a) d2")
  note x3 = extends_trans [OF x2 extends_art_Create [OF q h]]
  have r: "untick d' = untick d3 \<and> (case q of Inl x \<Rightarrow> r \<in> range Inl | Inr _ \<Rightarrow> \<exists>y. r = Inr y \<and> cr_new_base_id y = ar_id a)"
    using cont(2) q by (auto simp: a_def d2_def run_check new_artifact_def split: sum.splits)
  have x: "extends e d d'" by (rule extends_trans [OF x3 extends_untick]) (use r in simp)
  show ?thesis
  proof (intro conjI allI impI x)
    fix y assume "r = Inr y"
    then have qq: "q = Inr ()" "cr_new_base_id y = ar_id a" using r by (auto split: sum.splits)
    then have d3: "artifact_violation d2 a = None" "d3 = d2\<lparr>d_artifacts := d_artifacts d2 @ [a], d_tick := Suc (d_tick d2)\<rparr>"
      using art_Create_run [OF q] by auto
    have "find_artifact d3 (ar_id a) = Some a" by (rule created_artifact_ok(3) [OF d3(1) h d3(2)])
    moreover have "content_at d3 casID = Some s" using st(2) by (simp add: d3(2) d2_def content_at_def find_blob_def)
    ultimately have "find_artifact d' (ar_id a) = Some a" "content_at d' casID = Some s" using untick_eq [OF conjunct1 [OF r]]
      by (simp_all add: find_artifact_def content_at_def find_blob_def)
    then show "\<exists>a. find_artifact d' (cr_new_base_id y) = Some a \<and> ar_kind a = KindDAGVersion \<and> content_at d' (ar_cas_id a) = Some s \<and> ar_compacted_from a = Some p"
      by (intro exI [of _ a]) (simp add: qq(2) a_def new_artifact_def)
  qed
qed

lemma check_reads:
  assumes "reads m" and "run_state (check m msg f) d = (r, d')"
  obtains (err) x where "r = Inl x" "untick d' = untick d"
    | (cont) a d1 where "run_state m d = (Inr a, d1)" "untick d1 = untick d" "run_state (f a) d1 = (r, d')"
  using assms(2)
proof (cases rule: check_cases)
  case (err x)
  then show ?thesis using that(1) readsD [OF assms(1) err(1)] by blast
next
  case (cont a d1)
  then show ?thesis using that(2) readsD [OF assms(1) cont(1)] by blast
qed

lemma untick_lookup:
  assumes "untick d1 = untick d"
  shows "find_artifact d1 = find_artifact d" "content_at d1 = content_at d" "chain_of d1 = chain_of d" "find_tag d1 = find_tag d" "d_blobs d1 = d_blobs d"
  using untick_eq [OF assms] by (simp_all add: fun_eq_iff find_artifact_def content_at_def find_blob_def chain_of_def chain_rows_def find_tag_def)

lemma read_results:
  "run_state (art_GetByID e i) d = (Inr a, d') \<Longrightarrow> find_artifact d i = Some a"
  "run_state (art_GetPatchChain e i) d = (Inr ch, d') \<Longrightarrow> ch = chain_of d i"
  "run_state (tag_GetByName e u n) d = (Inr t, d') \<Longrightarrow> find_tag d u n = Some t"
  "run_state (GetContentBulk e is) d = (Inr m, d') \<Longrightarrow> is \<noteq> [] \<Longrightarrow> m = map (\<lambda>b. (cb_id b, cb_content b)) (filter (\<lambda>b. cb_id b \<in> set is) (d_blobs d))"
  by (auto simp: art_GetByID_def art_GetPatchChain_def tag_GetByName_def GetContentBulk_def blob_GetContentBulk_def run_check_ok
      select_def select_one_def run_query split: option.splits)

lemma reads_compact_text [reads_intros]: "reads (compact_text e p a)"
  unfolding compact_text_def by (intro reads_intros) (auto intro!: reads_intros split: option.split sum.split)

lemma length_blobs:
  assumes "distinct (map cb_id bs)"
  shows "length (filter (\<lambda>b. cb_id b \<in> I) bs) = card (I \<inter> cb_id ` set bs)"
proof -
  have "length (filter (\<lambda>b. cb_id b \<in> I) bs) = card (set (map cb_id (filter (\<lambda>b. cb_id b \<in> I) bs)))"
    using assms by (subst distinct_card) (auto simp: distinct_map inj_on_def)
  also have "set (map cb_id (filter (\<lambda>b. cb_id b \<in> I) bs)) = I \<inter> cb_id ` set bs" by auto
  finally show ?thesis .
qed

text \<open>The text a successful compaction stores is the chain's; and a chain that has a patch twice is never compacted.\<close>

lemma compact_text_ok:
  assumes ok: "catalog_ok e d" and p: "find_artifact d p = Some pa" "version_of d pa = Some (c, ps)" "ar_kind pa = KindPatchSet"
    and run: "run_state (compact_text e p pa) d = (Inr (n, s), d')"
  shows "apply_all e c ps = Some s" "distinct ps"
proof -
  obtain b ba where b: "ar_base_version pa = Some b" "find_artifact d b = Some ba" "content_at d (ar_cas_id ba) = Some c"
    "ps = map (\<lambda>p. the (content_at d (ar_cas_id p))) (chain_of d (ar_id pa))" using patch_version [OF p(2,3)] by blast
  have pid: "ar_id pa = p" using find_artifact_in [OF p(1)] by simp
  obtain ch d1 where c1: "run_state (art_GetPatchChain e p) d = (Inr ch, d1)" and r1: "ch \<noteq> []"
    "run_state (check (art_GetByID e b) ''failed to get base version artifact: '' (\<lambda>base.
     check (GetContent e (ar_cas_id base)) ''failed to get base version content: '' (\<lambda>baseContent.
     check (GetContentBulk e (map ar_cas_id ch)) ''failed to fetch patch contents: '' (\<lambda>contents.
     if length contents \<noteq> length ch
     then fail (''expected '' @ show_nat (length ch) @ '' patch contents, got '' @ show_nat (length contents))
     else case compact_chain e contents 0 baseContent ch of Inl x \<Rightarrow> fail x | Inr text \<Rightarrow> ok (length ch, text))))) d1 = (Inr (n, s), d')"
    using run b(1) unfolding compact_text_def by (subst (asm) run_check_ok) (auto split: if_splits)
  note u1 = readsD [OF reads_artifacts(5) c1]
  obtain base d2 where c2: "run_state (art_GetByID e b) d1 = (Inr base, d2)" and r2: "run_state (check (GetContent e (ar_cas_id base)) ''failed to get base version content: '' (\<lambda>baseContent.
     check (GetContentBulk e (map ar_cas_id ch)) ''failed to fetch patch contents: '' (\<lambda>contents.
     if length contents \<noteq> length ch
     then fail (''expected '' @ show_nat (length ch) @ '' patch contents, got '' @ show_nat (length contents))
     else case compact_chain e contents 0 baseContent ch of Inl x \<Rightarrow> fail x | Inr text \<Rightarrow> ok (length ch, text)))) d2 = (Inr (n, s), d')"
    using r1(2) by (subst (asm) run_check_ok) blast
  note u2 = trans [OF readsD [OF reads_artifacts(1) c2] u1]
  obtain bc d3 where c3: "run_state (GetContent e (ar_cas_id base)) d2 = (Inr bc, d3)" and r3: "run_state (check (GetContentBulk e (map ar_cas_id ch)) ''failed to fetch patch contents: '' (\<lambda>contents.
     if length contents \<noteq> length ch
     then fail (''expected '' @ show_nat (length ch) @ '' patch contents, got '' @ show_nat (length contents))
     else case compact_chain e contents 0 bc ch of Inl x \<Rightarrow> fail x | Inr text \<Rightarrow> ok (length ch, text))) d3 = (Inr (n, s), d')"
    using r2 by (subst (asm) run_check_ok) blast
  note u3 = trans [OF readsD [OF reads_blobs(6) c3] u2]
  obtain m d4 where c4: "run_state (GetContentBulk e (map ar_cas_id ch)) d3 = (Inr m, d4)" and r4: "length m = length ch" "compact_chain e m 0 bc ch = Inr s"
    using r3 by (subst (asm) run_check_ok) (auto split: if_splits sum.splits)
  have ch: "ch = chain_of d p" using read_results(2) [OF c1] .
  have base: "base = ba" using read_results(1) [OF c2] b(2) untick_lookup(1) [OF u1] by simp
  have bc: "bc = c" using db_cas.fetch_ok [OF c3] base b(3) untick_lookup(2) [OF u2] by simp
  have m: "m = map (\<lambda>b. (cb_id b, cb_content b)) (filter (\<lambda>b. cb_id b \<in> set (map ar_cas_id ch)) (d_blobs d))"
    using read_results(4) [OF c4] r1(1) untick_lookup(5) [OF u3] by simp
  have db: "distinct (map cb_id (d_blobs d))" using ok by (simp add: catalog_ok_def)
  have in_d: "q \<in> set (d_artifacts d)" if "q \<in> set ch" for q using that chain_of_in by (simp add: ch)
  have all: "map_of m (ar_cas_id q) = content_at d (ar_cas_id q) \<and> content_at d (ar_cas_id q) \<noteq> None" if "q \<in> set ch" for q
    using that map_of_blobs [OF db] artifact_content [OF ok in_d [OF that]] by (auto simp: m content_at_def find_blob_def)
  show "apply_all e c ps = Some s" using r4(2) compact_chain_all [OF all] bc b(4) ch pid by simp
  have "card (set (map ar_cas_id ch) \<inter> cb_id ` set (d_blobs d)) = length ch" using r4(1) length_blobs [OF db] by (simp add: m)
  then have "length ch \<le> card (set (map ar_cas_id ch))" using card_mono [of "set (map ar_cas_id ch)"] by (metis List.finite_set inf_le1)
  then have dc: "distinct (map ar_cas_id ch)" by (metis card_distinct card_length le_antisym length_map)
  have inj: "x = y" if xy: "x \<in> set (map ar_cas_id ch)" "y \<in> set (map ar_cas_id ch)" "the (content_at d x) = the (content_at d y)" for x y
  proof -
    obtain cx where "content_at d x = Some cx" "content_at d y = Some cx" using xy all by fastforce
    then show ?thesis using ok by (auto simp: content_at_def find_blob_def find_Some_iff catalog_ok_def)
  qed
  have "ps = map (\<lambda>x. the (content_at d x)) (map ar_cas_id ch)" by (simp add: b(4) ch pid)
  moreover have "distinct (map (\<lambda>x. the (content_at d x)) (map ar_cas_id ch))"
    using dc inj by (subst distinct_map) (auto intro!: inj_onI)
  ultimately show "distinct ps" by simp
qed

lemma CompactWorkflow_run:
  assumes ok: "catalog_ok e d" and p: "find_artifact d p = Some pa" "version_of d pa = Some (c, ps)" "ar_kind pa = KindPatchSet"
    and nc: "\<And>s. apply_all e c ps = Some s \<Longrightarrow> no_collision e d s"
    and run: "run_state (CompactWorkflow e p who) d = (r, d')"
  shows "extends e d d' \<and> (\<forall>y. r = Inr y \<longrightarrow> distinct ps \<and> (\<exists>s a. apply_all e c ps = Some s \<and> find_artifact d' (cr_new_base_id y) = Some a
    \<and> ar_kind a = KindDAGVersion \<and> content_at d' (ar_cas_id a) = Some s))"
  using reads_artifacts(1) run unfolding CompactWorkflow_def
proof (cases rule: check_reads)
  case (err x)
  then show ?thesis using extends_untick by auto
next
  case (cont pa' d1)
  have pa': "pa' = pa" using read_results(1) [OF cont(1)] p(1) by simp
  show ?thesis
  proof (cases "ar_depth pa = None \<or> ar_depth pa = Some 0")
    case True
    then show ?thesis using cont p(3) extends_untick by (auto simp: pa')
  next
    case False
    then obtain depth where depth: "ar_depth pa = Some depth" "depth \<noteq> 0" by auto
    have "run_state (check (compact_text e p pa) '''' (\<lambda>(n, text).
       case unmarshal_map e text of
         Inl x \<Rightarrow> fail (''materialized workflow is not valid JSON: '' @ x)
       | Inr m \<Rightarrow> store_compacted e p who depth n text m)) d1 = (r, d')" using cont(3) p(3) depth by (simp add: pa')
    with reads_compact_text show ?thesis
    proof (cases rule: check_reads)
      case (err x)
      then show ?thesis using extends_untick [of d' d] cont(2) by auto
    next
      case c2: (cont ns d2)
      obtain n s where ns: "ns = (n, s)" by (cases ns)
      have u2: "untick d2 = untick d" using c2(2) cont(2) by simp
      have ok1: "catalog_ok e d1" and ok2: "catalog_ok e d2" using catalog_ok_untick ok cont(2) u2 by blast+
      have v1: "find_artifact d1 p = Some pa" "version_of d1 pa = Some (c, ps)"
        using p(1,2) unfolding version_of_def untick_lookup [OF cont(2)] by auto
      note ct = compact_text_ok [OF ok1 v1 p(3) c2(1) [unfolded ns]]
      show ?thesis
      proof (cases "unmarshal_map e s")
        case (Inl x)
        then show ?thesis using c2(3) ns extends_untick [OF u2] by auto
      next
        case (Inr m)
        have nc2: "no_collision e d2 s" using nc [OF ct(1)] untick_eq(1) [OF u2] by (simp add: no_collision_def)
        from c2(3) Inr ns have "run_state (store_compacted e p who depth n s m) d2 = (r, d')" by simp
        from store_compacted_run [OF ok2 nc2 this] show ?thesis using ct extends_trans [OF extends_untick [OF u2]] by blast
      qed
    qed
  qed
qed

lemma Migrate_run:
  assumes ok: "catalog_ok e d" and run: "run_state (MigrateTagToCompactedBase e u n b who) d = (r, d')"
  shows "catalog_ok e d' \<and> (case r of Inl _ \<Rightarrow> versions d' = versions d
    | Inr _ \<Rightarrow> \<exists>a. find_artifact d b = Some a \<and> ar_kind a = KindDAGVersion \<and> versions d' = (versions d)((u, n) := version_of d a))"
  using reads_tag(2) run unfolding MigrateTagToCompactedBase_def
proof (cases rule: check_reads)
  case (err x)
  show ?thesis using same_versions [OF ok extends_untick [OF err(2)]] err(1) by simp
next
  case c1: (cont t d1)
  have t: "tg_username t = u" "tg_name t = n" using find_tag_in [OF read_results(3) [OF c1(1)]] by simp_all
  from reads_artifacts(1) c1(3) show ?thesis
  proof (cases rule: check_reads)
    case (err x)
    show ?thesis using same_versions [OF ok extends_untick [OF trans [OF err(2) c1(2)]]] err(1) by simp
  next
    case (cont a d2)
    have u2: "untick d2 = untick d" using cont(2) c1(2) by simp
    have a: "find_artifact d b = Some a" using read_results(1) [OF cont(1)] untick_lookup(1) [OF c1(2)] by simp
    show ?thesis
    proof (cases "ar_kind a = KindDAGVersion")
      case False
      then show ?thesis using same_versions [OF ok extends_untick [OF u2]] cont(3) by auto
    next
      case True
      let ?t = "t\<lparr>tg_target_id := b, tg_target_kind := KindDAGVersion, tg_moved_by := Some who, tg_moved_at := db_now e (d_tick d2)\<rparr>"
      let ?d3 = "d2\<lparr>d_tick := Suc (d_tick d2)\<rparr>"
      obtain q d4 where q: "run_state (tag_Update e ?t) ?d3 = (q, d4)" by (cases "run_state (tag_Update e ?t) ?d3")
      have r: "d' = d4" "(\<exists>x. q = Inl x) = (\<exists>x. r = Inl x)" using cont(3) q True by (auto simp: run_check split: sum.splits)
      have u3: "untick ?d3 = untick d" using u2 by simp
      show ?thesis
      proof (cases q)
        case (Inl x)
        then have u4: "untick d' = untick d" using tag_Update_run [OF q] r(1) u3 by auto
        obtain y where "r = Inl y" using r(2) Inl by auto
        then show ?thesis using same_versions [OF ok extends_untick [OF u4]] by simp
      next
        case (Inr v)
        then have "retagged u n b KindDAGVersion ?d3 d'" using tag_Update_run [OF q] t r by auto
        from retagged_untick [OF u3 this] have rt: "retagged u n b KindDAGVersion d d'" .
        have "head_ok d a" using True by (simp add: head_ok_def)
        from retagged_versions [OF ok rt a this] show ?thesis using Inr r a True by (cases r) auto
      qed
    qed
  qed
qed

lemma DeleteTag_run:
  assumes ok: "catalog_ok e d" and run: "run_state (DeleteTag e u n) d = (r, d')"
  shows "catalog_ok e d' \<and> (versions d' = versions d \<or> versions d' = (versions d)((u, n) := None))"
proof -
  have "untick d' = untick d \<or> untick d' = untick (d\<lparr>d_tags := filter (\<lambda>t. \<not> is_tag u n t) (d_tags d)\<rparr>)"
    using run by (auto simp: DeleteTag_def tag_Delete_def run_check run_query untick_def split: option.splits sum.splits prod.splits if_splits)
  then show ?thesis
  proof
    assume u: "untick d' = untick d"
    show ?thesis using same_versions [OF ok extends_untick [OF u]] by simp
  next
    assume u: "untick d' = untick (d\<lparr>d_tags := filter (\<lambda>t. \<not> is_tag u n t) (d_tags d)\<rparr>)"
    define d0 where "d0 = d\<lparr>d_tags := filter (\<lambda>t. \<not> is_tag u n t) (d_tags d)\<rparr>"
    have f: "find_artifact d0 = find_artifact d" "content_at d0 = content_at d" "chain_of d0 = chain_of d"
      by (simp_all add: d0_def fun_eq_iff find_artifact_def content_at_def find_blob_def chain_of_def chain_rows_def)
    have g: "artifact_ok d0 = artifact_ok d" "head_ok d0 = head_ok d" "version_of d0 = version_of d"
      unfolding fun_eq_iff artifact_ok_def head_ok_def version_of_def f by simp_all
    have ok0: "catalog_ok e d0" using ok by (simp add: catalog_ok_def f g) (simp add: d0_def)
    have "find (is_tag u' n') (filter (\<lambda>t. \<not> is_tag u n t) ts) = (if u' = u \<and> n' = n then None else find (is_tag u' n') ts)" for u' n' ts
      by (induction ts) (auto simp: is_tag_def [abs_def])
    then have "find_tag d0 u' n' = (if u' = u \<and> n' = n then None else find_tag d u' n')" for u' n' by (simp add: find_tag_def d0_def)
    then have "versions d0 = (versions d)((u, n) := None)" unfolding fun_eq_iff versions_def f g by auto
    with same_versions [OF ok0 extends_untick [OF u [folded d0_def]]] show ?thesis by simp
  qed
qed

section \<open>Reachable catalogues\<close>

text \<open>The operations that write, in any order, with any result. No content written collides with a stored one.\<close>

inductive store_step :: "dbenv \<Rightarrow> db \<Rightarrow> db \<Rightarrow> bool" for e where
  create: "run_state (CreateWorkflow e req) d = (r, d') \<Longrightarrow> no_collision e d (marshal e (GObj (wq_workflow req))) \<Longrightarrow> store_step e d d'"
| patch: "run_state (workflow_CreatePatch e preq) d = (r', d') \<Longrightarrow> no_collision e d (patch_text e preq) \<Longrightarrow> store_step e d d'"
| migrate: "run_state (MigrateTagToCompactedBase e u n b who) d = (r'', d') \<Longrightarrow> store_step e d d'"
| delete: "run_state (DeleteTag e u n) d = (r''', d') \<Longrightarrow> store_step e d d'"
| compact: "run_state (CompactWorkflow e p who) d = (q, d') \<Longrightarrow> find_artifact d p = Some pa \<Longrightarrow> version_of d pa = Some (c, ps) \<Longrightarrow>
    ar_kind pa = KindPatchSet \<Longrightarrow> (\<And>s. apply_all e c ps = Some s \<Longrightarrow> no_collision e d s) \<Longrightarrow> store_step e d d'"

lemma store_step_ok: "store_step e d d' \<Longrightarrow> catalog_ok e d \<Longrightarrow> catalog_ok e d'"
proof (induction rule: store_step.induct)
  case (create req d r d')
  then show ?case using CreateWorkflow_refines by blast
next
  case (patch preq d r' d')
  then show ?case using CreatePatch_refines by blast
next
  case (migrate u n b who d r'' d')
  then show ?case using Migrate_run by blast
next
  case (delete u n d r''' d')
  then show ?case using DeleteTag_run by blast
next
  case (compact p who d q d' pa c ps)
  then show ?case using CompactWorkflow_run [OF compact.prems compact(2-5,1)] by (simp add: extends_def)
qed

lemma empty_db_ok: "catalog_ok e empty_db"
  by (simp add: catalog_ok_def empty_db_def)

lemma reachable_ok: "(store_step e)\<^sup>*\<^sup>* empty_db d \<Longrightarrow> catalog_ok e d"
  by (induction rule: rtranclp_induct) (auto intro: empty_db_ok store_step_ok)

section \<open>A sample store\<close>

definition sample_dbenv :: dbenv where
  "sample_dbenv = \<lparr>db_fault = (\<lambda>_. None), db_text = id, db_now = int, db_time_text = show_int, db_uuid = show_nat, db_pick = id,
     db_sha256 = id, db_num = (\<lambda>_. ''0''), db_parse = (\<lambda>_. Inr (GObj [])), jp_decode = (\<lambda>s. Inr (GStr s)),
     jp_apply = (\<lambda>p s. case p of GStr t \<Rightarrow> Inr (s @ t) | _ \<Rightarrow> Inl ''no patch'')\<rparr>"

definition sample_create :: create_workflow_request where
  "sample_create = \<lparr>wq_username = ''alice'', wq_tag_name = ''main'', wq_workflow = [], wq_created_by = ''alice''\<rparr>"

definition sample_patch :: create_patch_request where
  "sample_patch = \<lparr>pq_username = ''alice'', pq_tag_name = ''main'', pq_operations = [[]], pq_description = '''', pq_created_by = ''alice''\<rparr>"

definition sample_db1 :: db where "sample_db1 = snd (run_state (CreateWorkflow sample_dbenv sample_create) empty_db)"

definition sample_db2 :: db where "sample_db2 = snd (run_state (workflow_CreatePatch sample_dbenv sample_patch) sample_db1)"

lemma sample_reliable: "db_reliable sample_dbenv"
  by (simp add: db_reliable_def sample_dbenv_def)

lemma sample_no_collision [simp]: "no_collision sample_dbenv d c"
  by (simp add: no_collision_def sample_dbenv_def)

lemma sample_reaches1: "(store_step sample_dbenv)\<^sup>*\<^sup>* empty_db sample_db1"
  unfolding sample_db1_def by (rule r_into_rtranclp, rule store_step.create [OF prod.collapse [symmetric]]) simp

lemma sample_reaches2: "(store_step sample_dbenv)\<^sup>*\<^sup>* empty_db sample_db2"
  unfolding sample_db2_def by (rule rtranclp.rtrancl_into_rtrancl [OF sample_reaches1], rule store_step.patch [OF prod.collapse [symmetric]]) simp

lemma sample_created: "\<exists>y. run_state (CreateWorkflow sample_dbenv sample_create) empty_db = (Inr y, sample_db1)"
proof -
  have "case fst (run_state (CreateWorkflow sample_dbenv sample_create) empty_db) of Inl _ \<Rightarrow> False | Inr _ \<Rightarrow> True" by code_simp
  then show ?thesis unfolding sample_db1_def by (cases "run_state (CreateWorkflow sample_dbenv sample_create) empty_db") (auto split: sum.splits)
qed

lemma sample_patched: "\<exists>y. run_state (workflow_CreatePatch sample_dbenv sample_patch) sample_db1 = (Inr y, sample_db2)"
proof -
  have "case fst (run_state (workflow_CreatePatch sample_dbenv sample_patch) sample_db1) of Inl _ \<Rightarrow> False | Inr _ \<Rightarrow> True" by code_simp
  then show ?thesis unfolding sample_db2_def by (cases "run_state (workflow_CreatePatch sample_dbenv sample_patch) sample_db1") (auto split: sum.splits)
qed

lemma sample_versions1: "versions sample_db1 (''alice'', ''main'') = Some (''{}'', [])"
  by code_simp

lemma sample_versions2: "versions sample_db2 (''alice'', ''main'') = Some (''{}'', [''[{}]''])"
  by code_simp

section \<open>Properties of the version store\<close>

text \<open>C21. Creating a workflow is atomic for readers: whatever operations came before, if it succeeds the tag's version is the text of the workflow with no
  patches, and if it fails in any of its statements no tag's version has changed; in both cases no other tag is touched.\<close>

theorem create_sets_version:
  assumes "(store_step e)\<^sup>*\<^sup>* empty_db d" and "no_collision e d (marshal e (GObj (wq_workflow req)))"
    and "run_state (CreateWorkflow e req) d = (r, d')"
  shows "versions d' = (case r of Inl _ \<Rightarrow> versions d
    | Inr _ \<Rightarrow> (versions d)((wq_username req, wq_tag_name req) \<mapsto> (marshal e (GObj (wq_workflow req)), [])))"
  using CreateWorkflow_refines [OF reachable_ok [OF assms(1)] assms(2,3)] by simp

theorem create_sets_version_witness:
  "versions sample_db1 = (versions empty_db)((''alice'', ''main'') \<mapsto> (''{}'', []))"
proof -
  obtain y where "run_state (CreateWorkflow sample_dbenv sample_create) empty_db = (Inr y, sample_db1)" using sample_created by blast
  from create_sets_version [OF rtranclp.rtrancl_refl sample_no_collision this] show ?thesis
    by (simp add: sample_create_def marshal_def json_object_def comma_join_def)
qed

text \<open>C22. Patching a workflow appends: a successful patch adds exactly its operations to the end of the tag's chain, over the same
  base, and reports the new length as its depth; a patch that fails anywhere, and every other tag, leaves all versions as they were.\<close>

theorem patch_appends_version:
  assumes "(store_step e)\<^sup>*\<^sup>* empty_db d" and "no_collision e d (patch_text e req)"
    and "run_state (workflow_CreatePatch e req) d = (r, d')"
  shows "case r of Inl _ \<Rightarrow> versions d' = versions d
    | Inr y \<Rightarrow> \<exists>c ps. versions d (pq_username req, pq_tag_name req) = Some (c, ps) \<and> pr_depth y = int (length ps) + 1
        \<and> versions d' = (versions d)((pq_username req, pq_tag_name req) \<mapsto> (c, ps @ [patch_text e req]))"
  using CreatePatch_refines [OF reachable_ok [OF assms(1)] assms(2,3)] by simp

theorem patch_appends_version_witness:
  "\<exists>y. run_state (workflow_CreatePatch sample_dbenv sample_patch) sample_db1 = (Inr y, sample_db2) \<and> pr_depth y = 1
     \<and> versions sample_db2 (''alice'', ''main'') = Some (''{}'', [''[{}]''])"
proof -
  obtain y where y: "run_state (workflow_CreatePatch sample_dbenv sample_patch) sample_db1 = (Inr y, sample_db2)" using sample_patched by blast
  from patch_appends_version [OF sample_reaches1 sample_no_collision y] have "pr_depth y = 1"
    using sample_versions1 by (auto simp: sample_patch_def)
  with y sample_versions2 show ?thesis by blast
qed



text \<open>C24. What was written is read back: on a working database the components of a tag hold exactly the texts of its version, the components at
  sequence number \<open>k\<close> hold the base and the first \<open>k\<close> patches, a number beyond the chain is an error, and materializing them
  gives the document that results from applying these patches in order.\<close>

theorem version_reads_back:
  assumes "(store_step e)\<^sup>*\<^sup>* empty_db d" and "db_reliable e" and "versions d (u, n) = Some (c, ps)"
  shows "(\<exists>w m. run_state (GetWorkflowComponents e u n) d = (Inr w, d\<lparr>d_tick := m\<rparr>) \<and> holds_version w c ps)
    \<and> (k \<le> length ps \<longrightarrow> (\<exists>w m. run_state (GetWorkflowComponentsAtVersion e u n (int k)) d = (Inr w, d\<lparr>d_tick := m\<rparr>) \<and> holds_version w c (take k ps)
        \<and> (\<forall>wf. Materialize e w = Inr wf \<longleftrightarrow> (\<exists>s. apply_all e c (take k ps) = Some s \<and> unmarshalWorkflow e s = Inr wf))))
    \<and> (length ps < k \<and> 1 < k \<longrightarrow> (\<exists>x m. run_state (GetWorkflowComponentsAtVersion e u n (int k)) d = (Inl x, d\<lparr>d_tick := m\<rparr>)))"
proof -
  have ok: "catalog_ok e d" by (rule reachable_ok [OF assms(1)])
  have mat: "Materialize e w = Inr wf \<longleftrightarrow> (\<exists>s. apply_all e c qs = Some s \<and> unmarshalWorkflow e s = Inr wf)" if "holds_version w c qs" for w qs wf
    using Materialize_iff [of w e wf] that by (simp add: holds_version_def)
  show ?thesis
  proof (intro conjI impI)
    assume "k \<le> length ps"
    from GetWorkflowComponentsAtVersion_reads(1) [OF assms(2) ok assms(3) this] obtain w m
      where "run_state (GetWorkflowComponentsAtVersion e u n (int k)) d = (Inr w, d\<lparr>d_tick := m\<rparr>)" "holds_version w c (take k ps)" by blast
    with mat [of w "take k ps"] show "\<exists>w m. run_state (GetWorkflowComponentsAtVersion e u n (int k)) d = (Inr w, d\<lparr>d_tick := m\<rparr>) \<and> holds_version w c (take k ps)
        \<and> (\<forall>wf. Materialize e w = Inr wf \<longleftrightarrow> (\<exists>s. apply_all e c (take k ps) = Some s \<and> unmarshalWorkflow e s = Inr wf))" by blast
  qed (use GetWorkflowComponents_reads [OF assms(2) ok assms(3)] GetWorkflowComponentsAtVersion_reads(2) [OF assms(2) ok assms(3)] in blast)+
qed

theorem version_reads_back_witness:
  "\<exists>w m. run_state (GetWorkflowComponentsAtVersion sample_dbenv ''alice'' ''main'' 1) sample_db2 = (Inr w, sample_db2\<lparr>d_tick := m\<rparr>)
     \<and> holds_version w ''{}'' [''[{}]''] \<and> Materialize sample_dbenv w = Inr []"
proof -
  have "apply_all sample_dbenv ''{}'' [''[{}]''] = Some ''{}[{}]''" "unmarshalWorkflow sample_dbenv ''{}[{}]'' = Inr []" by code_simp+
  then show ?thesis using version_reads_back [OF sample_reaches2 sample_reliable sample_versions2, of 1] by auto
qed

lemma Materialize_eq:
  assumes "holds_version w c ps" and "apply_all e c ps = Some s"
  shows "Materialize e w = unmarshalWorkflow e s"
  using assms apply_chain_all [of e 0 c "wc_patch_chain w" s]
  by (cases "wc_patch_chain w = []") (auto simp: holds_version_def Materialize_def materializePatchSet_def)

lemma tag_target_version:
  assumes "catalog_ok e d" and "find_tag d u n = Some t" and "tg_target_kind t = KindPatchSet" and "versions d (u, n) = Some (c, ps)"
  obtains pa where "find_artifact d (tg_target_id t) = Some pa" "version_of d pa = Some (c, ps)" "ar_kind pa = KindPatchSet"
  using tag_resolves [OF assms(1,4)] assms(2,3) by (metis option.inject)

text \<open>C25. Compaction keeps the workflow: compacting the chain a tag points to changes no version, and moving the tag to the new base replaces base and patches by
  the one text they materialize to. Whoever reads the tag before and after gets the same document.\<close>

theorem compaction_preserves_workflow:
  assumes "(store_step e)\<^sup>*\<^sup>* empty_db d" and "db_reliable e"
    and "find_tag d u n = Some t" and "tg_target_kind t = KindPatchSet" and "versions d (u, n) = Some (c, ps)"
    and "\<forall>s. apply_all e c ps = Some s \<longrightarrow> no_collision e d s"
    and "run_state (CompactWorkflow e (tg_target_id t) who) d = (Inr y, d1)"
    and "run_state (MigrateTagToCompactedBase e u n (cr_new_base_id y) who') d1 = (Inr z, d2)"
  shows "versions d1 = versions d
    \<and> (\<exists>s. apply_all e c ps = Some s \<and> versions d2 = (versions d)((u, n) \<mapsto> (s, [])))
    \<and> (\<exists>w m w' m'. run_state (GetWorkflowComponents e u n) d = (Inr w, m) \<and> run_state (GetWorkflowComponents e u n) d2 = (Inr w', m')
         \<and> Materialize e w = Materialize e w')"
proof -
  have ok: "catalog_ok e d" by (rule reachable_ok [OF assms(1)])
  obtain pa where pa: "find_artifact d (tg_target_id t) = Some pa" "version_of d pa = Some (c, ps)" "ar_kind pa = KindPatchSet"
    using tag_target_version [OF ok assms(3-5)] by blast
  note cw = CompactWorkflow_run [OF ok pa assms(6) [rule_format] assms(7)]
  note s1 = same_versions [OF ok conjunct1 [OF cw]]
  obtain s a where a: "apply_all e c ps = Some s" "find_artifact d1 (cr_new_base_id y) = Some a" "ar_kind a = KindDAGVersion" "content_at d1 (ar_cas_id a) = Some s"
    using cw by blast
  have m: "catalog_ok e d2" "versions d2 = (versions d1)((u, n) := version_of d1 a)" using Migrate_run [OF s1(1) assms(8)] a(2) by auto
  have "version_of d1 a = Some (s, [])" using a by (simp add: version_of_def)
  then have v2: "versions d2 = (versions d)((u, n) \<mapsto> (s, []))" using m(2) s1(2) by simp
  obtain w m where w: "run_state (GetWorkflowComponents e u n) d = (Inr w, d\<lparr>d_tick := m\<rparr>)" "holds_version w c ps"
    using GetWorkflowComponents_reads [OF assms(2) ok assms(5)] by blast
  obtain w' m' where w': "run_state (GetWorkflowComponents e u n) d2 = (Inr w', d2\<lparr>d_tick := m'\<rparr>)" "holds_version w' s []"
    using GetWorkflowComponents_reads [OF assms(2) m(1), of u n s "[]"] v2 by auto
  have "Materialize e w = Materialize e w'" using Materialize_eq [OF w(2) a(1)] Materialize_eq [OF w'(2), of e s] by simp
  then show ?thesis using s1(2) v2 a(1) w(1) w'(1) by blast
qed

definition sample_head :: string where
  "sample_head = (case find_tag sample_db2 ''alice'' ''main'' of None \<Rightarrow> '''' | Some t \<Rightarrow> tg_target_id t)"

definition sample_db3 :: db where "sample_db3 = snd (run_state (CompactWorkflow sample_dbenv sample_head ''bob'') sample_db2)"

definition sample_base :: string where
  "sample_base = (case fst (run_state (CompactWorkflow sample_dbenv sample_head ''bob'') sample_db2) of Inl _ \<Rightarrow> '''' | Inr y \<Rightarrow> cr_new_base_id y)"

definition sample_db4 :: db where "sample_db4 = snd (run_state (MigrateTagToCompactedBase sample_dbenv ''alice'' ''main'' sample_base ''bob'') sample_db3)"

theorem compaction_preserves_workflow_witness:
  "versions sample_db3 (''alice'', ''main'') = Some (''{}'', [''[{}]'']) \<and> versions sample_db4 (''alice'', ''main'') = Some (''{}[{}]'', [])"
proof -
  have "case find_tag sample_db2 ''alice'' ''main'' of None \<Rightarrow> False | Some t \<Rightarrow> tg_target_kind t = KindPatchSet" by code_simp
  then obtain t where t: "find_tag sample_db2 ''alice'' ''main'' = Some t" "tg_target_kind t = KindPatchSet" by (auto split: option.splits)
  then have h: "tg_target_id t = sample_head" by (simp add: sample_head_def)
  have "case fst (run_state (CompactWorkflow sample_dbenv sample_head ''bob'') sample_db2) of Inl _ \<Rightarrow> False | Inr _ \<Rightarrow> True" by code_simp
  then obtain y where y: "run_state (CompactWorkflow sample_dbenv (tg_target_id t) ''bob'') sample_db2 = (Inr y, sample_db3)" and b: "sample_base = cr_new_base_id y"
    unfolding sample_db3_def sample_base_def h by (cases "run_state (CompactWorkflow sample_dbenv sample_head ''bob'') sample_db2") (auto split: sum.splits)
  have "case fst (run_state (MigrateTagToCompactedBase sample_dbenv ''alice'' ''main'' sample_base ''bob'') sample_db3) of Inl _ \<Rightarrow> False | Inr _ \<Rightarrow> True" by code_simp
  then obtain z where z: "run_state (MigrateTagToCompactedBase sample_dbenv ''alice'' ''main'' (cr_new_base_id y) ''bob'') sample_db3 = (Inr z, sample_db4)"
    unfolding sample_db4_def b by (cases "run_state (MigrateTagToCompactedBase sample_dbenv ''alice'' ''main'' (cr_new_base_id y) ''bob'') sample_db3") (auto split: sum.splits)
  have "\<forall>s. apply_all sample_dbenv ''{}'' [''[{}]''] = Some s \<longrightarrow> no_collision sample_dbenv sample_db2 s" by simp
  note x = compaction_preserves_workflow [OF sample_reaches2 sample_reliable t sample_versions2 this y z]
  have "apply_all sample_dbenv ''{}'' [''[{}]''] = Some ''{}[{}]''" by code_simp
  with x sample_versions2 show ?thesis by auto
qed

text \<open>A chain in which two patches have the same operations cannot be compacted: the bulk query returns one row for both, the counts differ, and the
  compaction fails on every attempt, whatever the database does. Nothing is written.\<close>

theorem repeated_patch_not_compacted:
  assumes "(store_step e)\<^sup>*\<^sup>* empty_db d" and "find_tag d u n = Some t" and "tg_target_kind t = KindPatchSet" and "versions d (u, n) = Some (c, ps)"
    and "\<not> distinct ps" and "run_state (CompactWorkflow e (tg_target_id t) who) d = (r, d')"
  shows "(\<exists>x. r = Inl x) \<and> untick d' = untick d"
proof -
  have ok: "catalog_ok e d" by (rule reachable_ok [OF assms(1)])
  obtain pa where pa: "find_artifact d (tg_target_id t) = Some pa" "version_of d pa = Some (c, ps)" "ar_kind pa = KindPatchSet"
    using tag_target_version [OF ok assms(2-4)] by blast
  from reads_artifacts(1) assms(6) show ?thesis unfolding CompactWorkflow_def
  proof (cases rule: check_reads)
    case (cont pa' d1)
    have pa': "pa' = pa" using read_results(1) [OF cont(1)] pa(1) by simp
    have ok1: "catalog_ok e d1" by (rule catalog_ok_untick [OF cont(2) ok])
    have v1: "find_artifact d1 (tg_target_id t) = Some pa" "version_of d1 pa = Some (c, ps)"
      using pa(1,2) unfolding version_of_def untick_lookup [OF cont(2)] by auto
    obtain q d2 where q: "run_state (compact_text e (tg_target_id t) pa) d1 = (q, d2)" by (cases "run_state (compact_text e (tg_target_id t) pa) d1")
    have "\<exists>x. q = Inl x" using compact_text_ok(2) [OF ok1 v1 pa(3)] q assms(5) by (cases q) auto
    moreover have "untick d2 = untick d" using readsD [OF reads_compact_text q] cont(2) by simp
    ultimately show ?thesis using cont(2,3) pa(3) q by (auto simp: pa' run_check split: option.splits if_splits)
  qed auto
qed

definition sample_db5 :: db where "sample_db5 = snd (run_state (workflow_CreatePatch sample_dbenv sample_patch) sample_db2)"

theorem repeated_patch_not_compacted_witness:
  "\<exists>t x d'. find_tag sample_db5 ''alice'' ''main'' = Some t \<and> run_state (CompactWorkflow sample_dbenv (tg_target_id t) ''bob'') sample_db5 = (Inl x, d')"
proof -
  have r: "(store_step sample_dbenv)\<^sup>*\<^sup>* empty_db sample_db5"
    unfolding sample_db5_def by (rule rtranclp.rtrancl_into_rtrancl [OF sample_reaches2], rule store_step.patch [OF prod.collapse [symmetric]]) simp
  have "case find_tag sample_db5 ''alice'' ''main'' of None \<Rightarrow> False | Some t \<Rightarrow> tg_target_kind t = KindPatchSet" by code_simp
  then obtain t where t: "find_tag sample_db5 ''alice'' ''main'' = Some t" "tg_target_kind t = KindPatchSet" by (auto split: option.splits)
  have v: "versions sample_db5 (''alice'', ''main'') = Some (''{}'', [''[{}]'', ''[{}]''])" by code_simp
  obtain q d' where q: "run_state (CompactWorkflow sample_dbenv (tg_target_id t) ''bob'') sample_db5 = (q, d')"
    by (cases "run_state (CompactWorkflow sample_dbenv (tg_target_id t) ''bob'') sample_db5")
  from repeated_patch_not_compacted [OF r t v _ q] q t show ?thesis by auto
qed

section \<open>Optimistic locking of tags\<close>

record swap =
  sw_target :: string
  sw_kind :: artifact_kind
  sw_hash :: string
  sw_by :: string

fun run_swaps :: "dbenv \<Rightarrow> string \<Rightarrow> string \<Rightarrow> int \<Rightarrow> swap list \<Rightarrow> db \<Rightarrow> bool res list \<times> db" where
  "run_swaps e u n v [] d = ([], d)"
| "run_swaps e u n v (s # ss) d =
    (let (r, d1) = run_state (CompareAndSwap e u n v (sw_target s) (sw_kind s) (sw_hash s) (sw_by s)) d;
         (rs, d2) = run_swaps e u n v ss d1 in (r # rs, d2))"

definition wins :: "bool res list \<Rightarrow> nat" where "wins rs = length (filter (\<lambda>r. r = Inr True) rs)"

lemma CompareAndSwap_run:
  assumes "run_state (CompareAndSwap e u n v i k h w) d = (r, d')" and "find_tag d u n = Some t"
  shows "r = Inr False \<and> find_tag d' u n = Some t
    \<or> r = Inr True \<and> tg_version t = v \<and> (\<exists>m. find_tag d' u n = Some (move k i (Some h) (Some w) m t))"
proof -
  let ?m = "move k i (Some h) (Some w) (db_now e (d_tick d))"
  obtain q d1 where q: "run_state (update_tag e u n (\<lambda>x. tg_version x = v) ?m) (d\<lparr>d_tick := Suc (d_tick d)\<rparr>) = (q, d1)"
    by (cases "run_state (update_tag e u n (\<lambda>x. tg_version x = v) ?m) (d\<lparr>d_tick := Suc (d_tick d)\<rparr>)")
  have r: "d' = d1" "r = Inr (\<exists>x. q = Inr x)"
    using assms(1) q by (auto simp: CompareAndSwap_def tag_CompareAndSwap_def run_check split: sum.splits)
  from update_tag_run [OF q is_tag_move] show ?thesis
  proof
    assume l: "(\<exists>x. q = Inl x) \<and> untick d1 = untick (d\<lparr>d_tick := Suc (d_tick d)\<rparr>)"
    then have "untick d' = untick d" using r by simp
    from untick_lookup(4) [OF this] l r assms(2) show ?thesis by auto
  qed (use r assms(2) in auto)
qed

lemma run_swaps_stale:
  "find_tag d u n = Some t \<Longrightarrow> tg_version t \<noteq> v \<Longrightarrow> run_swaps e u n v ss d = (rs, d') \<Longrightarrow> wins rs = 0 \<and> find_tag d' u n = Some t"
proof (induction ss arbitrary: d rs d')
  case (Cons s ss)
  obtain r d1 where 1: "run_state (CompareAndSwap e u n v (sw_target s) (sw_kind s) (sw_hash s) (sw_by s)) d = (r, d1)" by (cases "run_state (CompareAndSwap e u n v (sw_target s) (sw_kind s) (sw_hash s) (sw_by s)) d")
  obtain rs' d2 where 2: "run_swaps e u n v ss d1 = (rs', d2)" by (cases "run_swaps e u n v ss d1")
  have "r = Inr False" "find_tag d1 u n = Some t" using CompareAndSwap_run [OF 1 Cons.prems(1)] Cons.prems(2) by auto
  with Cons.IH [OF this(2) Cons.prems(2) 2] Cons.prems(3) 1 2 show ?case by (auto simp: wins_def)
qed (auto simp: wins_def)

text \<open>C26. Of any number of users who try to move a tag from the same version, at most one succeeds, and none if the version has changed: the version
  grows by the number of winners, and without a winner the tag is untouched. On a working database the first attempt with a valid target wins.\<close>

theorem one_swap_wins:
  assumes "find_tag d u n = Some t" and "run_swaps e u n v ss d = (rs, d')"
  shows "wins rs \<le> (if tg_version t = v then 1 else 0)
    \<and> (\<exists>t'. find_tag d' u n = Some t' \<and> tg_version t' = tg_version t + int (wins rs) \<and> (wins rs = 0 \<longrightarrow> t' = t)
         \<and> (wins rs = 1 \<longrightarrow> (\<exists>s \<in> set ss. tg_target_id t' = sw_target s \<and> tg_target_hash t' = Some (sw_hash s))))
    \<and> (db_reliable e \<and> tg_version t = v \<and> tg_created_by t \<noteq> None \<and> ss \<noteq> [] \<and>
       (\<exists>a. find_artifact d (sw_target (hd ss)) = Some a \<and> ar_kind a = sw_kind (hd ss) \<and> ar_kind a \<in> {KindDAGVersion, KindPatchSet})
       \<longrightarrow> hd rs = Inr True)"
proof (intro conjI)
  have "wins rs \<le> (if tg_version t = v then 1 else 0)
    \<and> (\<exists>t'. find_tag d' u n = Some t' \<and> tg_version t' = tg_version t + int (wins rs) \<and> (wins rs = 0 \<longrightarrow> t' = t)
         \<and> (wins rs = 1 \<longrightarrow> (\<exists>s \<in> set ss. tg_target_id t' = sw_target s \<and> tg_target_hash t' = Some (sw_hash s))))"
    using assms
  proof (induction ss arbitrary: d rs d')
    case (Cons s ss)
    obtain r d1 where 1: "run_state (CompareAndSwap e u n v (sw_target s) (sw_kind s) (sw_hash s) (sw_by s)) d = (r, d1)" by (cases "run_state (CompareAndSwap e u n v (sw_target s) (sw_kind s) (sw_hash s) (sw_by s)) d")
    obtain rs' d2 where 2: "run_swaps e u n v ss d1 = (rs', d2)" by (cases "run_swaps e u n v ss d1")
    have rs: "rs = r # rs'" "d' = d2" using Cons.prems(2) 1 2 by simp_all
    from CompareAndSwap_run [OF 1 Cons.prems(1)] show ?case
    proof
      assume "r = Inr False \<and> find_tag d1 u n = Some t"
      then show ?thesis using Cons.IH [OF _ 2] by (auto simp: rs wins_def)
    next
      assume "r = Inr True \<and> tg_version t = v \<and> (\<exists>m. find_tag d1 u n = Some (move (sw_kind s) (sw_target s) (Some (sw_hash s)) (Some (sw_by s)) m t))"
      then obtain m where m: "r = Inr True" "tg_version t = v" "find_tag d1 u n = Some (move (sw_kind s) (sw_target s) (Some (sw_hash s)) (Some (sw_by s)) m t)" by blast
      then have "wins rs' = 0 \<and> find_tag d2 u n = Some (move (sw_kind s) (sw_target s) (Some (sw_hash s)) (Some (sw_by s)) m t)"
        using run_swaps_stale [OF m(3) _ 2] by (simp add: move_def)
      then show ?thesis using m by (simp add: rs wins_def move_def)
    qed
  qed (auto simp: wins_def)
  then show "wins rs \<le> (if tg_version t = v then 1 else 0)"
    "\<exists>t'. find_tag d' u n = Some t' \<and> tg_version t' = tg_version t + int (wins rs) \<and> (wins rs = 0 \<longrightarrow> t' = t)
         \<and> (wins rs = 1 \<longrightarrow> (\<exists>s \<in> set ss. tg_target_id t' = sw_target s \<and> tg_target_hash t' = Some (sw_hash s)))" by blast+
  show "db_reliable e \<and> tg_version t = v \<and> tg_created_by t \<noteq> None \<and> ss \<noteq> [] \<and>
       (\<exists>a. find_artifact d (sw_target (hd ss)) = Some a \<and> ar_kind a = sw_kind (hd ss) \<and> ar_kind a \<in> {KindDAGVersion, KindPatchSet})
       \<longrightarrow> hd rs = Inr True"
    using assms by (cases ss) (auto simp: CompareAndSwap_def tag_CompareAndSwap_def run_check update_tag_def run_query db_reliable_def
        move_def tag_violation_def Let_def split: prod.splits)
qed

theorem one_swap_wins_witness:
  "\<exists>rs d'. run_swaps sample_dbenv ''alice'' ''main'' 2 [\<lparr>sw_target = sample_head, sw_kind = KindPatchSet, sw_hash = ''h'', sw_by = ''bob''\<rparr>,
      \<lparr>sw_target = sample_head, sw_kind = KindPatchSet, sw_hash = ''g'', sw_by = ''carol''\<rparr>] sample_db2 = (rs, d') \<and> wins rs = 1 \<and> hd rs = Inr True"
proof -
  let ?ss = "[\<lparr>sw_target = sample_head, sw_kind = KindPatchSet, sw_hash = ''h'', sw_by = ''bob''\<rparr>,
      \<lparr>sw_target = sample_head, sw_kind = KindPatchSet, sw_hash = ''g'', sw_by = ''carol''\<rparr>]"
  have "case find_tag sample_db2 ''alice'' ''main'' of None \<Rightarrow> False | Some t \<Rightarrow> tg_version t = 2 \<and> tg_created_by t = Some ''alice''" by code_simp
  then obtain t where t: "find_tag sample_db2 ''alice'' ''main'' = Some t" "tg_version t = 2" "tg_created_by t \<noteq> None" by (auto split: option.splits)
  have "case find_artifact sample_db2 sample_head of None \<Rightarrow> False | Some a \<Rightarrow> ar_kind a = KindPatchSet" by code_simp
  then have a: "\<exists>a. find_artifact sample_db2 sample_head = Some a \<and> ar_kind a = KindPatchSet" by (auto split: option.splits)
  obtain rs d' where r: "run_swaps sample_dbenv ''alice'' ''main'' 2 ?ss sample_db2 = (rs, d')" by (cases "run_swaps sample_dbenv ''alice'' ''main'' 2 ?ss sample_db2")
  have w: "hd rs = Inr True" "wins rs \<le> 1" using one_swap_wins [OF t(1) r] t sample_reliable a by auto
  have "rs \<noteq> []" using r by (auto simp: Let_def split: prod.splits)
  then have "wins rs = 1" using w by (cases rs) (auto simp: wins_def)
  with r w show ?thesis by blast
qed

end
