(* ===== verification/Fanout.thy ===== *)
theory Fanout
  imports Prelude
begin

text \<open>
  The fanout service (\<open>cmd/fanout\<close>): a Redis subscriber queues the events of all users for the hub, the
  hub copies an event into the send channel of every connection of its user, and a connection's writer
  goroutine sends its channel to the browser. A client is named by its number in the list of all
  clients ever connected, which stands for the pointer; a buffered Go channel is the list of what it holds
  and whether it is closed, and sending to or closing a closed channel is the panic \<open>Inl\<close>, which ends the process
  because no goroutine recovers. The socket decides whether a write succeeds and when a read fails.

  The lemmas show that an open connection gets exactly the events of its user, in order, that the hub's
  bookkeeping counts the readers that run, and that a connection whose channel overflowed ends the process.
\<close>

section \<open>Clients\<close>

datatype frame = TextMessage string | PingMessage | CloseMessage

record client =
  cl_username :: string
  cl_send :: "string list"
  cl_closed :: bool \<comment> \<open>the channel \<open>send\<close> is closed\<close>
  cl_conn :: bool \<comment> \<open>the socket is open\<close>
  cl_frames :: "frame list" \<comment> \<open>what was written to the socket\<close>
  cl_lost :: "string list" \<comment> \<open>the message whose write failed\<close>
  cl_writing :: bool \<comment> \<open>\<open>writePump\<close> runs\<close>
  cl_reading :: bool \<comment> \<open>\<open>readPump\<close> runs\<close>

definition send_capacity :: nat where "send_capacity = 512"

definition NewClient :: "string \<Rightarrow> client" where
  "NewClient username = \<lparr>cl_username = username, cl_send = [], cl_closed = False, cl_conn = True, cl_frames = [],
     cl_lost = [], cl_writing = True, cl_reading = True\<rparr>"

text \<open>\<open>close(client.send)\<close>, and the \<open>select\<close> with a \<open>default\<close>: \<open>None\<close> if the buffer is full.\<close>

definition close_send :: "client \<Rightarrow> client res" where
  "close_send c = (if cl_closed c then Inl ''close of closed channel'' else Inr (c\<lparr>cl_closed := True\<rparr>))"

definition try_send :: "client \<Rightarrow> string \<Rightarrow> client option res" where
  "try_send c m = (if cl_closed c then Inl ''send on closed channel''
     else if length (cl_send c) < send_capacity then Inr (Some (c\<lparr>cl_send := cl_send c @ [m]\<rparr>)) else Inr None)"

text \<open>One receive of \<open>writePump\<close>, in the outer or the inner loop (the inner loop takes only what is buffered),
  and one tick of its ticker; \<open>wrote\<close> is whether the socket takes the frame.\<close>

definition stop_writing :: "client \<Rightarrow> client" where
  "stop_writing c = c\<lparr>cl_writing := False, cl_conn := False\<rparr>"

definition writePump :: "bool \<Rightarrow> client \<Rightarrow> client" where
  "writePump wrote c = (if \<not> cl_writing c then c else case cl_send c of
     m # ms \<Rightarrow> if wrote \<and> cl_conn c then c\<lparr>cl_send := ms, cl_frames := cl_frames c @ [TextMessage m]\<rparr>
       else stop_writing (c\<lparr>cl_send := ms, cl_lost := [m]\<rparr>)
   | [] \<Rightarrow> if cl_closed c
       then stop_writing (c\<lparr>cl_frames := cl_frames c @ (if wrote \<and> cl_conn c then [CloseMessage] else [])\<rparr>)
       else c)"

definition writePump_ping :: "bool \<Rightarrow> client \<Rightarrow> client" where
  "writePump_ping wrote c = (if \<not> cl_writing c then c
     else if wrote \<and> cl_conn c then c\<lparr>cl_frames := cl_frames c @ [PingMessage]\<rparr> else stop_writing c)"

section \<open>The hub\<close>

record message =
  ms_Username :: string
  ms_Data :: string

record hub =
  hb_connections :: "nat list smap"
  hb_broadcast :: "message list"
  hb_clients :: "client list"

definition broadcast_capacity :: nat where "broadcast_capacity = 256"

definition NewHub :: hub where
  "NewHub = \<lparr>hb_connections = [], hb_broadcast = [], hb_clients = []\<rparr>"

definition client_of :: "hub \<Rightarrow> nat \<Rightarrow> client" where "client_of h i = hb_clients h ! i"

definition set_client :: "nat \<Rightarrow> client \<Rightarrow> hub \<Rightarrow> hub" where
  "set_client i c h = h\<lparr>hb_clients := (hb_clients h)[i := c]\<rparr>"

definition registerClient :: "nat \<Rightarrow> hub \<Rightarrow> hub" where
  "registerClient i h = h\<lparr>hb_connections := multi_add (cl_username (client_of h i)) i (hb_connections h)\<rparr>"

definition unregisterClient :: "nat \<Rightarrow> hub \<Rightarrow> hub res" where
  "unregisterClient i h = (let u = cl_username (client_of h i); clients = mslice (hb_connections h) u in
     if i \<in> set clients
     then let rest = remove1 i clients; conns = AList.update u rest (hb_connections h) in
       (case close_send (client_of h i) of Inl x \<Rightarrow> Inl x
        | Inr c \<Rightarrow> Inr (set_client i c (h\<lparr>hb_connections := if rest = [] then AList.delete u conns else conns\<rparr>)))
     else Inr h)"

primrec send_each :: "string \<Rightarrow> nat list \<Rightarrow> hub \<Rightarrow> hub res" where
  "send_each m [] h = Inr h"
| "send_each m (i # is) h = (case try_send (client_of h i) m of
     Inl x \<Rightarrow> Inl x
   | Inr (Some c) \<Rightarrow> send_each m is (set_client i c h)
   | Inr None \<Rightarrow> (case close_send (client_of h i) of Inl x \<Rightarrow> Inl x | Inr c \<Rightarrow> send_each m is (set_client i c h)))"

definition broadcastToUsername :: "message \<Rightarrow> hub \<Rightarrow> hub res" where
  "broadcastToUsername m h = (let clients = mslice (hb_connections h) (ms_Username m) in
     if clients = [] then Inr h else send_each (ms_Data m) clients h)"

definition GetConnectionCount :: "hub \<Rightarrow> nat" where
  "GetConnectionCount h = sum_list (map (\<lambda>(u, clients). length clients) (hb_connections h))"

definition GetUserCount :: "hub \<Rightarrow> nat" where
  "GetUserCount h = length (hb_connections h)"

section \<open>The connections of the hub\<close>

datatype ws_result = UsernameRequired | UpgradeError | Connected

definition HandleWebSocket :: "string \<Rightarrow> bool \<Rightarrow> hub \<Rightarrow> ws_result \<times> hub" where
  "HandleWebSocket username upgraded h =
    (if username = '''' then (UsernameRequired, h)
     else if \<not> upgraded then (UpgradeError, h)
     else (Connected, registerClient (length (hb_clients h)) (h\<lparr>hb_clients := hb_clients h @ [NewClient username]\<rparr>)))"

text \<open>\<open>readPump\<close> ends: it unregisters the client and then closes the socket.\<close>

definition readPump_end :: "nat \<Rightarrow> hub \<Rightarrow> hub res" where
  "readPump_end i h = (if cl_reading (client_of h i) then unregisterClient i (set_client i ((client_of h i)\<lparr>cl_reading := False\<rparr>) h) else Inr h)"

definition readPump_close :: "nat \<Rightarrow> hub \<Rightarrow> hub" where
  "readPump_close i h = (if cl_reading (client_of h i) then h else set_client i ((client_of h i)\<lparr>cl_conn := False\<rparr>) h)"

definition extractUsernameFromChannel :: "string \<Rightarrow> string" where
  "extractUsernameFromChannel channel = (let parts = split_on (CHR '':'') channel in
     if length parts \<noteq> 3 \<or> parts ! 0 \<noteq> ''workflow'' \<or> parts ! 1 \<noteq> ''events'' then '''' else parts ! 2)"

text \<open>One message of the subscription: \<open>None\<close> while the hub's channel is full and the subscriber waits.\<close>

definition subscriber_forward :: "string \<Rightarrow> string \<Rightarrow> hub \<Rightarrow> hub option" where
  "subscriber_forward channel payload h = (let username = extractUsernameFromChannel channel in
     if username = '''' then Some h
     else if length (hb_broadcast h) < broadcast_capacity
     then Some (h\<lparr>hb_broadcast := hb_broadcast h @ [\<lparr>ms_Username = username, ms_Data = payload\<rparr>]\<rparr>)
     else None)"

section \<open>Running the service\<close>

text \<open>What can happen next. An event that has to wait (nothing to receive, a full channel) changes nothing.\<close>

datatype fan_event =
    Browser string bool
  | Published string string
  | Dispatch
  | Write nat bool
  | Tick nat bool
  | ReadEnd nat
  | SocketClose nat

fun fan_exec :: "fan_event \<Rightarrow> hub \<Rightarrow> hub res" where
  "fan_exec (Browser username upgraded) h = Inr (snd (HandleWebSocket username upgraded h))"
| "fan_exec (Published channel payload) h = Inr (case subscriber_forward channel payload h of None \<Rightarrow> h | Some h' \<Rightarrow> h')"
| "fan_exec Dispatch h = (case hb_broadcast h of [] \<Rightarrow> Inr h | m # ms \<Rightarrow> broadcastToUsername m (h\<lparr>hb_broadcast := ms\<rparr>))"
| "fan_exec (Write i wrote) h = Inr (if i < length (hb_clients h) then set_client i (writePump wrote (client_of h i)) h else h)"
| "fan_exec (Tick i wrote) h = Inr (if i < length (hb_clients h) then set_client i (writePump_ping wrote (client_of h i)) h else h)"
| "fan_exec (ReadEnd i) h = (if i < length (hb_clients h) then readPump_end i h else Inr h)"
| "fan_exec (SocketClose i) h = Inr (if i < length (hb_clients h) then readPump_close i h else h)"

fun fan_run :: "fan_event list \<Rightarrow> hub \<Rightarrow> hub res" where
  "fan_run [] h = Inr h"
| "fan_run (ev # evs) h = (case fan_exec ev h of Inl x \<Rightarrow> Inl x | Inr h' \<Rightarrow> fan_run evs h')"

text \<open>The events for a user that the subscriber passes on during a run, and those the hub takes from its channel.\<close>

definition taken :: "string \<Rightarrow> fan_event \<Rightarrow> hub \<Rightarrow> string list" where
  "taken u ev h = (case ev of Published ch p \<Rightarrow>
     if u \<noteq> '''' \<and> extractUsernameFromChannel ch = u \<and> length (hb_broadcast h) < broadcast_capacity then [p] else [] | _ \<Rightarrow> [])"

definition queued :: "string \<Rightarrow> message list \<Rightarrow> string list" where
  "queued u ms = map ms_Data (filter (\<lambda>m. ms_Username m = u) ms)"

definition handed :: "string \<Rightarrow> fan_event \<Rightarrow> hub \<Rightarrow> string list" where
  "handed u ev h = (if ev = Dispatch then queued u (take 1 (hb_broadcast h)) else [])"

fun during :: "(fan_event \<Rightarrow> hub \<Rightarrow> string list) \<Rightarrow> fan_event list \<Rightarrow> hub \<Rightarrow> string list" where
  "during f [] h = []"
| "during f (ev # evs) h = f ev h @ (case fan_exec ev h of Inl x \<Rightarrow> [] | Inr h' \<Rightarrow> during f evs h')"

text \<open>What a client was given: written, lost in the failed write, still in its channel.\<close>

definition texts :: "frame list \<Rightarrow> string list" where
  "texts fs = List.map_filter (\<lambda>f. case f of TextMessage m \<Rightarrow> Some m | _ \<Rightarrow> None) fs"

definition given :: "client \<Rightarrow> string list" where
  "given c = texts (cl_frames c) @ cl_lost c @ cl_send c"

definition registered :: "hub \<Rightarrow> nat \<Rightarrow> bool" where
  "registered h i \<longleftrightarrow> (\<exists>u. i \<in> set (mslice (hb_connections h) u))"

definition overflowed :: "hub \<Rightarrow> nat \<Rightarrow> bool" where
  "overflowed h i \<longleftrightarrow> registered h i \<and> cl_closed (client_of h i)"

definition client_ok :: "client \<Rightarrow> bool" where
  "client_ok c \<longleftrightarrow> cl_username c \<noteq> '''' \<and> length (cl_send c) \<le> send_capacity \<and> length (cl_lost c) \<le> 1
     \<and> (cl_writing c \<longrightarrow> cl_lost c = []) \<and> (\<not> cl_reading c \<longrightarrow> cl_closed c)"

definition hub_ok :: "hub \<Rightarrow> bool" where
  "hub_ok h \<longleftrightarrow> distinct (map fst (hb_connections h)) \<and> [] \<notin> snd ` set (hb_connections h)
     \<and> (\<forall>u. distinct (mslice (hb_connections h) u)
          \<and> set (mslice (hb_connections h) u) = {i. i < length (hb_clients h) \<and> cl_reading (client_of h i) \<and> cl_username (client_of h i) = u})
     \<and> (\<forall>c \<in> set (hb_clients h). client_ok c) \<and> length (hb_broadcast h) \<le> broadcast_capacity"

section \<open>One step\<close>

definition push :: "string \<Rightarrow> client \<Rightarrow> client" where
  "push m c = (if length (cl_send c) < send_capacity then c\<lparr>cl_send := cl_send c @ [m]\<rparr> else c\<lparr>cl_closed := True\<rparr>)"

lemma client_of_set [simp]:
  "i < length (hb_clients h) \<Longrightarrow> client_of (set_client i c h) j = (if j = i then c else client_of h j)"
  by (simp add: client_of_def set_client_def nth_list_update)

lemma set_client_simps [simp]:
  "hb_connections (set_client i c h) = hb_connections h" "hb_broadcast (set_client i c h) = hb_broadcast h"
  "length (hb_clients (set_client i c h)) = length (hb_clients h)"
  by (simp_all add: set_client_def)

lemma client_of_update [simp]:
  "client_of (h\<lparr>hb_connections := cs\<rparr>) j = client_of h j" "client_of (h\<lparr>hb_broadcast := ms\<rparr>) j = client_of h j"
  by (simp_all add: client_of_def)

lemma send_each_cases:
  assumes "distinct is" and "\<forall>i \<in> set is. i < length (hb_clients h)"
  shows "(\<exists>i \<in> set is. cl_closed (client_of h i)) \<and> send_each m is h = Inl ''send on closed channel''
    \<or> (\<forall>i \<in> set is. \<not> cl_closed (client_of h i)) \<and> (\<exists>h'. send_each m is h = Inr h' \<and> hb_connections h' = hb_connections h
        \<and> hb_broadcast h' = hb_broadcast h \<and> length (hb_clients h') = length (hb_clients h)
        \<and> (\<forall>j. client_of h' j = (if j \<in> set is then push m (client_of h j) else client_of h j)))"
  using assms
proof (induction "is" arbitrary: h)
  case Nil
  then show ?case by simp
next
  case (Cons i "is")
  show ?case
  proof (cases "cl_closed (client_of h i)")
    case True
    then show ?thesis by (auto simp: try_send_def)
  next
    case False
    let ?h = "set_client i (push m (client_of h i)) h"
    have s: "send_each m (i # is) h = send_each m is ?h"
      using False by (simp add: try_send_def close_send_def push_def)
    have i: "i < length (hb_clients h)" "i \<notin> set is" using Cons.prems by auto
    have c: "client_of ?h j = (if j = i then push m (client_of h i) else client_of h j)" for j using i(1) by simp
    then have "\<forall>j \<in> set is. client_of ?h j = client_of h j" using i(2) by auto
    with Cons.IH [of ?h] Cons.prems False i c s show ?thesis by auto
  qed
qed

lemma mslice_delete: "mslice (AList.delete k m) k' = (if k' = k then [] else mslice m k')"
  by (simp add: mslice_def delete_conv')

lemma mslice_update: "mslice (AList.update k xs m) k' = (if k' = k then xs else mslice m k')"
  by (simp add: mslice_def update_conv')

lemma no_empty_value: "distinct (map fst m) \<Longrightarrow> v \<notin> snd ` set m \<longleftrightarrow> (\<forall>k. map_of m k \<noteq> Some v)"
  by (force simp: in_set_map_of [symmetric])

lemma hub_ok_clients:
  assumes "hub_ok h" and "hb_connections h' = hb_connections h" and "length (hb_broadcast h') \<le> broadcast_capacity"
    and "length (hb_clients h') = length (hb_clients h)"
    and "\<And>j. j < length (hb_clients h) \<Longrightarrow> client_ok (client_of h' j) \<and> cl_username (client_of h' j) = cl_username (client_of h j)
      \<and> cl_reading (client_of h' j) = cl_reading (client_of h j)"
  shows "hub_ok h'"
  using assms unfolding hub_ok_def by (auto simp: in_set_conv_nth client_of_def)

lemma hub_ok_client: "hub_ok h \<Longrightarrow> j < length (hb_clients h) \<Longrightarrow> client_ok (client_of h j)"
  by (auto simp: hub_ok_def client_of_def)

lemma hub_ok_slice:
  "hub_ok h \<Longrightarrow> i \<in> set (mslice (hb_connections h) u) \<longleftrightarrow> i < length (hb_clients h) \<and> cl_reading (client_of h i) \<and> cl_username (client_of h i) = u"
  by (auto simp: hub_ok_def)

lemma hub_ok_set_client:
  assumes "hub_ok h" and "i < length (hb_clients h)" and "client_ok c" and "cl_username c = cl_username (client_of h i)"
    and "cl_reading c = cl_reading (client_of h i)"
  shows "hub_ok (set_client i c h)"
  using assms by (intro hub_ok_clients [OF assms(1)]) (auto simp: hub_ok_client [OF assms(1)] hub_ok_def [of h])

lemma registered_iff: "hub_ok h \<Longrightarrow> registered h i \<longleftrightarrow> i < length (hb_clients h) \<and> cl_reading (client_of h i)"
  by (auto simp: registered_def hub_ok_slice)

lemma client_ok_steps [simp]:
  "client_ok c \<Longrightarrow> client_ok (push m c)" "client_ok c \<Longrightarrow> client_ok (writePump w c)" "client_ok c \<Longrightarrow> client_ok (writePump_ping w c)"
  "cl_username (push m c) = cl_username c" "cl_username (writePump w c) = cl_username c" "cl_username (writePump_ping w c) = cl_username c"
  "cl_reading (push m c) = cl_reading c" "cl_reading (writePump w c) = cl_reading c" "cl_reading (writePump_ping w c) = cl_reading c"
  by (auto simp: client_ok_def push_def writePump_def writePump_ping_def stop_writing_def split: list.splits)

lemma hub_ok_register:
  assumes "hub_ok h" and "u \<noteq> ''''"
  shows "hub_ok (registerClient (length (hb_clients h)) (h\<lparr>hb_clients := hb_clients h @ [NewClient u]\<rparr>))"
proof -
  let ?n = "length (hb_clients h)"
  let ?h = "registerClient ?n (h\<lparr>hb_clients := hb_clients h @ [NewClient u]\<rparr>)"
  have k: "hb_connections ?h = multi_add u ?n (hb_connections h)"
    by (simp add: registerClient_def client_of_def NewClient_def)
  have c: "client_of ?h j = (if j = ?n then NewClient u else client_of h j)" if "j < Suc ?n" for j
    using that by (auto simp: registerClient_def client_of_def nth_append)
  have dk: "distinct (map fst (hb_connections h))" and ne: "\<forall>v. map_of (hb_connections h) v \<noteq> Some []"
    using assms(1) no_empty_value [of "hb_connections h" "[]"] by (simp_all add: hub_ok_def)
  have "[] \<notin> snd ` set (hb_connections ?h)"
    unfolding k no_empty_value [OF distinct_multi_add [OF dk]] using ne by (simp add: multi_add_def update_conv')
  moreover have len: "length (hb_clients ?h) = Suc ?n" by (simp add: registerClient_def)
  have "i \<in> set (mslice (hb_connections ?h) v) \<longleftrightarrow> i < Suc ?n \<and> cl_reading (client_of ?h i) \<and> cl_username (client_of ?h i) = v" for i v
    unfolding k mslice_multi_add using hub_ok_slice [OF assms(1), of i v] c [of i] by (cases "i = ?n") (auto simp: NewClient_def)
  then have "set (mslice (hb_connections ?h) v) = {i. i < length (hb_clients ?h) \<and> cl_reading (client_of ?h i) \<and> cl_username (client_of ?h i) = v}" for v
    unfolding len by blast
  moreover have "?n \<notin> set (mslice (hb_connections h) v)" for v using hub_ok_slice [OF assms(1)] by blast
  then have "distinct (mslice (hb_connections ?h) v)" for v
    using assms(1) by (auto simp: k mslice_multi_add hub_ok_def)
  moreover have "distinct (map fst (hb_connections ?h))" using assms(1) by (simp add: k distinct_multi_add hub_ok_def)
  ultimately show ?thesis
    using assms unfolding hub_ok_def by (auto simp: registerClient_def NewClient_def client_ok_def)
qed

lemma readPump_end_ok:
  assumes "hub_ok h" and "i < length (hb_clients h)" and "cl_reading (client_of h i)" and "\<not> cl_closed (client_of h i)"
  shows "\<exists>h'. readPump_end i h = Inr h' \<and> hub_ok h' \<and> hb_broadcast h' = hb_broadcast h \<and> length (hb_clients h') = length (hb_clients h)
    \<and> (\<forall>j. client_of h' j = (if j = i then (client_of h i)\<lparr>cl_reading := False, cl_closed := True\<rparr> else client_of h j))"
proof -
  let ?u = "cl_username (client_of h i)"
  let ?rest = "remove1 i (mslice (hb_connections h) ?u)"
  let ?up = "AList.update ?u ?rest (hb_connections h)"
  let ?conns = "if ?rest = [] then AList.delete ?u ?up else ?up"
  let ?c = "(client_of h i)\<lparr>cl_reading := False, cl_closed := True\<rparr>"
  let ?h = "(set_client i ?c h)\<lparr>hb_connections := ?conns\<rparr>"
  have e: "readPump_end i h = Inr ?h"
    using assms hub_ok_slice [OF assms(1), of i ?u]
    by (simp add: readPump_end_def unregisterClient_def close_send_def Let_def set_client_def client_of_def)
  have d: "distinct (map fst (hb_connections h))" "distinct (mslice (hb_connections h) v)" for v using assms(1) by (auto simp: hub_ok_def)
  then have d': "distinct (map fst ?up)" by (simp add: distinct_update)
  have m: "mslice ?conns v = (if v = ?u then ?rest else mslice (hb_connections h) v)" for v
    by (simp add: mslice_delete mslice_update)
  have dc: "distinct (map fst ?conns)" using d(1) by (simp add: distinct_delete distinct_update)
  have ne: "\<forall>v. map_of (hb_connections h) v \<noteq> Some []"
    using assms(1) no_empty_value [OF d(1), of "[]"] by (simp add: hub_ok_def)
  have "[] \<notin> snd ` set ?conns"
    unfolding no_empty_value [OF dc] using ne by (simp add: delete_conv' update_conv')
  moreover have "set (mslice ?conns v) = {j. j < length (hb_clients ?h) \<and> cl_reading (client_of ?h j) \<and> cl_username (client_of ?h j) = v}" for v
    using assms d hub_ok_slice [OF assms(1)] by (auto simp: m)
  moreover have "distinct (mslice ?conns v)" for v using d by (simp add: m)
  moreover have "\<forall>c \<in> set (hb_clients ?h). client_ok c"
    using assms(1,2) hub_ok_client [OF assms(1,2)] by (auto simp: hub_ok_def set_client_def client_ok_def dest!: set_update_subset_insert [THEN subsetD])
  ultimately have "hub_ok ?h" using assms(1) dc by (auto simp: hub_ok_def)
  with e assms(2) show ?thesis by auto
qed

lemma dispatch_cases:
  assumes "hub_ok h" and "hb_broadcast h = m # ms"
  obtains (crash) i where "overflowed h i" "cl_username (client_of h i) = ms_Username m" "fan_exec Dispatch h = Inl ''send on closed channel''"
    | (sent) h' where "\<And>i. overflowed h i \<Longrightarrow> cl_username (client_of h i) \<noteq> ms_Username m"
        "fan_exec Dispatch h = Inr h'" "hb_connections h' = hb_connections h" "hb_broadcast h' = ms"
        "length (hb_clients h') = length (hb_clients h)"
        "\<And>j. j < length (hb_clients h) \<Longrightarrow> client_of h' j = (if cl_reading (client_of h j) \<and> cl_username (client_of h j) = ms_Username m
            then push (ms_Data m) (client_of h j) else client_of h j)"
proof -
  let ?is = "mslice (hb_connections h) (ms_Username m)"
  have e: "fan_exec Dispatch h = send_each (ms_Data m) ?is (h\<lparr>hb_broadcast := ms\<rparr>)"
    using assms(2) by (simp add: broadcastToUsername_def Let_def)
  have o: "overflowed h i \<and> cl_username (client_of h i) = ms_Username m \<longleftrightarrow> i \<in> set ?is \<and> cl_closed (client_of h i)" for i
    using hub_ok_slice [OF assms(1)] registered_iff [OF assms(1)] by (auto simp: overflowed_def)
  have d: "distinct ?is" "\<forall>i \<in> set ?is. i < length (hb_clients (h\<lparr>hb_broadcast := ms\<rparr>))" using assms(1) by (auto simp: hub_ok_def)
  from send_each_cases [OF this, of "ms_Data m"] show thesis
  proof (elim disjE conjE exE bexE)
    fix i
    assume "i \<in> set ?is" "cl_closed (client_of (h\<lparr>hb_broadcast := ms\<rparr>) i)" "send_each (ms_Data m) ?is (h\<lparr>hb_broadcast := ms\<rparr>) = Inl ''send on closed channel''"
    then show thesis using o [of i] e by (intro crash) auto
  next
    fix h'
    assume nc: "\<forall>i \<in> set ?is. \<not> cl_closed (client_of (h\<lparr>hb_broadcast := ms\<rparr>) i)" and s: "send_each (ms_Data m) ?is (h\<lparr>hb_broadcast := ms\<rparr>) = Inr h'"
      "hb_connections h' = hb_connections (h\<lparr>hb_broadcast := ms\<rparr>)" "hb_broadcast h' = hb_broadcast (h\<lparr>hb_broadcast := ms\<rparr>)"
      "length (hb_clients h') = length (hb_clients (h\<lparr>hb_broadcast := ms\<rparr>))"
      "\<forall>j. client_of h' j = (if j \<in> set ?is then push (ms_Data m) (client_of (h\<lparr>hb_broadcast := ms\<rparr>) j) else client_of (h\<lparr>hb_broadcast := ms\<rparr>) j)"
    show thesis
    proof (rule sent [of h'])
      show "cl_username (client_of h i) \<noteq> ms_Username m" if "overflowed h i" for i
        using that o [of i] nc by auto
    qed (use e s hub_ok_slice [OF assms(1)] in simp_all)
  qed
qed

lemma ReadEnd_cases:
  assumes "hub_ok h" and "i < length (hb_clients h)" and "cl_reading (client_of h i)" and "cl_closed (client_of h i)"
  shows "readPump_end i h = Inl ''close of closed channel''"
  using assms hub_ok_slice [OF assms(1), of i "cl_username (client_of h i)"]
  by (simp add: readPump_end_def unregisterClient_def close_send_def Let_def)

lemma fan_exec_ok:
  assumes "hub_ok h" and "fan_exec ev h = Inr h'"
  shows "hub_ok h'"
proof (cases ev)
  case (Browser u b)
  with assms show ?thesis by (auto simp: HandleWebSocket_def intro: hub_ok_register)
next
  case (Published ch p)
  with assms show ?thesis
    by (auto simp: subscriber_forward_def Let_def hub_ok_def client_of_def split: if_splits)
next
  case Dispatch
  show ?thesis
  proof (cases "hb_broadcast h")
    case (Cons m ms)
    show ?thesis
    proof (rule dispatch_cases [OF assms(1) Cons])
      fix g assume g: "fan_exec Dispatch h = Inr g" "hb_connections g = hb_connections h" "hb_broadcast g = ms" "length (hb_clients g) = length (hb_clients h)"
        "\<And>j. j < length (hb_clients h) \<Longrightarrow> client_of g j = (if cl_reading (client_of h j) \<and> cl_username (client_of h j) = ms_Username m
            then push (ms_Data m) (client_of h j) else client_of h j)"
      have "length ms \<le> broadcast_capacity" using assms(1) Cons by (simp add: hub_ok_def)
      then have "hub_ok g" using g by (intro hub_ok_clients [OF assms(1)]) (auto simp: hub_ok_client [OF assms(1)])
      then show ?thesis using assms(2) Dispatch g(1) by simp
    qed (use assms(2) Dispatch in simp)
  qed (use assms Dispatch in simp)
next
  case (ReadEnd i)
  show ?thesis
  proof (cases "i < length (hb_clients h) \<and> cl_reading (client_of h i)")
    case True
    then show ?thesis using assms ReadEnd readPump_end_ok [of h i] ReadEnd_cases [of h i]
      by (cases "cl_closed (client_of h i)") auto
  qed (use assms ReadEnd in \<open>auto simp: readPump_end_def split: if_splits\<close>)
next
  case (SocketClose i)
  show ?thesis
  proof (cases "i < length (hb_clients h)")
    case True
    then have "client_ok ((client_of h i)\<lparr>cl_conn := False\<rparr>)" using hub_ok_client [OF assms(1)] by (auto simp: client_ok_def)
    then have "hub_ok (set_client i ((client_of h i)\<lparr>cl_conn := False\<rparr>) h)" using assms(1) True
      by (intro hub_ok_set_client) auto
    then show ?thesis using assms SocketClose True by (auto simp: readPump_close_def split: if_splits)
  qed (use assms SocketClose in simp)
qed (use assms in \<open>auto simp: hub_ok_client [OF assms(1)] intro!: hub_ok_set_client split: if_splits\<close>)

lemma NewHub_ok: "hub_ok NewHub"
  by (simp add: hub_ok_def NewHub_def)

lemma fan_run_ok: "hub_ok h \<Longrightarrow> fan_run evs h = Inr h' \<Longrightarrow> hub_ok h'"
  by (induction evs arbitrary: h) (auto split: sum.splits dest: fan_exec_ok)

section \<open>What a connection gets\<close>

lemma texts_append [simp]: "texts (xs @ ys) = texts xs @ texts ys"
  by (induction xs) (simp_all add: texts_def List.map_filter_simps split: option.splits)

lemma texts_single [simp]: "texts [] = []" "texts [TextMessage m] = [m]" "texts [PingMessage] = []" "texts [CloseMessage] = []"
  by (simp_all add: texts_def List.map_filter_simps)

lemma given_steps:
  "client_ok c \<Longrightarrow> given (writePump w c) = given c" "given (writePump_ping w c) = given c"
  "given (push m c) = (if length (cl_send c) < send_capacity then given c @ [m] else given c)"
  by (auto simp: given_def client_ok_def writePump_def writePump_ping_def stop_writing_def push_def split: list.splits)

lemma closed_steps [simp]:
  "cl_closed (writePump w c) = cl_closed c" "cl_closed (writePump_ping w c) = cl_closed c"
  "cl_closed (push m c) = (cl_closed c \<or> \<not> length (cl_send c) < send_capacity)"
  by (auto simp: writePump_def writePump_ping_def stop_writing_def push_def split: list.splits)

text \<open>One step, seen from client \<open>i\<close>.\<close>

definition client_step :: "nat \<Rightarrow> fan_event \<Rightarrow> hub \<Rightarrow> client \<Rightarrow> client \<Rightarrow> bool" where
  "client_step i ev h c c' \<longleftrightarrow> cl_username c' = cl_username c \<and> (cl_reading c' \<longleftrightarrow> cl_reading c \<and> ev \<noteq> ReadEnd i)
     \<and> (if cl_closed c then cl_closed c' \<and> given c' = given c \<and> \<not> (cl_reading c \<and> (ev = ReadEnd i \<or> handed (cl_username c) ev h \<noteq> []))
        else given c' = given c @ handed (cl_username c) ev h \<and> (cl_closed c' \<longleftrightarrow> ev = ReadEnd i)
          \<or> ev = Dispatch \<and> cl_closed c' \<and> given c' = given c \<and> length (cl_send c) = send_capacity)"

lemma client_step_same: "ev \<noteq> Dispatch \<Longrightarrow> ev \<noteq> ReadEnd i \<Longrightarrow> given c' = given c \<Longrightarrow> cl_username c' = cl_username c \<Longrightarrow>
  cl_reading c' = cl_reading c \<Longrightarrow> cl_closed c' = cl_closed c \<Longrightarrow> client_step i ev h c c'"
  by (simp add: client_step_def handed_def)

lemma fan_exec_client:
  assumes "hub_ok h" and "fan_exec ev h = Inr h'" and "i < length (hb_clients h)"
  shows "i < length (hb_clients h') \<and> client_step i ev h (client_of h i) (client_of h' i)"
proof -
  note cok = hub_ok_client [OF assms(1,3)]
  show ?thesis
  proof (cases ev)
    case (Browser u b)
    with assms have "client_of h' i = client_of h i" "i < length (hb_clients h')"
      by (auto simp: HandleWebSocket_def registerClient_def client_of_def nth_append)
    with Browser show ?thesis by (simp add: client_step_same)
  next
    case (Published ch p)
    with assms have "client_of h' i = client_of h i" "i < length (hb_clients h')"
      by (auto simp: subscriber_forward_def Let_def client_of_def split: if_splits)
    with Published show ?thesis by (simp add: client_step_same)
  next
    case Dispatch
    show ?thesis
    proof (cases "hb_broadcast h")
      case Nil
      with assms Dispatch show ?thesis by (auto simp: client_step_def handed_def queued_def)
    next
      case (Cons m ms)
      show ?thesis
      proof (rule dispatch_cases [OF assms(1) Cons])
        fix g
        assume no: "\<And>i. overflowed h i \<Longrightarrow> cl_username (client_of h i) \<noteq> ms_Username m" and g: "fan_exec Dispatch h = Inr g"
          "length (hb_clients g) = length (hb_clients h)"
          "\<And>j. j < length (hb_clients h) \<Longrightarrow> client_of g j = (if cl_reading (client_of h j) \<and> cl_username (client_of h j) = ms_Username m
            then push (ms_Data m) (client_of h j) else client_of h j)"
        let ?c = "client_of h i"
        have "handed (cl_username ?c) ev h = (if ms_Username m = cl_username ?c then [ms_Data m] else [])"
          using Dispatch Cons by (simp add: handed_def queued_def)
        moreover have "\<not> (cl_reading ?c \<and> cl_closed ?c \<and> cl_username ?c = ms_Username m)"
          using no [of i] registered_iff [OF assms(1)] assms(3) by (auto simp: overflowed_def)
        moreover have "cl_reading ?c \<or> cl_closed ?c" "length (cl_send ?c) \<le> send_capacity" using cok by (auto simp: client_ok_def)
        ultimately show ?thesis using g(3) [OF assms(3)] g(2) assms(2,3) Dispatch g(1)
          by (auto simp: client_step_def given_steps)
      qed (use assms(2) Dispatch in simp)
    qed
  next
    case (ReadEnd k)
    show ?thesis
    proof (cases "k < length (hb_clients h) \<and> cl_reading (client_of h k)")
      case True
      then have nc: "\<not> cl_closed (client_of h k)" using assms(1,2) ReadEnd ReadEnd_cases [of h k] by auto
      from readPump_end_ok [OF assms(1) _ _ nc] True ReadEnd assms nc show ?thesis
        by (auto simp: client_step_def handed_def given_def)
    next
      case False
      then have "h' = h" using assms ReadEnd by (auto simp: readPump_end_def split: if_splits)
      then show ?thesis using False ReadEnd assms(3) cok by (auto simp: client_step_def handed_def client_ok_def)
    qed
  next
    case (SocketClose k)
    with assms show ?thesis by (auto simp: readPump_close_def client_step_def handed_def given_def split: if_splits)
  qed (use assms cok in \<open>auto intro!: client_step_same simp: given_steps split: if_splits\<close>)
qed

lemma fan_exec_queue:
  assumes "hub_ok h" and "fan_exec ev h = Inr h'" and "u \<noteq> ''''"
  shows "queued u (hb_broadcast h) @ taken u ev h = handed u ev h @ queued u (hb_broadcast h')"
proof (cases ev)
  case (Browser v b)
  with assms show ?thesis by (auto simp: HandleWebSocket_def registerClient_def taken_def handed_def)
next
  case (Published ch p)
  with assms show ?thesis by (auto simp: subscriber_forward_def Let_def taken_def handed_def queued_def split: if_splits)
next
  case Dispatch
  show ?thesis
  proof (cases "hb_broadcast h")
    case Nil
    with assms Dispatch show ?thesis by (simp add: taken_def handed_def queued_def)
  next
    case (Cons m ms)
    show ?thesis
    proof (rule dispatch_cases [OF assms(1) Cons])
      fix g assume "fan_exec Dispatch h = Inr g" "hb_broadcast g = ms"
      then show ?thesis using assms(2) Dispatch Cons by (simp add: taken_def handed_def queued_def)
    qed (use assms(2) Dispatch in simp)
  qed
next
  case (ReadEnd k)
  show ?thesis
  proof (cases "k < length (hb_clients h) \<and> cl_reading (client_of h k)")
    case True
    then have "\<not> cl_closed (client_of h k)" using assms(1,2) ReadEnd ReadEnd_cases [of h k] by auto
    from readPump_end_ok [OF assms(1) _ _ this] True ReadEnd assms show ?thesis by (auto simp: taken_def handed_def)
  qed (use assms ReadEnd in \<open>auto simp: readPump_end_def taken_def handed_def split: if_splits\<close>)
qed (use assms in \<open>auto simp: taken_def handed_def readPump_close_def split: if_splits\<close>)

lemma fan_run_client:
  assumes "hub_ok h" and "fan_run evs h = Inr h'" and "i < length (hb_clients h)"
  shows "i < length (hb_clients h') \<and> cl_username (client_of h' i) = cl_username (client_of h i)
    \<and> (cl_closed (client_of h i) \<longrightarrow> cl_closed (client_of h' i) \<and> given (client_of h' i) = given (client_of h i))
    \<and> prefix (given (client_of h' i)) (given (client_of h i) @ during (handed (cl_username (client_of h i))) evs h)
    \<and> (\<not> cl_closed (client_of h' i) \<longrightarrow> given (client_of h' i) = given (client_of h i) @ during (handed (cl_username (client_of h i))) evs h)"
  using assms
proof (induction evs arbitrary: h)
  case (Cons ev evs)
  from Cons.prems obtain g where g: "fan_exec ev h = Inr g" "fan_run evs g = Inr h'" by (auto split: sum.splits)
  have s: "i < length (hb_clients g)" "client_step i ev h (client_of h i) (client_of g i)" using fan_exec_client [OF Cons.prems(1) g(1) Cons.prems(3)] by auto
  show ?case using Cons.IH [OF fan_exec_ok [OF Cons.prems(1) g(1)] g(2) s(1)] s(2) g(1)
    by (auto simp: client_step_def split: if_splits)
qed simp

lemma fan_run_queue:
  "hub_ok h \<Longrightarrow> fan_run evs h = Inr h' \<Longrightarrow> u \<noteq> '''' \<Longrightarrow>
   queued u (hb_broadcast h) @ during (taken u) evs h = during (handed u) evs h @ queued u (hb_broadcast h')"
proof (induction evs arbitrary: h)
  case (Cons ev evs)
  from Cons.prems obtain g where g: "fan_exec ev h = Inr g" "fan_run evs g = Inr h'" by (auto split: sum.splits)
  from Cons.IH [OF fan_exec_ok [OF Cons.prems(1) g(1)] g(2) Cons.prems(3)] fan_exec_queue [OF Cons.prems(1) g(1) Cons.prems(3)] g(1)
  show ?case by simp (metis append_assoc)
qed simp

text \<open>A writer with a working socket empties the channel.\<close>

lemma drain:
  assumes "i < length (hb_clients h)" and "cl_writing (client_of h i)" and "cl_conn (client_of h i)" and "cl_send (client_of h i) = ms"
  shows "\<exists>h'. fan_run (replicate (length ms) (Write i True)) h = Inr h' \<and> hb_broadcast h' = hb_broadcast h \<and> cl_send (client_of h' i) = []
    \<and> texts (cl_frames (client_of h' i)) = texts (cl_frames (client_of h i)) @ ms"
  using assms
proof (induction ms arbitrary: h)
  case (Cons m ms)
  let ?h = "set_client i (writePump True (client_of h i)) h"
  have "cl_send (client_of ?h i) = ms" "texts (cl_frames (client_of ?h i)) = texts (cl_frames (client_of h i)) @ [m]"
    "cl_writing (client_of ?h i)" "cl_conn (client_of ?h i)" "i < length (hb_clients ?h)"
    using Cons.prems by (simp_all add: writePump_def)
  from Cons.IH [OF this(5,3,4,1)] this(2) Cons.prems show ?case by simp
qed simp

section \<open>Delivery\<close>

text \<open>C33. The events of a user reach an open connection completely and in order. Take any reachable hub, a connection on it
  and any further events of the service, with the socket failing or not as it likes. What the connection was given (written to the
  socket, in its channel, or lost in the one write that failed) followed by what the hub still has queued for the user is what
  it was given and queued before, followed by the events of exactly this user that the subscriber took from Redis meanwhile,
  as long as its channel is open; after the channel was closed it is an initial part of that. A writer whose socket
  works gets all of it written.\<close>

theorem events_delivered_in_order:
  assumes "fan_run evs0 NewHub = Inr h" and "i < length (hb_clients h)" and "fan_run evs h = Inr h'" and "u = cl_username (client_of h i)"
  shows "prefix (given (client_of h' i)) (given (client_of h i) @ queued u (hb_broadcast h) @ during (taken u) evs h)
    \<and> (\<not> cl_closed (client_of h' i) \<longrightarrow> given (client_of h' i) @ queued u (hb_broadcast h') = given (client_of h i) @ queued u (hb_broadcast h) @ during (taken u) evs h)
    \<and> (cl_writing (client_of h' i) \<and> cl_conn (client_of h' i) \<longrightarrow> (\<exists>h''. fan_run (replicate (length (cl_send (client_of h' i))) (Write i True)) h' = Inr h''
          \<and> texts (cl_frames (client_of h'' i)) = given (client_of h' i)))"
proof -
  have ok: "hub_ok h" by (rule fan_run_ok [OF NewHub_ok assms(1)])
  have ok': "hub_ok h'" by (rule fan_run_ok [OF ok assms(3)])
  note c = fan_run_client [OF ok assms(3,2)]
  then have i': "i < length (hb_clients h')" by simp
  have "u \<noteq> ''''" using hub_ok_client [OF ok assms(2)] assms(4) by (simp add: client_ok_def)
  note q = fan_run_queue [OF ok assms(3) this]
  show ?thesis
  proof (intro conjI impI)
    show "prefix (given (client_of h' i)) (given (client_of h i) @ queued u (hb_broadcast h) @ during (taken u) evs h)"
      unfolding q using c assms(4) by (simp add: append_assoc [symmetric] del: append_assoc)
    show "given (client_of h' i) @ queued u (hb_broadcast h') = given (client_of h i) @ queued u (hb_broadcast h) @ during (taken u) evs h"
      if "\<not> cl_closed (client_of h' i)" unfolding q using c assms(4) that by simp
    assume w: "cl_writing (client_of h' i) \<and> cl_conn (client_of h' i)"
    then have "cl_lost (client_of h' i) = []" using hub_ok_client [OF ok' i'] by (simp add: client_ok_def)
    with drain [OF i', of "cl_send (client_of h' i)"] w
    show "\<exists>h''. fan_run (replicate (length (cl_send (client_of h' i))) (Write i True)) h' = Inr h'' \<and> texts (cl_frames (client_of h'' i)) = given (client_of h' i)"
      by (auto simp: given_def)
  qed
qed

theorem events_delivered_in_order_witness:
  "\<exists>h. fan_run [Browser ''ann'' True] NewHub = Inr h
    \<and> (\<exists>h'. fan_run [Published ''workflow:events:ann'' ''x'', Published ''workflow:events:bob'' ''z'', Dispatch, Published ''workflow:events:ann'' ''y'',
          Write 0 True, Dispatch] h = Inr h'
        \<and> prefix (given (client_of h' 0)) [''x'', ''y''] \<and> given (client_of h' 0) @ queued ''ann'' (hb_broadcast h') = [''x'', ''y''])"
proof -
  let ?evs = "[Published ''workflow:events:ann'' ''x'', Published ''workflow:events:bob'' ''z'', Dispatch, Published ''workflow:events:ann'' ''y'', Write 0 True, Dispatch]"
  define h where "h = (case fan_run [Browser ''ann'' True] NewHub of Inr g \<Rightarrow> g | Inl _ \<Rightarrow> NewHub)"
  define h' where "h' = (case fan_run ?evs h of Inr g \<Rightarrow> g | Inl _ \<Rightarrow> h)"
  have 1: "fan_run [Browser ''ann'' True] NewHub = Inr h" unfolding h_def by code_simp
  have 2: "fan_run ?evs h = Inr h'" unfolding h'_def h_def by code_simp
  have 3: "0 < length (hb_clients h)" "''ann'' = cl_username (client_of h 0)" "given (client_of h 0) = []" "queued ''ann'' (hb_broadcast h) = []"
    "during (taken ''ann'') ?evs h = [''x'', ''y'']" unfolding h_def by code_simp+
  have 4: "\<not> cl_closed (client_of h' 0)" unfolding h'_def h_def by code_simp
  from events_delivered_in_order [OF 1 3(1) 2 3(2)] 3 4 1 2 show ?thesis by (intro exI [of _ h] exI [of _ h'] conjI) simp_all
qed

text \<open>The channel of an event names its user. The services publish the events of a user on the channel
  \<open>workflow:events:\<close> followed by the user name; the subscriber recovers exactly that name, unless it contains a colon or
  is empty, and then drops the event.\<close>

theorem event_channel_names_user:
  "extractUsernameFromChannel (''workflow:events:'' @ u) = (if CHR '':'' \<in> set u then '''' else u)"
proof -
  have "split_on (CHR '':'') (''workflow:events:'' @ u) = ''workflow'' # ''events'' # split_on (CHR '':'') u"
    using split_on_append [of "CHR '':''" "''workflow''" "''events:'' @ u"] split_on_append [of "CHR '':''" "''events''" u] by simp
  moreover have "length (split_on c s) = Suc (count_list s c)" for c s
    by (induction s) (auto split: list.splits)
  moreover have "count_list u c = 0 \<longleftrightarrow> c \<notin> set u" for c by (simp add: count_list_0_iff)
  ultimately show ?thesis by (auto simp: extractUsernameFromChannel_def split_on_none)
qed

section \<open>Slow connections\<close>

lemma overflowed_iff: "hub_ok h \<Longrightarrow> overflowed h i \<longleftrightarrow> i < length (hb_clients h) \<and> cl_reading (client_of h i) \<and> cl_closed (client_of h i)"
  by (auto simp: overflowed_def registered_iff)

lemma crash_overflowed:
  assumes "hub_ok h" and "fan_exec ev h = Inl x"
  shows "\<exists>i. overflowed h i"
proof (cases ev)
  case Dispatch
  then obtain m ms where m: "hb_broadcast h = m # ms" using assms(2) by (auto split: list.splits)
  show ?thesis by (rule dispatch_cases [OF assms(1) m]) (use assms(2) Dispatch in auto)
next
  case (ReadEnd i)
  then have "i < length (hb_clients h)" "cl_reading (client_of h i)" using assms(2) by (auto simp: readPump_end_def split: if_splits)
  with readPump_end_ok [OF assms(1) this] assms ReadEnd show ?thesis by (auto simp: overflowed_iff)
qed (use assms in auto)

lemma overflow_origin:
  assumes "hub_ok h" and "fan_exec ev h = Inr h'" and "overflowed h' i" and "\<not> overflowed h i"
  shows "ev = Dispatch \<and> i < length (hb_clients h) \<and> length (cl_send (client_of h i)) = send_capacity \<and> handed (cl_username (client_of h i)) ev h \<noteq> []"
proof -
  have o: "i < length (hb_clients h')" "cl_reading (client_of h' i)" "cl_closed (client_of h' i)"
    using assms(3) overflowed_iff [OF fan_exec_ok [OF assms(1,2)]] by auto
  show ?thesis
  proof (cases "i < length (hb_clients h)")
    case True
    have s: "client_step i ev h (client_of h i) (client_of h' i)" using fan_exec_client [OF assms(1,2) True] by simp
    have nc: "\<not> cl_closed (client_of h i)" using assms(4) True o s by (auto simp: overflowed_iff [OF assms(1)] client_step_def)
    then have d: "ev = Dispatch" "length (cl_send (client_of h i)) = send_capacity" using s o by (auto simp: client_step_def)
    show ?thesis
    proof (cases "hb_broadcast h")
      case Nil
      then show ?thesis using assms(2) d o nc by simp
    next
      case (Cons m ms)
      show ?thesis
      proof (rule dispatch_cases [OF assms(1) Cons])
        fix g assume "fan_exec Dispatch h = Inr g" "\<And>j. j < length (hb_clients h) \<Longrightarrow> client_of g j =
          (if cl_reading (client_of h j) \<and> cl_username (client_of h j) = ms_Username m then push (ms_Data m) (client_of h j) else client_of h j)"
        then show ?thesis using assms(2) d o nc True Cons by (auto simp: handed_def queued_def split: if_splits)
      qed (use assms(2) d in simp)
    qed
  next
    case False
    have "\<exists>u. client_of h' i = NewClient u"
    proof (cases ev)
      case (Browser u b)
      then show ?thesis using assms(2) o(1) False
        by (auto simp: HandleWebSocket_def registerClient_def client_of_def nth_append less_Suc_eq split: if_splits)
    next
      case Dispatch
      show ?thesis
      proof (cases "hb_broadcast h")
        case (Cons m ms)
        show ?thesis by (rule dispatch_cases [OF assms(1) Cons]) (use assms(2) Dispatch False o in auto)
      qed (use assms(2) Dispatch False o in auto)
    next
      case (ReadEnd k)
      then show ?thesis using assms(2) False o readPump_end_ok [OF assms(1), of k] ReadEnd_cases [OF assms(1), of k]
        by (cases "cl_closed (client_of h k)") (auto simp: readPump_end_def split: if_splits)
    qed (use assms(2) False o in \<open>auto simp: subscriber_forward_def readPump_close_def Let_def split: if_splits\<close>)
    then show ?thesis using o(3) by (auto simp: NewClient_def)
  qed
qed

lemma overflow_stays:
  assumes "hub_ok h" and "overflowed h i" and "fan_run evs h = Inr h'"
  shows "overflowed h' i \<and> ReadEnd i \<notin> set evs \<and> during (handed (cl_username (client_of h i))) evs h = []"
  using assms
proof (induction evs arbitrary: h)
  case (Cons ev evs)
  from Cons.prems obtain g where g: "fan_exec ev h = Inr g" "fan_run evs g = Inr h'" by (auto split: sum.splits)
  have i: "i < length (hb_clients h)" "cl_reading (client_of h i)" "cl_closed (client_of h i)" using Cons.prems overflowed_iff by auto
  have s: "i < length (hb_clients g)" "client_step i ev h (client_of h i) (client_of g i)" using fan_exec_client [OF Cons.prems(1) g(1) i(1)] by auto
  have og: "overflowed g i" using s i by (auto simp: overflowed_iff [OF fan_exec_ok [OF Cons.prems(1) g(1)]] client_step_def)
  show ?case using Cons.IH [OF fan_exec_ok [OF Cons.prems(1) g(1)] og g(2)] s(2) i g(1)
    by (auto simp: client_step_def)
qed simp

text \<open>C34. A connection that overflows ends the service. In a reachable state the service panics only if a connection is still
  registered with its channel closed; that comes about only when the hub hands an event to a connection with a full channel,
  which it closes but leaves in its table; and from then on the service can neither hand another event to that user nor
  notice that the connection ended: each of the two panics.\<close>

theorem overflow_ends_service:
  assumes "fan_run evs0 NewHub = Inr h"
  shows "(fan_exec ev h = Inl x \<longrightarrow> (\<exists>i. overflowed h i))
    \<and> (fan_exec ev h = Inr h' \<and> overflowed h' i \<and> \<not> overflowed h i \<longrightarrow>
        ev = Dispatch \<and> length (cl_send (client_of h i)) = send_capacity \<and> handed (cl_username (client_of h i)) ev h \<noteq> [])
    \<and> (overflowed h i \<and> (ReadEnd i \<in> set evs \<or> during (handed (cl_username (client_of h i))) evs h \<noteq> []) \<longrightarrow> (\<exists>y. fan_run evs h = Inl y))"
proof -
  have ok: "hub_ok h" by (rule fan_run_ok [OF NewHub_ok assms])
  show ?thesis
  proof (intro conjI impI)
    assume "overflowed h i \<and> (ReadEnd i \<in> set evs \<or> during (handed (cl_username (client_of h i))) evs h \<noteq> [])"
    then show "\<exists>y. fan_run evs h = Inl y" using overflow_stays [OF ok, of i evs] by (cases "fan_run evs h") auto
  qed (use crash_overflowed [OF ok] overflow_origin [OF ok] in auto)
qed

text \<open>A connection that is never written, after \<open>n\<close> events.\<close>

lemma fan_run_append: "fan_run (xs @ ys) h = (case fan_run xs h of Inl x \<Rightarrow> Inl x | Inr g \<Rightarrow> fan_run ys g)"
  by (induction xs arbitrary: h) (auto split: sum.splits)

definition lazy_hub :: "nat \<Rightarrow> hub" where
  "lazy_hub n = \<lparr>hb_connections = [(''ann'', [0])], hb_broadcast = [], hb_clients = [(NewClient ''ann'')\<lparr>cl_send := replicate n ''e''\<rparr>]\<rparr>"

lemma lazy_hub_run:
  "n \<le> send_capacity \<Longrightarrow> fan_run (Browser ''ann'' True # concat (replicate n [Published ''workflow:events:ann'' ''e'', Dispatch])) NewHub = Inr (lazy_hub n)"
proof (induction n)
  case 0
  show ?case by code_simp
next
  case (Suc n)
  have x: "extractUsernameFromChannel ''workflow:events:ann'' = ''ann''" by code_simp
  have "fan_run [Published ''workflow:events:ann'' ''e'', Dispatch] (lazy_hub n) = Inr (lazy_hub (Suc n))"
    using Suc.prems x by (simp add: subscriber_forward_def Let_def broadcast_capacity_def lazy_hub_def broadcastToUsername_def mslice_def
        client_of_def set_client_def try_send_def NewClient_def replicate_append_same)
  moreover have "concat (replicate (Suc n) [Published ''workflow:events:ann'' ''e'', Dispatch]) =
      concat (replicate n [Published ''workflow:events:ann'' ''e'', Dispatch]) @ [Published ''workflow:events:ann'' ''e'', Dispatch]"
    by (simp flip: replicate_append_same)
  ultimately show ?case using Suc.IH Suc.prems by (simp only: append_Cons [symmetric] fan_run_append) simp
qed

theorem overflow_ends_service_witness:
  "\<exists>evs h y. fan_run evs NewHub = Inr h \<and> overflowed h 0 \<and> fan_run [ReadEnd 0] h = Inl y"
proof -
  define evs where "evs = (Browser ''ann'' True # concat (replicate 512 [Published ''workflow:events:ann'' ''e'', Dispatch])) @
    [Published ''workflow:events:ann'' ''e'', Dispatch]"
  define h where "h = (lazy_hub 512)\<lparr>hb_clients := [(NewClient ''ann'')\<lparr>cl_send := replicate 512 ''e'', cl_closed := True\<rparr>]\<rparr>"
  have x: "extractUsernameFromChannel ''workflow:events:ann'' = ''ann''" by code_simp
  have "fan_run (Browser ''ann'' True # concat (replicate 512 [Published ''workflow:events:ann'' ''e'', Dispatch])) NewHub = Inr (lazy_hub 512)"
    by (rule lazy_hub_run) (simp add: send_capacity_def)
  then have 1: "fan_run evs NewHub = Inr h" unfolding evs_def fan_run_append h_def
    using x by (simp add: subscriber_forward_def Let_def broadcast_capacity_def lazy_hub_def broadcastToUsername_def mslice_def
        client_of_def set_client_def try_send_def close_send_def NewClient_def send_capacity_def)
  have 2: "overflowed h 0" by (auto simp: overflowed_def registered_def h_def lazy_hub_def client_of_def NewClient_def mslice_def)
  from overflow_ends_service [OF 1, of Dispatch _ _ 0 "[ReadEnd 0]"] 2 obtain y where "fan_run [ReadEnd 0] h = Inl y" by auto
  with 1 2 show ?thesis by blast
qed

section \<open>The counts\<close>

text \<open>The hub counts the connections that live. In every reachable state the connection count is the number of
  clients whose reader runs and the user count is the number of different users among them; the channels
  hold at most 512 and 256 messages.\<close>

theorem hub_counts_exact:
  assumes "fan_run evs NewHub = Inr h"
  defines "live \<equiv> {i. i < length (hb_clients h) \<and> cl_reading (client_of h i)}"
  shows "GetConnectionCount h = card live \<and> GetUserCount h = card ((\<lambda>i. cl_username (client_of h i)) ` live)
    \<and> (i < length (hb_clients h) \<longrightarrow> length (cl_send (client_of h i)) \<le> 512) \<and> length (hb_broadcast h) \<le> 256"
proof -
  have ok: "hub_ok h" by (rule fan_run_ok [OF NewHub_ok assms(1)])
  let ?m = "hb_connections h"
  have d: "distinct (map fst ?m)" "\<And>u. distinct (mslice ?m u)" and ne: "\<forall>u. map_of ?m u \<noteq> Some []"
    using ok no_empty_value [of ?m "[]"] by (auto simp: hub_ok_def)
  have user: "(\<lambda>i. cl_username (client_of h i)) ` live = fst ` set ?m"
  proof (intro set_eqI iffI)
    fix u
    assume "u \<in> fst ` set ?m"
    then obtain xs where "map_of ?m u = Some xs" by (cases "map_of ?m u") (simp_all add: map_of_eq_None_iff)
    then obtain i where "i \<in> set (mslice ?m u)" using ne by (cases xs) (auto simp: mslice_def)
    then show "u \<in> (\<lambda>i. cl_username (client_of h i)) ` live" using hub_ok_slice [OF ok] by (auto simp: live_def)
  next
    fix u
    assume "u \<in> (\<lambda>i. cl_username (client_of h i)) ` live"
    then obtain i where "i \<in> set (mslice ?m u)" using hub_ok_slice [OF ok] by (auto simp: live_def)
    then obtain xs where "map_of ?m u = Some xs" by (cases "map_of ?m u") (simp_all add: mslice_def)
    then show "u \<in> fst ` set ?m" by (rule map_of_SomeD [THEN rev_image_eqI]) simp
  qed
  have "live = (\<Union>u \<in> fst ` set ?m. set (mslice ?m u))"
    unfolding user [symmetric] using hub_ok_slice [OF ok] by (auto simp: live_def)
  also have "card \<dots> = (\<Sum>u \<in> fst ` set ?m. card (set (mslice ?m u)))"
    using hub_ok_slice [OF ok] by (intro card_UN_disjoint) auto
  also have "\<dots> = (\<Sum>u \<in> set (map fst ?m). length (mslice ?m u))" using d(2) by (simp add: distinct_card)
  also have "\<dots> = sum_list (map (\<lambda>u. length (mslice ?m u)) (map fst ?m))" by (rule sum.distinct_set_conv_list [OF d(1)])
  also have "\<dots> = GetConnectionCount h"
    unfolding GetConnectionCount_def using d(1) by (auto simp: mslice_def intro!: arg_cong [of _ _ sum_list])
  finally have "GetConnectionCount h = card live" ..
  moreover have "GetUserCount h = card (fst ` set ?m)"
    using d(1) distinct_card [of "map fst ?m"] by (simp add: GetUserCount_def)
  moreover have "length (cl_send (client_of h i)) \<le> 512" if "i < length (hb_clients h)" using hub_ok_client [OF ok that] by (simp add: client_ok_def send_capacity_def)
  ultimately show ?thesis using ok user by (simp add: hub_ok_def broadcast_capacity_def)
qed

theorem hub_counts_exact_witness:
  "\<exists>h. fan_run [Browser ''ann'' True, Browser ''bob'' True, Browser ''ann'' True, ReadEnd 1] NewHub = Inr h
     \<and> GetConnectionCount h = card {i. i < length (hb_clients h) \<and> cl_reading (client_of h i)} \<and> GetConnectionCount h = 2 \<and> GetUserCount h = 1"
proof -
  define h where "h = (case fan_run [Browser ''ann'' True, Browser ''bob'' True, Browser ''ann'' True, ReadEnd 1] NewHub of Inr g \<Rightarrow> g | Inl _ \<Rightarrow> NewHub)"
  have 1: "fan_run [Browser ''ann'' True, Browser ''bob'' True, Browser ''ann'' True, ReadEnd 1] NewHub = Inr h" unfolding h_def by code_simp
  have 2: "GetConnectionCount h = 2" "GetUserCount h = 1" unfolding h_def by code_simp+
  from hub_counts_exact [OF 1] 1 2 show ?thesis by (intro exI [of _ h] conjI) simp_all
qed

end
