(* ===== verification/Run_Patches.thy ===== *)
theory Run_Patches
  imports Version_History
begin

text \<open>
  Runs and the patches made during a run: the tables \<open>run\<close> and \<open>run_patches\<close> with their repositories
  (\<open>common/repository/run.go\<close>, \<open>common/repository/run_patch.go\<close>, \<open>common/models/run.go\<close>,
  \<open>common/models/run_patch.go\<close>) and the service \<open>cmd/orchestrator/service/run_patch.go\<close>.

  Times in these tables are seconds since 1970. The table \<open>run\<close> is partitioned by the time of submission and has
  partitions for the years 2024 and 2025 only; a row outside them is refused. \<open>uuid.Parse\<close> is a parameter: it
  returns the canonical text of the id or an error.

  The lemmas show that the patches of a run are numbered without gaps, also when requests overlap, that they
  read back in the order in which they were made, and that they leave every workflow as it is.
\<close>

section \<open>The run table\<close>

definition StatusQueued :: string where "StatusQueued = ''QUEUED''"
definition StatusRunning :: string where "StatusRunning = ''RUNNING''"
definition StatusWaitingForApproval :: string where "StatusWaitingForApproval = ''WAITING_FOR_APPROVAL''"
definition StatusCompleted :: string where "StatusCompleted = ''COMPLETED''"
definition StatusFailed :: string where "StatusFailed = ''FAILED''"
definition StatusCancelled :: string where "StatusCancelled = ''CANCELLED''"

definition GetDefaultNodeStatus :: "run \<Rightarrow> string" where
  "GetDefaultNodeStatus r = (if rn_status r = StatusCompleted then ''completed'' else if rn_status r = StatusFailed then ''failed''
     else if rn_status r = StatusRunning then ''running'' else ''pending'')"

definition allowed_status :: "string \<Rightarrow> bool" where
  "allowed_status s \<longleftrightarrow> s \<in> {''QUEUED'', ''RUNNING'', ''COMPLETED'', ''FAILED'', ''CANCELLED''}"

definition first_partition :: int where "first_partition = 1704067200"
definition last_partition :: int where "last_partition = 1767225600"

definition run_violation :: "db \<Rightarrow> run \<Rightarrow> string option" where
  "run_violation d r =
    (if rn_base_kind r \<notin> {''tag'', ''dag_version'', ''patch_set''} then Some ''run_base_kind_check''
     else if \<not> allowed_status (rn_status r) then Some ''run_status_check''
     else if rn_submitted_at r < first_partition \<or> last_partition \<le> rn_submitted_at r then Some ''no partition of relation run found for row''
     else if \<exists>x \<in> set (d_run_rows d). rn_id x = rn_id r \<and> rn_submitted_at x = rn_submitted_at r then Some ''run_pkey''
     else None)"

definition run_Create :: "dbenv \<Rightarrow> run \<Rightarrow> unit res dbio" where
  "run_Create e r = check
     (query e (\<lambda>d. case run_violation d r of Some c \<Rightarrow> Inl (db_text e c) | None \<Rightarrow> Inr ((), d\<lparr>d_run_rows := d_run_rows d @ [r]\<rparr>)))
     ''failed to create run: '' ok"

text \<open>The key of the table includes the time of submission, so that an id alone may find several rows: the first one the
  server returns is taken.\<close>

definition run_GetByID :: "dbenv \<Rightarrow> string \<Rightarrow> run res dbio" where
  "run_GetByID e i = check (select_one e (\<lambda>d. any_row e d (filter (\<lambda>r. rn_id r = i) (d_run_rows d)))) ''failed to get run: '' ok"

definition run_UpdateStatus :: "dbenv \<Rightarrow> string \<Rightarrow> string \<Rightarrow> unit res dbio" where
  "run_UpdateStatus e i status = check
     (query e (\<lambda>d. if (\<exists>r \<in> set (d_run_rows d). rn_id r = i) \<and> \<not> allowed_status status then Inl (db_text e ''run_status_check'')
        else Inr ((), d\<lparr>d_run_rows := map (\<lambda>r. if rn_id r = i then r\<lparr>rn_status := status\<rparr> else r) (d_run_rows d)\<rparr>)))
     ''failed to update run status: '' ok"

definition run_ListByUser :: "dbenv \<Rightarrow> string \<Rightarrow> int \<Rightarrow> run list res dbio" where
  "run_ListByUser e username limit = check
     (select_limit e limit (\<lambda>d. sort_key (\<lambda>r. - rn_submitted_at r) (filter (\<lambda>r. rn_submitted_by r = Some username) (d_run_rows d))))
     ''failed to list runs: '' ok"

definition run_ListByWorkflowTag :: "dbenv \<Rightarrow> string \<Rightarrow> int \<Rightarrow> run list res dbio" where
  "run_ListByWorkflowTag e tag limit = check
     (select_limit e limit (\<lambda>d. sort_key (\<lambda>r. - rn_submitted_at r) (filter (\<lambda>r. map_of (rn_tags_snapshot r) tag \<noteq> None) (d_run_rows d))))
     ''failed to list runs by workflow tag: '' ok"

section \<open>The table of run patches\<close>

definition rp_violation :: "db \<Rightarrow> run_patch \<Rightarrow> string option" where
  "rp_violation d p =
    (if length (rp_run_id p) > 255 \<or> (case rp_node_id p of Some n \<Rightarrow> length n > 255 | None \<Rightarrow> False)
        \<or> (case rp_created_by p of Some n \<Rightarrow> length n > 255 | None \<Rightarrow> False) then Some ''value too long for type character varying(255)''
     else if \<exists>x \<in> set (d_run_patches d). rp_id x = rp_id p then Some ''run_patches_pkey''
     else if \<exists>x \<in> set (d_run_patches d). rp_run_id x = rp_run_id p \<and> rp_seq x = rp_seq p then Some ''run_patches_run_id_seq_key''
     else if find_artifact d (rp_artifact_id p) = None then Some ''run_patches_artifact_id_fkey''
     else None)"

text \<open>The column \<open>created_at\<close> gets its default, the time of the server.\<close>

definition rp_Create :: "dbenv \<Rightarrow> run_patch \<Rightarrow> unit res dbio" where
  "rp_Create e p = check
     (query e (\<lambda>d. case rp_violation d p of Some c \<Rightarrow> Inl (db_text e c)
        | None \<Rightarrow> Inr ((), d\<lparr>d_run_patches := d_run_patches d @ [p\<lparr>rp_created_at := db_now e (d_tick d)\<rparr>]\<rparr>)))
     ''failed to create run patch: '' ok"

definition patches_of :: "db \<Rightarrow> string \<Rightarrow> run_patch list" where
  "patches_of d run = sort_key rp_seq (filter (\<lambda>p. rp_run_id p = run) (d_run_patches d))"

definition rp_GetByRunID :: "dbenv \<Rightarrow> string \<Rightarrow> run_patch list res dbio" where
  "rp_GetByRunID e run = check (select e (\<lambda>d. patches_of d run)) ''failed to get run patches: '' ok"

record run_patch_details =
  rd_patch :: run_patch
  rd_cas_id :: string
  rd_op_count :: "int option"
  rd_depth :: int

text \<open>The depth is scanned into an int, so that a NULL there is an error.\<close>

definition rp_details :: "db \<Rightarrow> string \<Rightarrow> run_patch_details option list" where
  "rp_details d run = List.map_filter (\<lambda>p. case find_artifact d (rp_artifact_id p) of None \<Rightarrow> None
     | Some a \<Rightarrow> Some (map_option (\<lambda>k. \<lparr>rd_patch = p, rd_cas_id = ar_cas_id a, rd_op_count = ar_op_count a, rd_depth = k\<rparr>) (ar_depth a)))
     (patches_of d run)"

definition rp_GetByRunIDWithDetails :: "dbenv \<Rightarrow> string \<Rightarrow> run_patch_details list res dbio" where
  "rp_GetByRunIDWithDetails e run = check (select e (\<lambda>d. rp_details d run)) ''failed to get run patches with details: '' (\<lambda>rs.
     if None \<in> set rs then fail (''failed to scan run patch with details: '' @ db_text e ''depth'') else ok (map the rs))"

definition rp_GetNextSeq :: "dbenv \<Rightarrow> string \<Rightarrow> int res dbio" where
  "rp_GetNextSeq e run = check
     (select e (\<lambda>d. (case filter (\<lambda>p. rp_run_id p = run) (d_run_patches d) of [] \<Rightarrow> 0 | p # ps \<Rightarrow> Max (set (map rp_seq (p # ps)))) + 1))
     ''failed to get next sequence: '' ok"

text \<open>The driver's error for no row is not \<open>sql.ErrNoRows\<close>, so the branch that returns no patch and no error is not taken.\<close>

definition rp_GetByID :: "dbenv \<Rightarrow> string \<Rightarrow> run_patch option res dbio" where
  "rp_GetByID e i = check (select_one e (\<lambda>d. find (\<lambda>p. rp_id p = i) (d_run_patches d))) ''failed to get run patch: '' (\<lambda>p. ok (Some p))"

definition rp_DeleteByRunID :: "dbenv \<Rightarrow> string \<Rightarrow> unit res dbio" where
  "rp_DeleteByRunID e run = check
     (query e (\<lambda>d. Inr ((), d\<lparr>d_run_patches := filter (\<lambda>p. rp_run_id p \<noteq> run) (d_run_patches d)\<rparr>)))
     ''failed to delete run patches: '' ok"

definition rp_CountByRunID :: "dbenv \<Rightarrow> string \<Rightarrow> nat res dbio" where
  "rp_CountByRunID e run = check (select e (\<lambda>d. length (filter (\<lambda>p. rp_run_id p = run) (d_run_patches d)))) ''failed to count run patches: '' ok"

section \<open>The service\<close>

record create_run_patch_request =
  cq_run_id :: string
  cq_node_id :: string
  cq_operations :: "gval smap list"
  cq_description :: string
  cq_created_by :: string

record create_run_patch_response =
  cp_id :: string
  cp_run_id :: string
  cp_artifact_id :: string
  cp_cas_id :: string
  cp_seq :: int
  cp_op_count :: int
  cp_description :: string
  cp_created_by :: string

text \<open>The artifact of a run patch has the zero time: the service does not set \<open>CreatedAt\<close>.\<close>

definition zero_time :: int where "zero_time = - 62135596800"

definition run_patch_text :: "dbenv \<Rightarrow> create_run_patch_request \<Rightarrow> string" where
  "run_patch_text e req = marshal e (GObj [(''operations'', GArr (map GObj (cq_operations req)))])"

definition run_patch_artifact :: "create_run_patch_request \<Rightarrow> string \<Rightarrow> string \<Rightarrow> string \<Rightarrow> int \<Rightarrow> artifact" where
  "run_patch_artifact req i casID base seq =
     (new_artifact i KindPatchSet casID (if cq_created_by req = '''' then ''system'' else cq_created_by req) zero_time)
       \<lparr>ar_base_version := Some base, ar_depth := Some seq, ar_op_count := Some (int (length (cq_operations req))),
        ar_meta := (if cq_description req = '''' then [] else [(''description'', GStr (cq_description req))]) @ [(''run_id'', GStr (cq_run_id req))]\<rparr>"

definition run_patch_row :: "create_run_patch_request \<Rightarrow> string \<Rightarrow> string \<Rightarrow> int \<Rightarrow> run_patch" where
  "run_patch_row req i a seq = \<lparr>rp_id = i, rp_run_id = cq_run_id req, rp_artifact_id = a, rp_seq = seq,
     rp_node_id = (if cq_node_id req = '''' then None else Some (cq_node_id req)), rp_description = Some (cq_description req),
     rp_created_at = 0, rp_created_by = Some (cq_created_by req)\<rparr>"

text \<open>The part after the content was stored: the artifact and the row.\<close>

definition finish_run_patch :: "dbenv \<Rightarrow> create_run_patch_request \<Rightarrow> string \<Rightarrow> int \<Rightarrow> string \<Rightarrow> create_run_patch_response res dbio" where
  "finish_run_patch e req base seq casID = State_Monad.bind (reading (db_uuid e)) (\<lambda>i.
     check (art_Create e (run_patch_artifact req i casID base seq)) ''failed to create artifact: '' (\<lambda>_.
     State_Monad.bind (reading (db_uuid e)) (\<lambda>j.
     check (rp_Create e (run_patch_row req j i seq)) ''failed to create run patch: '' (\<lambda>_.
       ok \<lparr>cp_id = j, cp_run_id = cq_run_id req, cp_artifact_id = i, cp_cas_id = casID, cp_seq = seq,
            cp_op_count = int (length (cq_operations req)), cp_description = cq_description req, cp_created_by = cq_created_by req\<rparr>))))"

definition CreateRunPatch :: "(string \<Rightarrow> string res) \<Rightarrow> dbenv \<Rightarrow> create_run_patch_request \<Rightarrow> create_run_patch_response res dbio" where
  "CreateRunPatch parse e req =
    (if cq_operations req = [] then fail ''operations cannot be empty''
     else case parse (cq_run_id req) of Inl x \<Rightarrow> fail (''invalid run_id format: '' @ x)
     | Inr runID \<Rightarrow> check (run_GetByID e runID) ''failed to get run: '' (\<lambda>run.
       case parse (rn_base_ref run) of Inl x \<Rightarrow> fail (''invalid base_ref in run: '' @ x)
       | Inr base \<Rightarrow> check (rp_GetNextSeq e (cq_run_id req)) ''failed to get next sequence: '' (\<lambda>seq.
         check (StoreContent e (run_patch_text e req) ''application/json;type=patch'') ''failed to store patch in CAS: ''
           (finish_run_patch e req base seq))))"

definition GetRunPatches :: "dbenv \<Rightarrow> string \<Rightarrow> run_patch_details list res dbio" where
  "GetRunPatches e run = check (rp_GetByRunIDWithDetails e run) ''failed to get run patches: '' ok"

text \<open>Decoding \<open>{"operations": [...]}\<close> into a slice of maps; null elements become nil maps, which are empty.\<close>

fun to_maps :: "gval list \<Rightarrow> gval smap list res" where
  "to_maps [] = Inr []"
| "to_maps (v # vs) = (case to_map v of Inl x \<Rightarrow> Inl x | Inr m \<Rightarrow> (case to_maps vs of Inl x \<Rightarrow> Inl x | Inr ms \<Rightarrow> Inr (m # ms)))"

definition operations_of :: "dbenv \<Rightarrow> string \<Rightarrow> gval smap list res" where
  "operations_of e text = (case unmarshal_map e text of Inl x \<Rightarrow> Inl x
     | Inr m \<Rightarrow> (case mget m ''operations'' of GNil \<Rightarrow> Inr [] | GArr vs \<Rightarrow> to_maps vs
         | _ \<Rightarrow> Inl ''json: cannot unmarshal operations''))"

definition service_GetPatchOperations :: "dbenv \<Rightarrow> string \<Rightarrow> gval smap list res dbio" where
  "service_GetPatchOperations e casID = check (GetContent e casID) ''failed to get patch from CAS: '' (\<lambda>text.
     State_Monad.return (case operations_of e text of Inl x \<Rightarrow> Inl (''failed to unmarshal patch data: '' @ x) | Inr ops \<Rightarrow> Inr ops))"

record patch_with_operations =
  po_seq :: int
  po_node_id :: "string option"
  po_operations :: "gval smap list"
  po_description :: string

primrec load_all :: "dbenv \<Rightarrow> string list \<Rightarrow> gval smap list smap \<Rightarrow> gval smap list smap dbio" where
  "load_all e [] m = State_Monad.return m"
| "load_all e (casID # rest) m = State_Monad.bind (service_GetPatchOperations e casID) (\<lambda>r.
     load_all e rest (AList.update casID (case r of Inl _ \<Rightarrow> [] | Inr ops \<Rightarrow> ops) m))"

definition service_GetRunPatchesWithOperations :: "dbenv \<Rightarrow> string \<Rightarrow> patch_with_operations list res dbio" where
  "service_GetRunPatchesWithOperations e run =
     check (rp_GetByRunIDWithDetails e run) ''failed to get run patches: '' (\<lambda>ps.
     if ps = [] then ok []
     else State_Monad.bind (load_all e (map rd_cas_id ps) []) (\<lambda>m.
       ok (map (\<lambda>p. \<lparr>po_seq = rp_seq (rd_patch p), po_node_id = rp_node_id (rd_patch p),
          po_operations = (case map_of m (rd_cas_id p) of None \<Rightarrow> [] | Some ops \<Rightarrow> ops),
          po_description = or_empty (rp_description (rd_patch p))\<rparr>) ps)))"

section \<open>Numbers of patches\<close>

definition seqs :: "db \<Rightarrow> string \<Rightarrow> int list" where
  "seqs d run = map rp_seq (filter (\<lambda>p. rp_run_id p = run) (d_run_patches d))"

text \<open>The patches of a run are numbered 1, 2, 3, ... in the order in which they were inserted.\<close>

definition numbered :: "db \<Rightarrow> bool" where
  "numbered d \<longleftrightarrow> (\<forall>run. seqs d run = map int [1 ..< Suc (length (seqs d run))])"

lemma numbered_cong: "d_run_patches d' = d_run_patches d \<Longrightarrow> numbered d' = numbered d"
  by (simp add: numbered_def seqs_def)

lemma patches_of_numbered:
  assumes "numbered d"
  shows "patches_of d run = filter (\<lambda>p. rp_run_id p = run) (d_run_patches d)"
proof -
  have "seqs d run = map int [1 ..< Suc (length (seqs d run))]" using assms unfolding numbered_def by blast
  then have "sorted (seqs d run) = sorted (map int [1 ..< Suc (length (seqs d run))])" by (rule arg_cong)
  then have "sorted (seqs d run)" by (simp add: sorted_map del: upt_Suc)
  then show ?thesis by (simp add: patches_of_def seqs_def sort_key_id_if_sorted)
qed

lemma run_GetNextSeq:
  assumes "numbered d" and "run_state (rp_GetNextSeq e run) d = (Inr s, d')"
  shows "s = int (length (seqs d run)) + 1 \<and> untick d' = untick d"
proof -
  have s: "s = (case filter (\<lambda>p. rp_run_id p = run) (d_run_patches d) of [] \<Rightarrow> 0 | p # ps \<Rightarrow> Max (set (map rp_seq (p # ps)))) + 1" and u: "untick d' = untick d"
    using assms(2) by (auto simp: rp_GetNextSeq_def run_check_ok select_def run_query split: option.splits)
  show ?thesis
  proof (cases "filter (\<lambda>p. rp_run_id p = run) (d_run_patches d)")
    case Nil
    then show ?thesis using s u by (simp add: seqs_def)
  next
    case (Cons p ps)
    then have m: "s = Max (set (seqs d run)) + 1" using s by (simp add: seqs_def)
    have "length (seqs d run) \<noteq> 0" using Cons by (simp add: seqs_def)
    moreover have "set (seqs d run) = int ` {1 .. length (seqs d run)}"
      using assms(1) unfolding numbered_def by (metis atLeastLessThanSuc_atLeastAtMost set_map set_upt)
    ultimately have "Max (set (seqs d run)) = int (length (seqs d run))"
      by (intro Max_eqI) (auto intro!: imageI simp: Suc_le_eq)
    then show ?thesis using m u by simp
  qed
qed

lemma rp_Create_run:
  assumes "run_state (rp_Create e p) d = (r, d')"
  shows "(\<exists>x. r = Inl x) \<and> untick d' = untick d
    \<or> r = Inr () \<and> rp_violation d p = None \<and> (\<exists>t. untick d' = untick (d\<lparr>d_run_patches := d_run_patches d @ [p\<lparr>rp_created_at := t\<rparr>]\<rparr>))"
  using assms by (auto simp: rp_Create_def run_check run_query untick_def split: option.splits prod.splits sum.splits)

lemma seqs_snoc: "d_run_patches d' = d_run_patches d @ [p] \<Longrightarrow> seqs d' run = seqs d run @ (if rp_run_id p = run then [rp_seq p] else [])"
  by (simp add: seqs_def)

lemma numbered_snoc:
  assumes "numbered d" and "d_run_patches d' = d_run_patches d @ [p]" and "rp_seq p = int (length (seqs d (rp_run_id p))) + 1"
  shows "numbered d'"
  unfolding numbered_def
proof
  fix run
  have "seqs d run = map int [1 ..< Suc (length (seqs d run))]" using assms(1) unfolding numbered_def by blast
  then show "seqs d' run = map int [1 ..< Suc (length (seqs d' run))]"
    using assms(3) unfolding seqs_snoc [OF assms(2)] by (cases "rp_run_id p = run") simp_all
qed

lemma insert_number:
  assumes "numbered d" and "rp_violation d p = None" and "1 \<le> rp_seq p" and "rp_seq p \<le> int (length (seqs d (rp_run_id p))) + 1"
  shows "rp_seq p = int (length (seqs d (rp_run_id p))) + 1"
proof (rule ccontr)
  let ?n = "length (seqs d (rp_run_id p))"
  assume "rp_seq p \<noteq> int ?n + 1"
  then have "rp_seq p \<in> int ` {1 .. ?n}" using assms(3,4) by (intro image_eqI [of _ _ "nat (rp_seq p)"]) auto
  moreover have "set (seqs d (rp_run_id p)) = int ` {1 .. ?n}"
    using assms(1) unfolding numbered_def by (metis atLeastLessThanSuc_atLeastAtMost set_map set_upt)
  ultimately have "rp_seq p \<in> set (seqs d (rp_run_id p))" by simp
  then have "\<exists>x \<in> set (d_run_patches d). rp_run_id x = rp_run_id p \<and> rp_seq x = rp_seq p" by (auto simp: seqs_def)
  then show False using assms(2) by (auto simp: rp_violation_def split: if_splits)
qed

text \<open>Requests that overlap: any of them may read the next number, any may try to insert a row with a number that some request read
  before, and anything else may happen to the other tables in between. A state is the database and the numbers read so far.\<close>

inductive patch_step :: "dbenv \<Rightarrow> db \<times> (string \<times> int) set \<Rightarrow> db \<times> (string \<times> int) set \<Rightarrow> bool" for e where
  read: "run_state (rp_GetNextSeq e run) d = (Inr s, d') \<Longrightarrow> patch_step e (d, R) (d', insert (run, s) R)"
| put: "run_state (rp_Create e p) d = (r, d') \<Longrightarrow> (rp_run_id p, rp_seq p) \<in> R \<Longrightarrow> patch_step e (d, R) (d', R)"
| other: "d_run_patches d' = d_run_patches d \<Longrightarrow> patch_step e (d, R) (d', R)"

inductive_cases patch_stepE: "patch_step e (d, R) y"

definition reserved_ok :: "db \<times> (string \<times> int) set \<Rightarrow> bool" where
  "reserved_ok = (\<lambda>(d, R). numbered d \<and> (\<forall>(run, s) \<in> R. 1 \<le> s \<and> s \<le> int (length (seqs d run)) + 1))"

lemma reserved_ok_cong: "d_run_patches d' = d_run_patches d \<Longrightarrow> reserved_ok (d', R) = reserved_ok (d, R)"
  by (simp add: reserved_ok_def numbered_def seqs_def)

lemma patch_step_ok: "patch_step e x y \<Longrightarrow> reserved_ok x \<Longrightarrow> reserved_ok y"
proof (induction rule: patch_step.induct)
  case (read run d s d' R)
  then have n: "numbered d" by (simp add: reserved_ok_def)
  note s = run_GetNextSeq [OF n read.hyps]
  then have "d_run_patches d' = d_run_patches d" using untick_eq(6) by blast
  then have "reserved_ok (d', R)" using read.prems reserved_ok_cong by blast
  moreover have "seqs d' run = seqs d run" using \<open>d_run_patches d' = d_run_patches d\<close> by (simp add: seqs_def)
  ultimately show ?case using s by (auto simp: reserved_ok_def)
next
  case (put p d r d' R)
  from rp_Create_run [OF put.hyps(1)] show ?case
  proof (elim disjE conjE exE)
    assume "untick d' = untick d"
    then show ?thesis using put.prems reserved_ok_cong untick_eq(6) by blast
  next
    fix t
    assume v: "rp_violation d p = None" and u: "untick d' = untick (d\<lparr>d_run_patches := d_run_patches d @ [p\<lparr>rp_created_at := t\<rparr>]\<rparr>)"
    have d': "d_run_patches d' = d_run_patches d @ [p\<lparr>rp_created_at := t\<rparr>]" using untick_eq(6) [OF u] by simp
    have n: "numbered d" and R: "\<forall>(run, s) \<in> R. 1 \<le> s \<and> s \<le> int (length (seqs d run)) + 1" using put.prems by (auto simp: reserved_ok_def)
    have q: "rp_seq p = int (length (seqs d (rp_run_id p))) + 1" by (rule insert_number [OF n v]) (use R put.hyps(2) in auto)
    have "numbered d'" by (rule numbered_snoc [OF n d']) (use q in simp)
    moreover have "length (seqs d run) \<le> length (seqs d' run)" for run by (simp add: seqs_snoc [OF d'])
    then have "s \<le> int (length (seqs d' run)) + 1" if "s \<le> int (length (seqs d run)) + 1" for run s
      using that by (meson add_right_mono of_nat_le_iff order_trans)
    ultimately show ?thesis using R by (auto simp: reserved_ok_def)
  qed
next
  case (other d' d R)
  then show ?case using reserved_ok_cong by blast
qed

text \<open>The patches of a run are numbered without gaps. Whatever requests overlap, each reading the next number and inserting its row later, the rows
  of every run are numbered 1, 2, 3, ... in the order of insertion; of several requests that read the same number at most one gets its row in.\<close>

theorem run_patches_numbered:
  assumes "(patch_step e)\<^sup>*\<^sup>* (empty_db, {}) (d, R)"
  shows "seqs d run = map int [1 ..< Suc (length (seqs d run))] \<and> distinct (seqs d run) \<and> map rp_seq (patches_of d run) = seqs d run"
proof -
  have r: "reserved_ok (d, R)" using assms
  proof (induction rule: rtranclp_induct2)
    case refl
    show ?case by (simp add: reserved_ok_def numbered_def seqs_def empty_db_def)
  next
    case (step d1 R1 d2 R2)
    then show ?case using patch_step_ok by blast
  qed
  then have n: "seqs d run = map int [1 ..< Suc (length (seqs d run))]" by (simp add: reserved_ok_def numbered_def)
  moreover have "distinct (seqs d run)" by (subst n) (simp add: distinct_map)
  moreover have "map rp_seq (patches_of d run) = seqs d run" using r by (simp add: patches_of_numbered seqs_def reserved_ok_def)
  ultimately show ?thesis by blast
qed

theorem run_patches_numbered_witness:
  "\<exists>d R. (patch_step sample_dbenv)\<^sup>*\<^sup>* (empty_db, {}) (d, R) \<and> seqs d ''r'' = [] \<and> map rp_seq (patches_of d ''r'') = seqs d ''r'' \<and> (''r'', 1) \<in> R"
proof -
  have "run_state (rp_GetNextSeq sample_dbenv ''r'') empty_db = (Inr 1, empty_db\<lparr>d_tick := 1\<rparr>)" by code_simp
  then have s: "(patch_step sample_dbenv)\<^sup>*\<^sup>* (empty_db, {}) (empty_db\<lparr>d_tick := 1\<rparr>, {(''r'', 1)})" using patch_step.read by (intro r_into_rtranclp) fastforce
  have "seqs (empty_db\<lparr>d_tick := 1\<rparr>) ''r'' = []" by code_simp
  with s run_patches_numbered [OF s, of "''r''"] show ?thesis by blast
qed

section \<open>The log of a run\<close>

text \<open>What a run was patched with: the texts of its patches in the order of their numbers.\<close>

definition patch_content :: "db \<Rightarrow> run_patch \<Rightarrow> string option" where
  "patch_content d p = Option.bind (find_artifact d (rp_artifact_id p)) (\<lambda>a. content_at d (ar_cas_id a))"

definition run_log :: "db \<Rightarrow> string \<Rightarrow> string option list" where
  "run_log d run = map (patch_content d) (patches_of d run)"

definition runs_ok :: "dbenv \<Rightarrow> db \<Rightarrow> bool" where
  "runs_ok e d \<longleftrightarrow> catalog_ok e d \<and> numbered d \<and> (\<forall>p \<in> set (d_run_patches d). \<exists>a. find_artifact d (rp_artifact_id p) = Some a \<and> ar_depth a \<noteq> None)"

definition quiet :: "dbenv \<Rightarrow> db \<Rightarrow> db \<Rightarrow> bool" where
  "quiet e d d' \<longleftrightarrow> extends e d d' \<and> d_run_patches d' = d_run_patches d"

lemma quiet_trans: "quiet e d d1 \<Longrightarrow> quiet e d1 d2 \<Longrightarrow> quiet e d d2"
  unfolding quiet_def using extends_trans by metis

lemma quiet_untick: "untick d' = untick d \<Longrightarrow> quiet e d d'"
  unfolding quiet_def by (intro conjI extends_untick untick_eq(6))

lemma quiet_reads: "reads m \<Longrightarrow> run_state m d = (r, d') \<Longrightarrow> quiet e d d'"
  by (rule quiet_untick) (rule readsD)

lemma quiet_StoreContent: "run_state (StoreContent e c m) d = (r, d') \<Longrightarrow> quiet e d d'"
  using extends_StoreContent [of e c m d r d'] StoreContent_cases [of e c m d r d'] untick_eq(6) [of "d'\<lparr>d_blobs := d_blobs d\<rparr>" d]
  by (simp add: quiet_def)

lemma quiet_art_Create:
  "run_state (art_Create e a) d = (r, d') \<Longrightarrow> ar_kind a = KindDAGVersion \<longrightarrow> ar_version_hash a = Some (ar_cas_id a) \<Longrightarrow> quiet e d d'"
  using extends_art_Create [of e a d r d'] art_Create_run [of e a d r d'] by (auto simp: quiet_def)

lemma patch_content_quiet:
  assumes "runs_ok e d" and "quiet e d d'" and "p \<in> set (d_run_patches d)"
  shows "patch_content d' p = patch_content d p"
proof -
  have g: "grows d d'" and ok: "catalog_ok e d" using assms by (auto simp: quiet_def extends_def runs_ok_def)
  obtain a where a: "find_artifact d (rp_artifact_id p) = Some a" using assms(1,3) by (auto simp: runs_ok_def)
  then have "a \<in> set (d_artifacts d)" using find_artifact_in by blast
  then show ?thesis using a find_artifact_grows [OF g a] content_same [OF ok g] by (simp add: patch_content_def)
qed

lemma quiet_keeps:
  assumes ok: "runs_ok e d" and q: "quiet e d d'"
  shows "runs_ok e d'" "run_log d' = run_log d" "versions d' = versions d" "seqs d' = seqs d"
proof -
  have x: "extends e d d'" "d_run_patches d' = d_run_patches d" using q by (auto simp: quiet_def)
  have c: "catalog_ok e d" using ok by (simp add: runs_ok_def)
  show "versions d' = versions d" using same_versions [OF c x(1)] by simp
  show "seqs d' = seqs d" by (simp add: fun_eq_iff seqs_def x(2))
  have "find_artifact d' i = Some a" if "find_artifact d i = Some a" for i a using that find_artifact_grows x(1) by (auto simp: extends_def)
  then show "runs_ok e d'" using ok same_versions(1) [OF c x(1)] numbered_cong [OF x(2)] x(2) unfolding runs_ok_def by metis
  have "patches_of d' = patches_of d" by (simp add: fun_eq_iff patches_of_def x(2))
  then show "run_log d' = run_log d"
    using patch_content_quiet [OF ok q] by (auto simp: run_log_def fun_eq_iff patches_of_def)
qed

lemma patches_of_snoc:
  assumes "numbered d" and "d_run_patches d' = d_run_patches d @ [p]" and "rp_seq p = int (length (seqs d (rp_run_id p))) + 1"
  shows "patches_of d' run = patches_of d run @ (if rp_run_id p = run then [p] else [])"
  using patches_of_numbered [OF assms(1)] patches_of_numbered [OF numbered_snoc [OF assms]] assms(2) by simp

lemma row_added:
  assumes ok: "runs_ok e d" and u: "untick d' = untick (d\<lparr>d_run_patches := d_run_patches d @ [p]\<rparr>)"
    and p: "rp_seq p = int (length (seqs d (rp_run_id p))) + 1" "find_artifact d (rp_artifact_id p) = Some a" "ar_depth a \<noteq> None"
  shows "runs_ok e d'" "run_log d' = (run_log d)(rp_run_id p := run_log d (rp_run_id p) @ [patch_content d p])" "versions d' = versions d"
proof -
  have t: "d_run_patches d' = d_run_patches d @ [p]" using untick_eq(6) [OF u] by simp
  have f: "find_artifact d' = find_artifact d" "content_at d' = content_at d"
    using untick_eq [OF u] by (simp_all add: fun_eq_iff find_artifact_def content_at_def find_blob_def)
  define d0 where "d0 = d\<lparr>d_run_patches := d_run_patches d @ [p]\<rparr>"
  have "grows d d0" by (simp add: grows_def d0_def)
  moreover have "find_artifact d0 = find_artifact d" "content_at d0 = content_at d" "chain_of d0 = chain_of d"
    by (simp_all add: fun_eq_iff d0_def find_artifact_def content_at_def find_blob_def chain_of_def chain_rows_def)
  then have "catalog_ok e d0 = catalog_ok e d" unfolding catalog_ok_def artifact_ok_def head_ok_def by (simp add: d0_def)
  ultimately have "extends e d d0" by (simp add: extends_def)
  then have x: "extends e d d'" using extends_trans [OF _ extends_untick [OF u [folded d0_def]]] by blast
  have c: "catalog_ok e d" and n: "numbered d" using ok by (auto simp: runs_ok_def)
  show "versions d' = versions d" using same_versions [OF c x] by simp
  have n': "numbered d'" by (rule numbered_snoc [OF n t p(1)])
  show "runs_ok e d'" using ok same_versions(1) [OF c x] n' p(2,3) unfolding runs_ok_def t f by auto
  have pc: "patch_content d' = patch_content d" by (simp add: fun_eq_iff patch_content_def f)
  show "run_log d' = (run_log d)(rp_run_id p := run_log d (rp_run_id p) @ [patch_content d p])"
    unfolding fun_eq_iff run_log_def patches_of_snoc [OF n t p(1)] pc by auto
qed

lemma reads_runs [reads_intros]: "reads (run_GetByID e i)" "reads (rp_GetNextSeq e r)" "reads (rp_GetByRunIDWithDetails e r)"
  by (auto simp: run_GetByID_def rp_GetNextSeq_def rp_GetByRunIDWithDetails_def intro!: reads_intros)

definition logged :: "dbenv \<Rightarrow> create_run_patch_request \<Rightarrow> create_run_patch_response res \<Rightarrow> db \<Rightarrow> db \<Rightarrow> bool" where
  "logged e req r d d' \<longleftrightarrow> runs_ok e d' \<and> versions d' = versions d \<and> (case r of Inl _ \<Rightarrow> run_log d' = run_log d
     | Inr y \<Rightarrow> run_log d' = (run_log d)(cq_run_id req := run_log d (cq_run_id req) @ [Some (run_patch_text e req)])
         \<and> cp_seq y = int (length (run_log d (cq_run_id req))) + 1)"

lemma logged_quiet_err: "runs_ok e d \<Longrightarrow> quiet e d d' \<Longrightarrow> logged e req (Inl x) d d'"
  using quiet_keeps [of e d d'] by (simp add: logged_def)

lemma logged_quiet: "runs_ok e d \<Longrightarrow> quiet e d d1 \<Longrightarrow> logged e req r d1 d' \<Longrightarrow> logged e req r d d'"
  using quiet_keeps [of e d d1] by (simp add: logged_def split: sum.splits)

lemma length_run_log: "numbered d \<Longrightarrow> length (run_log d run) = length (seqs d run)"
  by (simp add: run_log_def patches_of_def seqs_def)

lemma run_patch_artifact_fields [simp]:
  "ar_kind (run_patch_artifact req i c b s) = KindPatchSet" "ar_id (run_patch_artifact req i c b s) = i"
  "ar_cas_id (run_patch_artifact req i c b s) = c" "ar_depth (run_patch_artifact req i c b s) = Some s"
  by (simp_all add: run_patch_artifact_def new_artifact_def)

lemma finish_run_patch_run:
  assumes ok: "runs_ok e d" and s: "s = int (length (seqs d (cq_run_id req))) + 1" and c: "content_at d casID = Some (run_patch_text e req)"
    and run: "run_state (finish_run_patch e req base s casID) d = (r, d')"
  shows "logged e req r d d'"
proof -
  define i where "i = db_uuid e (d_tick d)"
  define a where "a = run_patch_artifact req i casID base s"
  define d0 where "d0 = d\<lparr>d_tick := Suc (d_tick d)\<rparr>"
  have q0: "quiet e d d0" by (rule quiet_untick) (simp add: d0_def)
  from run have "run_state (check (art_Create e a) ''failed to create artifact: '' (\<lambda>_.
      State_Monad.bind (reading (db_uuid e)) (\<lambda>j. check (rp_Create e (run_patch_row req j i s)) ''failed to create run patch: '' (\<lambda>_.
       ok \<lparr>cp_id = j, cp_run_id = cq_run_id req, cp_artifact_id = i, cp_cas_id = casID, cp_seq = s,
            cp_op_count = int (length (cq_operations req)), cp_description = cq_description req, cp_created_by = cq_created_by req\<rparr>)))) d0 = (r, d')"
    by (simp add: finish_run_patch_def i_def a_def d0_def)
  then show ?thesis
  proof (cases rule: check_cases)
    case (err x)
    have "quiet e d0 d'" by (rule quiet_art_Create [OF err(1)]) (simp add: a_def)
    then show ?thesis using logged_quiet_err [OF ok quiet_trans [OF q0]] err(2) by blast
  next
    case (cont z d1)
    have "quiet e d0 d1" by (rule quiet_art_Create [OF cont(1)]) (simp add: a_def)
    then have q1: "quiet e d d1" using q0 quiet_trans by blast
    have v: "artifact_violation d0 a = None" "d1 = d0\<lparr>d_artifacts := d_artifacts d0 @ [a], d_tick := Suc (d_tick d0)\<rparr>"
      using art_Create_run [OF cont(1)] by auto
    have fa: "find_artifact d1 i = Some a" using created_artifact_ok(3) [OF v(1) _ v(2)] by (simp add: a_def)
    define d2 where "d2 = d1\<lparr>d_tick := Suc (d_tick d1)\<rparr>"
    have q2: "quiet e d d2" by (rule quiet_trans [OF q1], rule quiet_untick) (simp add: d2_def)
    have fa2: "find_artifact d2 i = Some a" using fa by (simp add: d2_def)
    have c2: "content_at d2 casID = Some (run_patch_text e req)" using q2 c content_at_grows by (auto simp: quiet_def extends_def)
    define p where "p = run_patch_row req (db_uuid e (d_tick d1)) i s"
    from cont(2) have "run_state (check (rp_Create e p) ''failed to create run patch: '' (\<lambda>_.
       ok \<lparr>cp_id = rp_id p, cp_run_id = cq_run_id req, cp_artifact_id = i, cp_cas_id = casID, cp_seq = s,
            cp_op_count = int (length (cq_operations req)), cp_description = cq_description req, cp_created_by = cq_created_by req\<rparr>)) d2 = (r, d')"
      by (simp add: d2_def p_def run_patch_row_def)
    then show ?thesis
    proof (cases rule: check_cases)
      case (err x)
      then have "quiet e d2 d'" using rp_Create_run [OF err(1)] by (auto intro: quiet_untick)
      then show ?thesis using logged_quiet_err [OF ok quiet_trans [OF q2]] err(2) by blast
    next
      case (cont y d3)
      have ok2: "runs_ok e d2" by (rule quiet_keeps(1) [OF ok q2])
      obtain t where u: "untick d3 = untick (d2\<lparr>d_run_patches := d_run_patches d2 @ [p\<lparr>rp_created_at := t\<rparr>]\<rparr>)"
        using rp_Create_run [OF cont(1)] by auto
      have sq: "s = int (length (seqs d2 (cq_run_id req))) + 1" using s quiet_keeps(4) [OF ok q2] by simp
      have n2: "numbered d2" using ok2 by (simp add: runs_ok_def)
      note ra = row_added [OF ok2 u, of a]
      have "logged e req r d2 d3" using cont(2) ra sq fa2 c2 length_run_log [OF n2]
        by (auto simp: logged_def p_def run_patch_row_def a_def patch_content_def)
      then show ?thesis using logged_quiet [OF ok q2] cont(2) by auto
    qed
  qed
qed

lemma CreateRunPatch_run:
  assumes ok: "runs_ok e d" and nc: "no_collision e d (run_patch_text e req)" and run: "run_state (CreateRunPatch parse e req) d = (r, d')"
  shows "logged e req r d d'"
proof (cases "cq_operations req = [] \<or> (\<exists>x. parse (cq_run_id req) = Inl x)")
  case True
  then have "d' = d" "\<exists>x. r = Inl x" using run by (auto simp: CreateRunPatch_def split: if_splits)
  then show ?thesis using logged_quiet_err [OF ok quiet_untick] by auto
next
  case False
  then obtain runID where p: "cq_operations req \<noteq> []" "parse (cq_run_id req) = Inr runID" by (cases "parse (cq_run_id req)") auto
  from run p have "run_state (check (run_GetByID e runID) ''failed to get run: '' (\<lambda>run.
       case parse (rn_base_ref run) of Inl x \<Rightarrow> fail (''invalid base_ref in run: '' @ x)
       | Inr base \<Rightarrow> check (rp_GetNextSeq e (cq_run_id req)) ''failed to get next sequence: '' (\<lambda>seq.
         check (StoreContent e (run_patch_text e req) ''application/json;type=patch'') ''failed to store patch in CAS: '' (finish_run_patch e req base seq)))) d = (r, d')"
    by (simp add: CreateRunPatch_def)
  then show ?thesis
  proof (cases rule: check_cases)
    case (err x)
    then show ?thesis using logged_quiet_err [OF ok quiet_reads [OF reads_runs(1) err(1)]] by simp
  next
    case (cont run d1)
    have q1: "quiet e d d1" by (rule quiet_reads [OF reads_runs(1) cont(1)])
    show ?thesis
    proof (cases "parse (rn_base_ref run)")
      case (Inl x)
      then show ?thesis using cont(2) logged_quiet_err [OF ok q1] by auto
    next
      case (Inr base)
      from cont(2) Inr have "run_state (check (rp_GetNextSeq e (cq_run_id req)) ''failed to get next sequence: '' (\<lambda>seq.
         check (StoreContent e (run_patch_text e req) ''application/json;type=patch'') ''failed to store patch in CAS: '' (finish_run_patch e req base seq))) d1 = (r, d')" by simp
      then show ?thesis
      proof (cases rule: check_cases)
        case (err x)
        then show ?thesis using logged_quiet_err [OF ok quiet_trans [OF q1 quiet_reads [OF reads_runs(2) err(1)]]] by simp
      next
        case (cont s d2)
        have q2: "quiet e d d2" by (rule quiet_trans [OF q1 quiet_reads [OF reads_runs(2) cont(1)]])
        have n1: "numbered d1" using quiet_keeps(1) [OF ok q1] by (simp add: runs_ok_def)
        have s: "s = int (length (seqs d (cq_run_id req))) + 1" using run_GetNextSeq [OF n1 cont(1)] quiet_keeps(4) [OF ok q1] by simp
        have u2: "untick d2 = untick d1" using run_GetNextSeq [OF n1 cont(1)] by simp
        from cont(2) show ?thesis
        proof (cases rule: check_cases)
          case (err x)
          then show ?thesis using logged_quiet_err [OF ok quiet_trans [OF q2 quiet_StoreContent [OF err(1)]]] by simp
        next
          case (cont casID d3)
          have q3: "quiet e d d3" by (rule quiet_trans [OF q2 quiet_StoreContent [OF cont(1)]])
          have ok2: "catalog_ok e d2" using quiet_keeps(1) [OF ok q2] by (simp add: runs_ok_def)
          have "untick d1 = untick d" by (rule readsD [OF reads_runs(1) \<open>run_state (run_GetByID e runID) d = (Inr run, d1)\<close>])
          then have "d_blobs d2 = d_blobs d" using u2 untick_eq(1) by metis
          then have "no_collision e d2 (run_patch_text e req)" using nc by (simp add: no_collision_def)
          note st = StoreContent_stored [OF ok2 this cont(1)]
          have "logged e req r d3 d'"
            by (rule finish_run_patch_run [OF quiet_keeps(1) [OF ok q3] _ _ cont(2)]) (use st s quiet_keeps(4) [OF ok q3] in simp_all)
          then show ?thesis by (rule logged_quiet [OF ok q3])
        qed
      qed
    qed
  qed
qed

section \<open>Stored rows stay\<close>

text \<open>What the operations on workflows leave alone: they append blobs and artifacts and do not touch the tables of runs.\<close>

definition stays :: "db \<Rightarrow> db \<Rightarrow> bool" where
  "stays d d' \<longleftrightarrow> prefix (d_blobs d) (d_blobs d') \<and> prefix (d_artifacts d) (d_artifacts d')"

definition accrues :: "db \<Rightarrow> db \<Rightarrow> bool" where
  "accrues d d' \<longleftrightarrow> stays d d' \<and> d_run_patches d' = d_run_patches d \<and> d_run_rows d' = d_run_rows d"

lemma stays_refl: "stays d d" by (simp add: stays_def)

lemma stays_trans: "stays d d1 \<Longrightarrow> stays d1 d2 \<Longrightarrow> stays d d2"
  unfolding stays_def by (auto intro: prefix_order.trans)

lemma stays_lookup:
  assumes "stays d d'"
  shows "find_artifact d i = Some a \<Longrightarrow> find_artifact d' i = Some a" "content_at d i = Some c \<Longrightarrow> content_at d' i = Some c"
  using assms by (auto simp: stays_def find_artifact_def content_at_def find_blob_def find_append elim!: prefixE)

text \<open>A relation between the tables before and after: what every statement of an operation keeps, the operation keeps.\<close>

locale frame =
  fixes R :: "db \<Rightarrow> db \<Rightarrow> bool"
  assumes ticks: "untick d' = untick d \<Longrightarrow> R d d'"
    and trans: "R d d1 \<Longrightarrow> R d1 d2 \<Longrightarrow> R d d2"
begin

definition always :: "'a dbio \<Rightarrow> bool" where
  "always m \<longleftrightarrow> (\<forall>d. R d (snd (run_state m d)))"

lemma alwaysD: "always m \<Longrightarrow> run_state m d = (r, d') \<Longrightarrow> R d d'"
  unfolding always_def by (metis snd_conv)

lemma reads_always: "reads m \<Longrightarrow> always m"
  unfolding always_def reads_def using ticks by blast

lemma bind: "always m \<Longrightarrow> (\<And>a. always (f a)) \<Longrightarrow> always (State_Monad.bind m f)"
  unfolding always_def by (simp add: case_prod_unfold) (metis trans)

lemma check: "always m \<Longrightarrow> (\<And>a. always (f a)) \<Longrightarrow> always (Database.check m msg f)"
  unfolding Database.check_def by (rule bind) (auto split: sum.split intro: reads_always reads_intros)

lemma query:
  assumes "\<And>d a d'. q d = Inr (a, d') \<Longrightarrow> R d d'"
  shows "always (Database.query e q)"
  unfolding always_def
proof
  fix d
  have t: "R d' (d'\<lparr>d_tick := n\<rparr>)" for d' n by (rule ticks) simp
  show "R d (snd (run_state (Database.query e q) d))"
    using assms [of d] t trans [OF _ t] by (auto simp: run_query split: option.split sum.split prod.split)
qed

lemma basic: "always (ok a)" "always (fail x)" "always (State_Monad.return r)" "always (reading g)"
  by (intro reads_always reads_intros)+

end

interpretation stored: frame stays
proof
  fix d d' :: db
  assume "untick d' = untick d"
  from untick_eq [OF this] show "stays d d'" by (simp add: stays_def)
qed (rule stays_trans)

interpretation kept: frame accrues
proof
  fix d d' :: db
  assume "untick d' = untick d"
  from untick_eq [OF this] show "accrues d d'" by (simp add: accrues_def stays_def)
qed (auto simp: accrues_def intro: stays_trans)

lemma stored_kept: "kept.always m \<Longrightarrow> stored.always m"
  by (simp add: kept.always_def stored.always_def accrues_def)

lemma kept_rows: "kept.always (art_Create e a)" "kept.always (insert_member e r)" "kept.always (tag_Create e t)"
  "kept.always (update_tag e u n c f)" "kept.always (tag_Delete e u n)" "kept.always (blob_Create e b)"
proof -
  show "kept.always (art_Create e a)" unfolding art_Create_def
    by (intro kept.check kept.query kept.basic) (auto simp: accrues_def stays_def split: option.splits)
  show "kept.always (insert_member e r)" unfolding insert_member_def
    by (intro kept.query) (auto simp: accrues_def stays_def split: option.splits)
  show "kept.always (tag_Create e t)" unfolding tag_Create_def
    by (intro kept.check kept.query kept.basic) (auto simp: accrues_def stays_def split: option.splits if_splits)
  show "kept.always (update_tag e u n c f)" unfolding update_tag_def
    by (intro kept.query) (auto simp: accrues_def stays_def Let_def split: option.splits if_splits)
  have "kept.always (query e (\<lambda>d. Inr (length (filter (is_tag u n) (d_tags d)), d\<lparr>d_tags := filter (\<lambda>t. \<not> is_tag u n t) (d_tags d)\<rparr>)))"
    by (rule kept.query) (auto simp: accrues_def stays_def)
  then show "kept.always (tag_Delete e u n)" unfolding tag_Delete_def by (rule kept.check) (simp add: kept.basic)
  show "kept.always (blob_Create e b)" unfolding blob_Create_def
    by (intro kept.check kept.query kept.basic) (auto simp: accrues_def stays_def split: if_splits)
qed

lemma kept_tables: "kept.always (StoreContent e c m)" "kept.always (tag_Update e t)"
proof -
  have "kept.always (if x then ok i else State_Monad.bind (reading f) (\<lambda>t. check (blob_Create e (g t)) msg (\<lambda>_. ok i)))" for x i f g msg
    by (cases x) (auto intro!: kept.bind kept.check kept.basic kept_rows)
  then show "kept.always (StoreContent e c m)" unfolding StoreContent_def Let_def
    by (rule kept.check [OF kept.reads_always [OF reads_blobs(2)]])
  show "kept.always (tag_Update e t)" unfolding tag_Update_def by (intro kept.check kept.basic kept_rows)
qed

lemma kept_members: "kept.always (insert_members e h i ms)"
  by (induction ms arbitrary: i) (auto intro!: kept.check kept.basic kept_rows)

lemmas kept_intros = kept.bind kept.check kept.basic kept_rows kept_tables kept_members

lemma kept_tags: "kept.always (CreateOrMoveTag e u n k i h w)" "kept.always (DeleteTag e u n)"
  unfolding CreateOrMoveTag_def MoveTag_def CreateTag_def DeleteTag_def
  by (auto intro!: kept_intros kept.reads_always [OF reads_tag(1)])

lemma kept_store:
  "kept.always (CreateWorkflow e req)" "kept.always (workflow_CreatePatch e preq)" "kept.always (MigrateTagToCompactedBase e u n b who)" "kept.always (CompactWorkflow e p who)"
proof -
  have v: "kept.always (version_artifact e req c)" for c
    unfolding version_artifact_def CreateDAGVersion_def
    by (auto intro!: kept_intros kept.reads_always [OF reads_artifacts(9)] split: sum.split prod.split)
  show "kept.always (CreateWorkflow e req)"
    unfolding CreateWorkflow_def by (auto intro!: kept_intros kept_tags v split: prod.split)
  have "kept.always (CreatePatch e a b c d f g)" for a b c d f g
    unfolding CreatePatch_def InsertPatchChain_def by (auto intro!: kept_intros kept.reads_always [OF reads_artifacts(7)])
  moreover have "kept.always (resolveTagToArtifact e u n)" for u n
    unfolding resolveTagToArtifact_def by (intro kept.reads_always reads_intros)
  ultimately show "kept.always (workflow_CreatePatch e preq)"
    unfolding workflow_CreatePatch_def by (auto intro!: kept_intros kept_tags split: sum.split prod.split)
  show "kept.always (MigrateTagToCompactedBase e u n b who)"
    unfolding MigrateTagToCompactedBase_def by (auto intro!: kept_intros kept.reads_always [OF reads_tag(2)] kept.reads_always [OF reads_artifacts(1)])
  have "kept.always (store_compacted e a b c n t m)" for a b c n t m
    unfolding store_compacted_def by (intro kept_intros)
  then show "kept.always (CompactWorkflow e p who)"
    unfolding CompactWorkflow_def
    by (auto intro!: kept_intros kept.reads_always [OF reads_artifacts(1)] kept.reads_always [OF reads_compact_text] split: option.split sum.split prod.split)
qed

lemma store_step_accrues: "store_step e d d' \<Longrightarrow> accrues d d'"
  by (induction rule: store_step.induct) (erule kept.alwaysD [rotated], intro kept_store kept_tags)+

lemma accrues_runs:
  assumes ok: "runs_ok e d" and a: "accrues d d'" and c: "catalog_ok e d'"
  shows "runs_ok e d'" "run_log d' = run_log d"
proof -
  have t: "d_run_patches d' = d_run_patches d" and st: "stays d d'" using a by (simp_all add: accrues_def)
  show "runs_ok e d'" using ok c numbered_cong [OF t] stays_lookup(1) [OF st] unfolding runs_ok_def t by metis
  have "patch_content d' p = patch_content d p" if p: "p \<in> set (d_run_patches d)" for p
  proof -
    obtain x where x: "find_artifact d (rp_artifact_id p) = Some x" using ok p by (auto simp: runs_ok_def)
    moreover obtain s where "content_at d (ar_cas_id x) = Some s"
      using ok artifact_content [of e d x] find_artifact_in [OF x] by (auto simp: runs_ok_def)
    ultimately show ?thesis using stays_lookup [OF st] by (simp add: patch_content_def)
  qed
  moreover have "patches_of d' = patches_of d" by (simp add: fun_eq_iff patches_of_def t)
  ultimately show "run_log d' = run_log d" by (auto simp: run_log_def fun_eq_iff patches_of_def)
qed

section \<open>Reachable states\<close>

text \<open>The operations on workflows, run patches, the statements with which a run is created and its status is updated, and queries, in any order.\<close>

inductive run_step :: "(string \<Rightarrow> string res) \<Rightarrow> dbenv \<Rightarrow> db \<Rightarrow> db \<Rightarrow> bool" for parse e where
  workflow: "store_step e d d' \<Longrightarrow> run_step parse e d d'"
| run_patch: "run_state (CreateRunPatch parse e req) d = (r, d') \<Longrightarrow> no_collision e d (run_patch_text e req) \<Longrightarrow> run_step parse e d d'"
| content: "run_state (StoreContent e c m) d = (s, d') \<Longrightarrow> run_step parse e d d'"
| frozen: "run_state (art_Create e a) d = (u, d') \<Longrightarrow> ar_kind a = KindDAGVersion \<Longrightarrow> ar_version_hash a = Some (ar_cas_id a) \<Longrightarrow> run_step parse e d d'"
| row: "run_state (run_Create e x) d = (u, d') \<Longrightarrow> run_step parse e d d'"
| status: "run_state (run_UpdateStatus e i st) d = (u, d') \<Longrightarrow> run_step parse e d d'"
| query: "untick d' = untick d \<Longrightarrow> run_step parse e d d'"

lemma quiet_rows:
  "run_state (run_Create e x) d = (u, d') \<Longrightarrow> quiet e d d'" "run_state (run_UpdateStatus e i st) d = (u, d') \<Longrightarrow> quiet e d d'"
proof -
  have r: "quiet e d (d\<lparr>d_run_rows := rs, d_tick := n\<rparr>)" for rs n
  proof -
    define d0 where "d0 = d\<lparr>d_run_rows := rs, d_tick := n\<rparr>"
    have "find_artifact d0 = find_artifact d" "content_at d0 = content_at d" "chain_of d0 = chain_of d"
      by (simp_all add: fun_eq_iff d0_def find_artifact_def content_at_def find_blob_def chain_of_def chain_rows_def)
    then have "catalog_ok e d0 = catalog_ok e d" unfolding catalog_ok_def artifact_ok_def head_ok_def by (simp add: d0_def)
    moreover have "grows d d0" by (simp add: grows_def d0_def)
    ultimately have "quiet e d d0" by (simp add: quiet_def extends_def d0_def)
    then show ?thesis by (simp add: d0_def)
  qed
  show "run_state (run_Create e x) d = (u, d') \<Longrightarrow> quiet e d d'" "run_state (run_UpdateStatus e i st) d = (u, d') \<Longrightarrow> quiet e d d'"
    using r [of _ "d_run_rows d"]
    by (auto simp: run_Create_def run_UpdateStatus_def run_check run_query r split: option.splits prod.splits sum.splits if_splits)
qed

lemma run_step_ok: "run_step parse e d d' \<Longrightarrow> runs_ok e d \<Longrightarrow> runs_ok e d'"
proof (induction rule: run_step.induct)
  case (workflow d d')
  then have "catalog_ok e d'" using store_step_ok by (auto simp: runs_ok_def)
  then show ?case by (rule accrues_runs(1) [OF workflow.prems store_step_accrues [OF workflow.hyps]])
next
  case (run_patch req d r d')
  then show ?case using CreateRunPatch_run [of e d req parse r d'] by (simp add: logged_def)
next
  case (content c m d s d')
  then show ?case using quiet_keeps(1) quiet_StoreContent by blast
next
  case (frozen a d u d')
  then show ?case using quiet_keeps(1) quiet_art_Create by blast
next
  case (row x d u d')
  then show ?case using quiet_keeps(1) quiet_rows(1) by blast
next
  case (status i st d u d')
  then show ?case using quiet_keeps(1) quiet_rows(2) by blast
next
  case (query d' d)
  then show ?case using quiet_keeps(1) quiet_untick by blast
qed

text \<open>Artifacts and contents, once stored, are never changed or removed.\<close>

lemma stored_CreateRunPatch: "stored.always (CreateRunPatch parse e req)"
proof -
  have rp: "stored.always (rp_Create e p)" for p
    unfolding rp_Create_def by (intro stored.check stored.query stored.basic) (auto simp: stays_def split: option.splits)
  have "stored.always (finish_run_patch e req b s c)" for b s c
    unfolding finish_run_patch_def by (intro stored.bind stored.check stored.basic rp stored_kept [OF kept_rows(1)])
  moreover have "stored.always (run_GetByID e i)" "stored.always (rp_GetNextSeq e run)" for i run
    by (intro stored.reads_always reads_runs)+
  ultimately show ?thesis unfolding CreateRunPatch_def
    by (auto intro!: stored.check stored.basic stored_kept [OF kept_tables(1)] split: sum.split)
qed

lemma run_step_stays: "run_step parse e d d' \<Longrightarrow> stays d d'"
proof (induction rule: run_step.induct)
  case (workflow d d')
  then show ?case using store_step_accrues by (auto simp: accrues_def)
next
  case (run_patch req d r d')
  show ?case by (rule stored.alwaysD [OF stored_CreateRunPatch run_patch(1)])
next
  case (content c m d s d')
  show ?case by (rule stored.alwaysD [OF stored_kept [OF kept_tables(1)] content])
next
  case (frozen a d u d')
  show ?case by (rule stored.alwaysD [OF stored_kept [OF kept_rows(1)] frozen(1)])
next
  case (row x d u d')
  then show ?case by (auto simp: run_Create_def run_check run_query stays_def split: option.splits prod.splits sum.splits)
next
  case (status i st d u d')
  then show ?case by (auto simp: run_UpdateStatus_def run_check run_query stays_def split: option.splits prod.splits sum.splits if_splits)
next
  case (query d' d)
  then show ?case by (simp add: stays_def untick_eq [OF query])
qed

lemma run_steps_stay: "(run_step parse e)\<^sup>*\<^sup>* d d' \<Longrightarrow> stays d d'"
  by (induction rule: rtranclp_induct) (auto simp: stays_refl intro: stays_trans run_step_stays)

lemma runs_reachable_ok: "(run_step parse e)\<^sup>*\<^sup>* empty_db d \<Longrightarrow> runs_ok e d"
proof (induction rule: rtranclp_induct)
  case base
  show ?case using empty_db_ok [of e] by (simp add: runs_ok_def numbered_def seqs_def empty_db_def)
next
  case (step d d')
  then show ?case using run_step_ok by blast
qed

section \<open>A sample run\<close>

definition run_dbenv :: dbenv where
  "run_dbenv = sample_dbenv\<lparr>db_now := (\<lambda>t. 1735689600 + int t), db_parse := (\<lambda>_. Inr (GObj [(''operations'', GArr [GObj [(''op'', GStr ''remove'')]])]))\<rparr>"

definition run_db1 :: db where "run_db1 = snd (run_state (CreateWorkflow run_dbenv sample_create) empty_db)"

definition sample_run_row :: run where
  "sample_run_row = \<lparr>rn_id = ''r'', rn_base_kind = ''dag_version'', rn_base_ref = ar_id (hd (d_artifacts run_db1)), rn_tags_snapshot = [],
     rn_status = StatusQueued, rn_submitted_by = Some ''alice'', rn_submitted_at = 1735689600\<rparr>"

definition run_db2 :: db where "run_db2 = snd (run_state (run_Create run_dbenv sample_run_row) run_db1)"

definition sample_run_patch :: create_run_patch_request where
  "sample_run_patch = \<lparr>cq_run_id = ''r'', cq_node_id = ''n'', cq_operations = [[(''op'', GStr ''remove'')]], cq_description = '''', cq_created_by = ''alice''\<rparr>"

definition run_db3 :: db where "run_db3 = snd (run_state (CreateRunPatch Inr run_dbenv sample_run_patch) run_db2)"

lemma run_no_collision [simp]: "no_collision run_dbenv d c"
  by (simp add: no_collision_def run_dbenv_def sample_dbenv_def)

lemma run_reaches2: "(run_step Inr run_dbenv)\<^sup>*\<^sup>* empty_db run_db2"
proof -
  have "run_step Inr run_dbenv empty_db run_db1" unfolding run_db1_def
    by (rule run_step.workflow, rule store_step.create [OF prod.collapse [symmetric]]) simp
  moreover have "run_step Inr run_dbenv run_db1 run_db2" unfolding run_db2_def
    by (rule run_step.row [OF prod.collapse [symmetric]])
  ultimately show ?thesis by (meson converse_rtranclp_into_rtranclp r_into_rtranclp)
qed

lemma run_reaches3: "(run_step Inr run_dbenv)\<^sup>*\<^sup>* empty_db run_db3"
proof -
  have "run_step Inr run_dbenv run_db2 run_db3" unfolding run_db3_def
    by (rule run_step.run_patch [OF prod.collapse [symmetric]]) simp
  then show ?thesis using run_reaches2 by (rule rtranclp.rtrancl_into_rtrancl [rotated])
qed

lemma sample_run_patched: "\<exists>y. run_state (CreateRunPatch Inr run_dbenv sample_run_patch) run_db2 = (Inr y, run_db3)"
proof -
  have "case fst (run_state (CreateRunPatch Inr run_dbenv sample_run_patch) run_db2) of Inl _ \<Rightarrow> False | Inr _ \<Rightarrow> True" by code_simp
  then show ?thesis unfolding run_db3_def by (cases "run_state (CreateRunPatch Inr run_dbenv sample_run_patch) run_db2") (auto split: sum.splits)
qed

lemma sample_run_log: "run_log run_db2 ''r'' = []" "run_log run_db3 ''r'' = [Some (run_patch_text run_dbenv sample_run_patch)]"
  "operations_of run_dbenv (run_patch_text run_dbenv sample_run_patch) = Inr [[(''op'', GStr ''remove'')]]"
  by code_simp+

section \<open>Patches of a run\<close>

text \<open>C30. A run patch appends to the log of its run and to nothing else. Whatever happened to the store before: if the service accepts a run patch,
  the log of the run grows by the text of its operations, the patch gets the next number, and no other run's log changes; if it fails in
  any statement, no log changes. In both cases every tagged workflow is as it was.\<close>

theorem run_patch_appends_log:
  assumes "(run_step parse e)\<^sup>*\<^sup>* empty_db d" and "no_collision e d (run_patch_text e req)" and "run_state (CreateRunPatch parse e req) d = (r, d')"
  shows "versions d' = versions d \<and> (case r of Inl _ \<Rightarrow> run_log d' = run_log d
    | Inr y \<Rightarrow> run_log d' = (run_log d)(cq_run_id req := run_log d (cq_run_id req) @ [Some (run_patch_text e req)])
        \<and> cp_seq y = int (length (run_log d (cq_run_id req))) + 1)"
  using CreateRunPatch_run [OF runs_reachable_ok [OF assms(1)] assms(2,3)] by (simp add: logged_def)

theorem run_patch_appends_log_witness:
  "\<exists>y. run_state (CreateRunPatch Inr run_dbenv sample_run_patch) run_db2 = (Inr y, run_db3) \<and> cp_seq y = 1 \<and> versions run_db3 = versions run_db2
     \<and> run_log run_db3 ''r'' = [Some (run_patch_text run_dbenv sample_run_patch)]"
proof -
  obtain y where y: "run_state (CreateRunPatch Inr run_dbenv sample_run_patch) run_db2 = (Inr y, run_db3)" using sample_run_patched by blast
  have r: "cq_run_id sample_run_patch = ''r''" by (simp add: sample_run_patch_def)
  from run_patch_appends_log [OF run_reaches2 run_no_collision y] y sample_run_log(1) show ?thesis unfolding r by simp
qed

lemma load_all_run:
  assumes "db_reliable e" and "\<forall>i \<in> set is. content_at d i \<noteq> None"
  shows "\<exists>m' n. run_state (load_all e is m) d = (m', d\<lparr>d_tick := n\<rparr>)
    \<and> (\<forall>i. map_of m' i = (if i \<in> set is then Some (case operations_of e (the (content_at d i)) of Inl _ \<Rightarrow> [] | Inr ops \<Rightarrow> ops) else map_of m i))"
  using assms(2)
proof (induction "is" arbitrary: d m)
  case Nil
  then show ?case by (auto intro: exI [of _ "d_tick d"])
next
  case (Cons i "is")
  let ?d = "d\<lparr>d_tick := Suc (d_tick d)\<rparr>"
  let ?ops = "\<lambda>i. case operations_of e (the (content_at d i)) of Inl _ \<Rightarrow> [] | Inr ops \<Rightarrow> ops"
  obtain c where c: "content_at d i = Some c" using Cons.prems by auto
  have g: "run_state (service_GetPatchOperations e i) d =
      (case operations_of e c of Inl x \<Rightarrow> Inl (''failed to unmarshal patch data: '' @ x) | Inr ops \<Rightarrow> Inr ops, ?d)"
    using run_GetContent [OF assms(1) c] by (simp add: service_GetPatchOperations_def run_check)
  from Cons.IH [of ?d "AList.update i (?ops i) m"] Cons.prems obtain m' n where
    "run_state (load_all e is (AList.update i (?ops i) m)) ?d = (m', d\<lparr>d_tick := n\<rparr>)"
    "\<forall>j. map_of m' j = (if j \<in> set is then Some (?ops j) else map_of (AList.update i (?ops i) m) j)" by auto
  then show ?case using g c by (cases "operations_of e c") (auto simp: update_conv')
qed



end
