(* ===== verification/Workflow_Patch.thy ===== *)
theory Workflow_Patch
  imports Orchestrator_Client Rate_Limit
begin

text \<open>
  JSON patches on workflow documents: the validator \<open>common/validation/patch_validator.go\<close> and the patcher
  \<open>cmd/orchestrator/handlers/workflow_patch.go\<close> with which the API tries a patch before it stores it.

  The patcher copies the document's arrays before it edits them, so a document is a value here; the
  edits of a slice in place are seen by nobody else.

  The lemmas show when a patch is accepted, what it does to the document, that the patcher and the
  client of the runner agree on patches that only add, and how many agent nodes a validated patch can bring in.
\<close>

section \<open>Numbers in a path\<close>

text \<open>\<open>strconv.Atoi\<close>: an optional sign and decimal digits, within the range of int64. Its error quotes the text.\<close>

definition digit :: "char \<Rightarrow> int option" where
  "digit c = (let n = (of_char c :: nat) in if 48 \<le> n \<and> n \<le> 57 then Some (int n - 48) else None)"

fun digits :: "int \<Rightarrow> string \<Rightarrow> int option" where
  "digits acc [] = Some acc"
| "digits acc (c # cs) = (case digit c of None \<Rightarrow> None | Some d \<Rightarrow> digits (10 * acc + d) cs)"

definition atoi_error :: "string \<Rightarrow> string \<Rightarrow> int res" where
  "atoi_error s reason = Inl (''strconv.Atoi: parsing '' @ json_text (\<lambda>_. []) (GStr s) @ '': '' @ reason)"

definition atoi :: "string \<Rightarrow> int res" where
  "atoi s = (let (neg, ds) = (case s of [] \<Rightarrow> (False, []) | c # r \<Rightarrow> if c = CHR ''-'' then (True, r) else if c = CHR ''+'' then (False, r) else (False, s)) in
     if ds = [] then atoi_error s ''invalid syntax''
     else case digits 0 ds of None \<Rightarrow> atoi_error s ''invalid syntax''
       | Some n \<Rightarrow> let v = (if neg then - n else n) in
           if int64_min \<le> v \<and> v \<le> int64_max then Inr v else atoi_error s ''value out of range'')"

section \<open>The validator\<close>

definition type_name :: "gval \<Rightarrow> string" where
  "type_name v = (case v of GNil \<Rightarrow> ''<nil>'' | GBool _ \<Rightarrow> ''bool'' | GNum _ \<Rightarrow> ''float64'' | GStr _ \<Rightarrow> ''string'' | GRaw _ \<Rightarrow> ''[]uint8''
     | GArr _ \<Rightarrow> ''[]interface {}'' | GObj _ \<Rightarrow> ''map[string]interface {}'' | GOther t \<Rightarrow> t)"

definition validateNodeValue :: "gval \<Rightarrow> nat \<Rightarrow> unit res" where
  "validateNodeValue value opIndex = (case as_obj value of
     None \<Rightarrow> Inl (''operation '' @ show_nat opIndex @ '': node value must be an object, got '' @ type_name value)
   | Some nodeValue \<Rightarrow>
     if as_string (mget nodeValue ''id'') = None then Inl (''operation '' @ show_nat opIndex @ '': node must have 'id' field (string)'')
     else if as_string (mget nodeValue ''type'') = None then Inl (''operation '' @ show_nat opIndex @ '': node must have 'type' field (string)'')
     else case map_of nodeValue ''config'' of None \<Rightarrow> Inr ()
       | Some config \<Rightarrow> if as_obj config = None
           then Inl (''operation '' @ show_nat opIndex @ '': node 'config' must be an object, got '' @ type_name config
             @ '' (hint: use {\"key\": \"value\"}, not [\"key\"])'')
           else Inr ())"

definition validateOperation :: "gval smap \<Rightarrow> nat \<Rightarrow> unit res" where
  "validateOperation op index = (case as_string (mget op ''op'') of
     None \<Rightarrow> Inl (''operation '' @ show_nat index @ '': missing or invalid 'op' field'')
   | Some opType \<Rightarrow> (case as_string (mget op ''path'') of
       None \<Rightarrow> Inl (''operation '' @ show_nat index @ '': missing or invalid 'path' field'')
     | Some path \<Rightarrow>
       if opType = ''add'' \<or> opType = ''replace'' then
         (if map_of op ''value'' = None then Inl (''operation '' @ show_nat index @ '': 'value' required for '' @ opType @ '' operation'')
          else if path = ''/nodes/-'' then validateNodeValue (mget op ''value'') index
          else Inr ())
       else if opType = ''remove'' then Inr ()
       else Inl (''operation '' @ show_nat index @ '': unsupported operation type: '' @ opType)))"

definition adds_agent :: "gval smap \<Rightarrow> bool" where
  "adds_agent op \<longleftrightarrow> mget op ''op'' = GStr ''add'' \<and> mget op ''path'' = GStr ''/nodes/-'' \<and> is_agent (mget op ''value'')"

fun validate_ops :: "nat \<Rightarrow> gval smap list \<Rightarrow> nat \<Rightarrow> nat res" where
  "validate_ops i [] agentCount = Inr agentCount"
| "validate_ops i (op # ops) agentCount = (case validateOperation op i of
     Inl x \<Rightarrow> Inl x
   | Inr _ \<Rightarrow> validate_ops (i + 1) ops (if adds_agent op then agentCount + 1 else agentCount))"

definition ValidateOperations :: "gval smap list \<Rightarrow> unit res" where
  "ValidateOperations operations = (case validate_ops 0 operations 0 of
     Inl x \<Rightarrow> Inl x
   | Inr agentCount \<Rightarrow> if agentCount > 5
       then Inl (''patch validation failed: cannot add more than 5 agent nodes per patch (attempted: '' @ show_nat agentCount @ '')'')
       else Inr ())"

section \<open>The patcher\<close>

definition applyAddOperation :: "gval smap \<Rightarrow> string \<Rightarrow> gval \<Rightarrow> gval smap res" where
  "applyAddOperation workflow path value =
    (if path = ''/nodes/-'' then Inr (AList.update ''nodes'' (case as_arr (mget workflow ''nodes'') of None \<Rightarrow> GArr [value] | Some nodes \<Rightarrow> GArr (nodes @ [value])) workflow)
     else if path = ''/edges/-'' then Inr (AList.update ''edges'' (case as_arr (mget workflow ''edges'') of None \<Rightarrow> GArr [value] | Some edges \<Rightarrow> GArr (edges @ [value])) workflow)
     else Inl (''unsupported add path: '' @ path))"

text \<open>The path \<open>/collection/index\<close> of a remove or replace operation, and the collection's elements if the index is one of them.\<close>

definition path_target :: "string \<Rightarrow> string \<Rightarrow> (string \<times> int) res" where
  "path_target verb path = (case split_on (CHR ''/'') (TrimPrefix path ''/'') of
     [collection, n] \<Rightarrow> (case atoi n of
        Inl x \<Rightarrow> Inl (''invalid index in path '' @ path @ '': '' @ x)
      | Inr index \<Rightarrow> Inr (collection, index))
   | _ \<Rightarrow> Inl (''invalid '' @ verb @ '' path format: '' @ path @ '' (expected format: /collection/index)''))"

definition elements_with :: "gval smap \<Rightarrow> string \<Rightarrow> int \<Rightarrow> gval list option" where
  "elements_with workflow field index = (case as_arr (mget workflow field) of None \<Rightarrow> None
     | Some xs \<Rightarrow> if index < 0 \<or> int (length xs) \<le> index then None else Some xs)"

definition edit_element :: "string \<Rightarrow> (nat \<Rightarrow> gval list \<Rightarrow> gval list) \<Rightarrow> gval smap \<Rightarrow> string \<Rightarrow> gval smap res" where
  "edit_element verb f workflow path = (case path_target verb path of Inl x \<Rightarrow> Inl x
   | Inr (collection, index) \<Rightarrow>
     if collection = ''nodes'' then (case elements_with workflow ''nodes'' index of
         None \<Rightarrow> Inl (''invalid node index: '' @ show_int index)
       | Some nodes \<Rightarrow> Inr (AList.update ''nodes'' (GArr (f (nat index) nodes)) workflow))
     else if collection = ''edges'' then (case elements_with workflow ''edges'' index of
         None \<Rightarrow> Inl (''invalid edge index: '' @ show_int index)
       | Some edges \<Rightarrow> Inr (AList.update ''edges'' (GArr (f (nat index) edges)) workflow))
     else Inl (''unsupported '' @ verb @ '' collection: '' @ collection))"

definition applyRemoveOperation :: "gval smap \<Rightarrow> string \<Rightarrow> gval smap res" where
  "applyRemoveOperation = edit_element ''remove'' (\<lambda>i xs. take i xs @ drop (i + 1) xs)"

definition applyReplaceOperation :: "gval smap \<Rightarrow> string \<Rightarrow> gval \<Rightarrow> gval smap res" where
  "applyReplaceOperation workflow path value = edit_element ''replace'' (\<lambda>i xs. xs[i := value]) workflow path"

definition apply_one :: "nat \<Rightarrow> gval smap \<Rightarrow> gval smap \<Rightarrow> gval smap res" where
  "apply_one i op workflow = (case as_string (mget op ''op'') of
     None \<Rightarrow> Inl (''operation '' @ show_nat i @ '' missing 'op' field'')
   | Some opType \<Rightarrow> (case as_string (mget op ''path'') of
       None \<Rightarrow> Inl (''operation '' @ show_nat i @ '' missing 'path' field'')
     | Some path \<Rightarrow>
       if opType = ''add'' then (case applyAddOperation workflow path (mget op ''value'') of
           Inl x \<Rightarrow> Inl (''operation '' @ show_nat i @ '' (add) failed: '' @ x) | Inr w \<Rightarrow> Inr w)
       else if opType = ''remove'' then (case applyRemoveOperation workflow path of
           Inl x \<Rightarrow> Inl (''operation '' @ show_nat i @ '' (remove) failed: '' @ x) | Inr w \<Rightarrow> Inr w)
       else if opType = ''replace'' then (case applyReplaceOperation workflow path (mget op ''value'') of
           Inl x \<Rightarrow> Inl (''operation '' @ show_nat i @ '' (replace) failed: '' @ x) | Inr w \<Rightarrow> Inr w)
       else Inl (''unsupported operation type: '' @ opType)))"

fun apply_each :: "nat \<Rightarrow> gval smap list \<Rightarrow> gval smap \<Rightarrow> gval smap res" where
  "apply_each i [] workflow = Inr workflow"
| "apply_each i (op # ops) workflow = (case apply_one i op workflow of Inl x \<Rightarrow> Inl x | Inr w \<Rightarrow> apply_each (i + 1) ops w)"

definition ApplyJSONPatchToWorkflow :: "gval smap \<Rightarrow> gval smap list \<Rightarrow> gval smap res" where
  "ApplyJSONPatchToWorkflow workflow operations = apply_each 0 operations workflow"

section \<open>What a patch does\<close>

text \<open>The specification: an operation edits one of the two lists of a document.\<close>

datatype edit = Append gval | RemoveAt nat | ReplaceAt nat gval

fun apply_edit :: "edit \<Rightarrow> gval list \<Rightarrow> gval list option" where
  "apply_edit (Append v) xs = Some (xs @ [v])"
| "apply_edit (RemoveAt i) xs = (if i < length xs then Some (take i xs @ drop (i + 1) xs) else None)"
| "apply_edit (ReplaceAt i v) xs = (if i < length xs then Some (xs[i := v]) else None)"

definition edit_of :: "gval smap \<Rightarrow> (string \<times> edit) option" where
  "edit_of op = (case (as_string (mget op ''op''), as_string (mget op ''path'')) of
     (Some t, Some path) \<Rightarrow>
       if t = ''add'' then
         (if path = ''/nodes/-'' then Some (''nodes'', Append (mget op ''value''))
          else if path = ''/edges/-'' then Some (''edges'', Append (mget op ''value'')) else None)
       else if t = ''remove'' \<or> t = ''replace'' then
         (case path_target t path of Inr (c, n) \<Rightarrow>
            if c \<in> {''nodes'', ''edges''} \<and> 0 \<le> n then Some (c, if t = ''remove'' then RemoveAt (nat n) else ReplaceAt (nat n) (mget op ''value'')) else None
          | Inl _ \<Rightarrow> None)
       else None
   | _ \<Rightarrow> None)"

fun edits_of :: "gval smap list \<Rightarrow> (string \<times> edit) list option" where
  "edits_of [] = Some []"
| "edits_of (op # ops) = (case (edit_of op, edits_of ops) of (Some x, Some xs) \<Rightarrow> Some (x # xs) | _ \<Rightarrow> None)"

fun run_edits :: "(string \<times> edit) list \<Rightarrow> (string \<Rightarrow> gval list) \<Rightarrow> (string \<Rightarrow> gval list) option" where
  "run_edits [] ls = Some ls"
| "run_edits ((f, x) # xs) ls = (case apply_edit x (ls f) of None \<Rightarrow> None | Some ys \<Rightarrow> run_edits xs (ls(f := ys)))"

definition lists_of :: "gval smap \<Rightarrow> string \<Rightarrow> gval list" where "lists_of m f = items f m"

lemma lists_of_update: "lists_of (AList.update f (GArr xs) m) = (lists_of m)(f := xs)"
  by (auto simp: lists_of_def items_def fun_eq_iff)

lemma as_arr_items: "as_arr (mget m f) = Some xs \<Longrightarrow> lists_of m f = xs" "as_arr (mget m f) = None \<Longrightarrow> lists_of m f = []"
  by (cases "mget m f"; simp add: lists_of_def items_def)+

lemma edit_element_spec:
  assumes "\<And>i xs. i < length xs \<Longrightarrow> apply_edit (x i) xs = Some (f i xs)" and "\<And>i xs. \<not> i < length xs \<Longrightarrow> apply_edit (x i) xs = None"
  shows "(case path_target verb path of Inr (c, n) \<Rightarrow> if c \<in> {''nodes'', ''edges''} \<and> 0 \<le> n then apply_edit (x (nat n)) (lists_of m c) = None \<and> (\<exists>e. edit_element verb f m path = Inl e)
        \<or> (\<exists>ys. apply_edit (x (nat n)) (lists_of m c) = Some ys \<and> edit_element verb f m path = Inr (AList.update c (GArr ys) m))
      else \<exists>e. edit_element verb f m path = Inl e | Inl _ \<Rightarrow> \<exists>e. edit_element verb f m path = Inl e)"
proof (cases "path_target verb path")
  case (Inr p)
  obtain c n where p: "p = (c, n)" by (cases p)
  show ?thesis
  proof (cases "c \<in> {''nodes'', ''edges''} \<and> 0 \<le> n")
    case True
    show ?thesis
    proof (cases "n < int (length (lists_of m c))")
      case ok: True
      then obtain xs where xs: "as_arr (mget m c) = Some xs" "lists_of m c = xs"
        using True as_arr_items by (cases "as_arr (mget m c)") auto
      then have "elements_with m c n = Some xs" using True ok by (simp add: elements_with_def)
      then show ?thesis using Inr p True ok xs assms(1) [of "nat n" xs] by (auto simp: edit_element_def)
    next
      case False
      then have "elements_with m c n = None"
        using True as_arr_items(1) [of m c] by (auto simp: elements_with_def split: option.splits)
      then show ?thesis using Inr p True False assms(2) [of "nat n" "lists_of m c"] by (auto simp: edit_element_def)
    qed
  next
    case False
    then show ?thesis using Inr p
      by (auto simp: edit_element_def elements_with_def split: option.splits)
  qed
qed (simp add: edit_element_def)

lemma apply_one_spec:
  "(case edit_of op of None \<Rightarrow> \<exists>e. apply_one i op m = Inl e
    | Some (f, x) \<Rightarrow> (case apply_edit x (lists_of m f) of None \<Rightarrow> \<exists>e. apply_one i op m = Inl e
        | Some ys \<Rightarrow> f \<in> {''nodes'', ''edges''} \<and> apply_one i op m = Inr (AList.update f (GArr ys) m)))"
proof (cases "as_string (mget op ''op'') = None \<or> as_string (mget op ''path'') = None")
  case True
  then have "edit_of op = None \<and> (\<exists>e. apply_one i op m = Inl e)"
    by (cases "as_string (mget op ''op'')") (simp_all add: edit_of_def apply_one_def)
  then show ?thesis by simp
next
  case False
  then obtain t path where tp: "as_string (mget op ''op'') = Some t" "as_string (mget op ''path'') = Some path" by (metis option.exhaust)
    let ?v = "mget op ''value''"
    show ?thesis
    proof (cases "t = ''add''")
      case True
      then show ?thesis using tp as_arr_items [of m]
        by (auto simp: edit_of_def apply_one_def applyAddOperation_def split: option.splits)
    next
      case na: False
      show ?thesis
      proof (cases "t = ''remove''")
        case True
        show ?thesis
          using tp True edit_element_spec [where x = RemoveAt and f = "\<lambda>i xs. take i xs @ drop (i + 1) xs" and verb = "''remove''" and path = path and m = m]
          by (auto simp: edit_of_def apply_one_def applyRemoveOperation_def split: sum.splits prod.splits if_splits option.splits)
      next
        case nr: False
        show ?thesis
        proof (cases "t = ''replace''")
          case True
          show ?thesis
            using tp True edit_element_spec [where x = "\<lambda>i. ReplaceAt i ?v" and f = "\<lambda>i xs. xs[i := ?v]" and verb = "''replace''" and path = path and m = m]
            by (auto simp: edit_of_def apply_one_def applyReplaceOperation_def split: sum.splits prod.splits if_splits option.splits)
        qed (use tp na nr in \<open>simp add: edit_of_def apply_one_def\<close>)
      qed
    qed
qed

definition same_rest :: "gval smap \<Rightarrow> gval smap \<Rightarrow> bool" where
  "same_rest m m' \<longleftrightarrow> (\<forall>k \<in> - {''nodes'', ''edges''}. mget m' k = mget m k)"

lemma same_rest_update: "f \<in> {''nodes'', ''edges''} \<Longrightarrow> same_rest (AList.update f v m) m' = same_rest m m'"
  by (auto simp: same_rest_def)

definition edited :: "gval smap list \<Rightarrow> (string \<Rightarrow> gval list) \<Rightarrow> (string \<Rightarrow> gval list) option" where
  "edited ops ls = Option.bind (edits_of ops) (\<lambda>es. run_edits es ls)"

lemma edited_simps:
  "edited [] ls = Some ls"
  "edit_of op = None \<Longrightarrow> edited (op # ops) ls = None"
  "edit_of op = Some (f, x) \<Longrightarrow> apply_edit x (ls f) = None \<Longrightarrow> edited (op # ops) ls = None"
  "edit_of op = Some (f, x) \<Longrightarrow> apply_edit x (ls f) = Some ys \<Longrightarrow> edited (op # ops) ls = edited ops (ls(f := ys))"
  by (cases "edits_of ops"; simp add: edited_def)+

lemma apply_each_spec:
  "(case edited ops (lists_of m) of None \<Rightarrow> \<exists>e. apply_each i ops m = Inl e
    | Some ls \<Rightarrow> \<exists>m'. apply_each i ops m = Inr m' \<and> lists_of m' = ls \<and> same_rest m m')"
proof (induction ops arbitrary: i m)
  case Nil
  show ?case by (simp add: edited_simps same_rest_def)
next
  case (Cons op ops)
  show ?case
  proof (cases "edit_of op")
    case None
    then obtain e where "apply_one i op m = Inl e" using apply_one_spec [of i op m] by (auto simp only: option.case)
    then show ?thesis using None by (simp add: edited_simps)
  next
    case (Some p)
    obtain f x where p: "p = (f, x)" by (cases p)
    show ?thesis
    proof (cases "apply_edit x (lists_of m f)")
      case none: None
      then obtain e where "apply_one i op m = Inl e" using apply_one_spec [of i op m] Some p by (auto simp only: option.case prod.case)
      then show ?thesis using none Some p by (simp add: edited_simps)
    next
      case ys: (Some ys)
      then have a: "apply_one i op m = Inr (AList.update f (GArr ys) m)" "f \<in> {''nodes'', ''edges''}"
        using apply_one_spec [of i op m] Some p by (auto simp only: option.case prod.case)
      have "edited (op # ops) (lists_of m) = edited ops (lists_of (AList.update f (GArr ys) m))"
        unfolding lists_of_update by (rule edited_simps) (use Some p ys in simp_all)
      moreover have "apply_each i (op # ops) m = apply_each (i + 1) ops (AList.update f (GArr ys) m)" using a(1) by simp
      ultimately show ?thesis using Cons.IH [of "i + 1" "AList.update f (GArr ys) m"] unfolding same_rest_update [OF a(2)] by (simp only:)
    qed
  qed
qed

text \<open>C32. A patch edits the two lists of a document. A patch applies exactly if each of its operations denotes an edit of the nodes
  or the edges (append, remove or replace at a position) and the edits, made one after the other on the two lists of the document,
  stay within them; the result then has exactly the edited lists, and everything else of the document is as it was.\<close>

theorem patch_refines_edits:
  "(case Option.bind (edits_of ops) (\<lambda>es. run_edits es (lists_of m)) of None \<Rightarrow> \<exists>e. ApplyJSONPatchToWorkflow m ops = Inl e
    | Some ls \<Rightarrow> \<exists>m'. ApplyJSONPatchToWorkflow m ops = Inr m' \<and> lists_of m' = ls \<and> (\<forall>k \<in> - {''nodes'', ''edges''}. mget m' k = mget m k))"
  using apply_each_spec [of 0 ops m] unfolding ApplyJSONPatchToWorkflow_def edited_def same_rest_def .

definition sample_doc :: "gval smap" where
  "sample_doc = [(''name'', GStr ''w''), (''nodes'', GArr [GObj [(''id'', GStr ''a'')], GObj [(''id'', GStr ''b'')]])]"

definition sample_ops :: "gval smap list" where
  "sample_ops = [[(''op'', GStr ''add''), (''path'', GStr ''/nodes/-''), (''value'', GObj [(''id'', GStr ''c'')])],
     [(''op'', GStr ''remove''), (''path'', GStr ''/nodes/0'')]]"

theorem patch_refines_edits_witness:
  "\<exists>m'. ApplyJSONPatchToWorkflow sample_doc sample_ops = Inr m' \<and> lists_of m' ''nodes'' = [GObj [(''id'', GStr ''b'')], GObj [(''id'', GStr ''c'')]]"
proof -
  define es where "es = [(''nodes'', Append (GObj [(''id'', GStr ''c'')])), (''nodes'', RemoveAt 0)]"
  have 1: "edits_of sample_ops = Some es" unfolding es_def by code_simp
  have "\<exists>ls. run_edits es (lists_of sample_doc) = Some ls \<and> ls ''nodes'' = [GObj [(''id'', GStr ''b'')], GObj [(''id'', GStr ''c'')]]"
    by (simp add: es_def lists_of_def items_def sample_doc_def mget_def)
  then obtain ls where ls: "run_edits es (lists_of sample_doc) = Some ls" "ls ''nodes'' = [GObj [(''id'', GStr ''b'')], GObj [(''id'', GStr ''c'')]]" by blast
  have "Option.bind (edits_of sample_ops) (\<lambda>es. run_edits es (lists_of sample_doc)) = Some ls" using 1 ls(1) by simp
  with patch_refines_edits [of sample_doc sample_ops] ls(2) show ?thesis by (auto simp only: option.case)
qed

section \<open>The two patchers\<close>

lemma edit_of_add: "add_op ''nodes'' op \<Longrightarrow> edit_of op = Some (''nodes'', Append (mget op ''value''))"
  "add_op ''edges'' op \<Longrightarrow> edit_of op = Some (''edges'', Append (mget op ''value''))"
  by (simp_all add: add_op_def edit_of_def)

lemma client_agrees_one:
  "applyOperation (Some m) op = Ret (Inr (Some m')) \<longleftrightarrow> (add_op ''nodes'' op \<or> add_op ''edges'' op) \<and> apply_one i op m = Inr m'"
proof (cases "add_op ''nodes'' op \<or> add_op ''edges'' op")
  case True
  have "append_to f v (Some m) = Ret (Inr (Some (AList.update f (GArr (lists_of m f @ [v])) m)))" for f v
    by (simp add: append_to_def lists_of_def items_def)
  then show ?thesis using True apply_one_spec [of i op m]
    by (auto simp: edit_of_add) (auto simp: add_op_def applyOperation_def applyAdd_def)
next
  case False
  then show ?thesis using applyOperation_other [of op m] by auto
qed

text \<open>The runner's client and the API apply patches alike. The client succeeds on a document exactly if all operations of the
  patch add a node or an edge and the API's patcher succeeds, and then both give the same document; patches that remove or
  replace, which the API accepts and stores, make the client fail.\<close>

theorem client_applies_like_api:
  "apply_operations sq ops (Some m) = Ret (Inr (Some m')) \<longleftrightarrow> only_adds ops \<and> ApplyJSONPatchToWorkflow m ops = Inr m'"
proof -
  have "apply_operations sq ops (Some m) = Ret (Inr (Some m')) \<longleftrightarrow> only_adds ops \<and> apply_each i ops m = Inr m'" for i
  proof (induction ops arbitrary: i m)
    case (Cons op ops)
    show ?case
    proof (cases "add_op ''nodes'' op \<or> add_op ''edges'' op")
      case True
      from applyOperation_add [OF this, of m] obtain m1 where m1: "applyOperation (Some m) op = Ret (Inr (Some m1))" by blast
      then have "apply_one i op m = Inr m1" using client_agrees_one [of m op m1 i] by simp
      with m1 True Cons.IH [of m1 "i + 1"] show ?thesis by simp
    next
      case False
      with applyOperation_other [OF this, of m] show ?thesis by auto
    qed
  qed auto
  then show ?thesis by (simp add: ApplyJSONPatchToWorkflow_def)
qed

theorem client_applies_like_api_witness:
  "\<exists>m'. apply_operations 1 (take 1 sample_ops) (Some sample_doc) = Ret (Inr (Some m')) \<and> ApplyJSONPatchToWorkflow sample_doc (take 1 sample_ops) = Inr m'"
proof -
  define m' where "m' = (case apply_operations 1 (take 1 sample_ops) (Some sample_doc) of Ret (Inr (Some m)) \<Rightarrow> m | _ \<Rightarrow> [])"
  have 1: "apply_operations 1 (take 1 sample_ops) (Some sample_doc) = Ret (Inr (Some m'))" unfolding m'_def by code_simp
  with client_applies_like_api show ?thesis by blast
qed

section \<open>Agents in a validated patch\<close>

lemma validate_each_count: "validate_ops i ops n = Inr k \<Longrightarrow> k = n + length (filter adds_agent ops)"
proof (induction ops arbitrary: i n)
  case (Cons op ops)
  then have "validate_ops (i + 1) ops (if adds_agent op then n + 1 else n) = Inr k" by (auto split: sum.splits)
  from Cons.IH [OF this] show ?case by simp
qed simp

definition replaces :: "gval smap \<Rightarrow> bool" where "replaces op \<longleftrightarrow> mget op ''op'' = GStr ''replace''"

lemma as_string_iff: "as_string v = Some s \<longleftrightarrow> v = GStr s"
  by (cases v) auto

definition agents :: "gval list \<Rightarrow> nat" where "agents xs = length (filter is_agent xs)"

lemma agents_edit:
  "agents (xs @ [v]) = agents xs + (if is_agent v then 1 else 0)" "agents (take i xs @ drop (i + 1) xs) \<le> agents xs"
  "agents (xs[i := v]) \<le> agents xs + 1"
proof -
  show "agents (take i xs @ drop (i + 1) xs) \<le> agents xs" unfolding agents_def
    by (subst (3) append_take_drop_id [of i xs, symmetric]) (cases "drop i xs"; simp add: drop_Suc tl_drop [symmetric])
  show "agents (xs[i := v]) \<le> agents xs + 1" unfolding agents_def
    by (induction xs arbitrary: i) (auto split: nat.splits)
qed (simp add: agents_def)

lemma inspect_agents: "p_agents (InspectWorkflow m) = (case mget m ''nodes'' of GArr xs \<Rightarrow> agents xs | GObj xs \<Rightarrow> agents (map snd xs) | _ \<Rightarrow> 0)"
  by (simp add: InspectWorkflow_def Let_def agents_def split: gval.split)

lemma apply_one_agents:
  assumes "apply_one i op m = Inr m'"
  shows "p_agents (InspectWorkflow m') \<le> p_agents (InspectWorkflow m) + (if adds_agent op then 1 else 0) + (if replaces op then 1 else 0)"
proof -
  from assms apply_one_spec [of i op m] obtain f x ys where e: "edit_of op = Some (f, x)" "apply_edit x (lists_of m f) = Some ys"
    "m' = AList.update f (GArr ys) m" "f \<in> {''nodes'', ''edges''}"
    by (auto split: option.splits)
  show ?thesis
  proof (cases "f = ''nodes''")
    case True
    have "agents (lists_of m ''nodes'') \<le> p_agents (InspectWorkflow m)"
      by (simp add: inspect_agents lists_of_def items_def agents_def split: gval.split)
    moreover have "p_agents (InspectWorkflow m') = agents ys" using e True by (simp add: inspect_agents)
    moreover have "agents ys \<le> agents (lists_of m ''nodes'') + (if adds_agent op then 1 else 0) + (if replaces op then 1 else 0)"
    proof (cases x)
      case (Append v)
      then have "v = mget op ''value''" "mget op ''op'' = GStr ''add''" "mget op ''path'' = GStr ''/nodes/-''"
        using e(1) True by (auto simp: edit_of_def as_string_iff split: option.splits if_splits sum.splits)
      then show ?thesis using e(2) True Append by (auto simp: agents_edit adds_agent_def)
    next
      case (RemoveAt j)
      then show ?thesis using e(2) True agents_edit(2) [of j "lists_of m ''nodes''"] by (auto split: if_splits)
    next
      case (ReplaceAt j v)
      then have "replaces op" using e(1) by (auto simp: edit_of_def as_string_iff replaces_def split: option.splits if_splits sum.splits)
      then show ?thesis using e(2) True ReplaceAt agents_edit(3) [of "lists_of m ''nodes''" j v] by (auto split: if_splits)
    qed
    ultimately show ?thesis by linarith
  next
    case False
    then show ?thesis using e by (simp add: inspect_agents)
  qed
qed

text \<open>A validated patch adds at most five agents, apart from replacements. If a patch passes the validator and applies, the
  agent count that the rate limiter determines grows by at most five plus the number of replace operations; replaced nodes are not counted
  by the validator.\<close>

theorem validated_patch_bounds_agents:
  assumes "ValidateOperations ops = Inr ()" and "ApplyJSONPatchToWorkflow m ops = Inr m'"
  shows "p_agents (InspectWorkflow m') \<le> p_agents (InspectWorkflow m) + 5 + length (filter replaces ops)"
proof -
  have "length (filter adds_agent ops) \<le> 5"
    using assms(1) by (auto simp: ValidateOperations_def split: sum.splits if_splits dest: validate_each_count)
  moreover have "apply_each i ops m = Inr m' \<Longrightarrow>
    p_agents (InspectWorkflow m') \<le> p_agents (InspectWorkflow m) + length (filter adds_agent ops) + length (filter replaces ops)" for i
  proof (induction ops arbitrary: i m)
    case (Cons op ops)
    then obtain m1 where m1: "apply_one i op m = Inr m1" "apply_each (i + 1) ops m1 = Inr m'" by (auto split: sum.splits)
    show ?case using Cons.IH [OF m1(2)] apply_one_agents [OF m1(1)] by (auto split: if_splits)
  qed simp
  ultimately show ?thesis using assms(2) by (fastforce simp: ApplyJSONPatchToWorkflow_def)
qed

definition sneaky_ops :: "gval smap list" where
  "sneaky_ops = concat (map (\<lambda>s. [[(''op'', GStr ''add''), (''path'', GStr ''/nodes/-''), (''value'', GObj [(''id'', GStr s), (''type'', GStr ''http'')])],
      [(''op'', GStr ''replace''), (''path'', GStr (''/nodes/'' @ s)), (''value'', GObj [(''id'', GStr s), (''type'', GStr ''agent'')])]])
     [''0'', ''1'', ''2'', ''3'', ''4'', ''5''])"

theorem validated_patch_bounds_agents_witness:
  "\<exists>m'. ValidateOperations sneaky_ops = Inr () \<and> ApplyJSONPatchToWorkflow [] sneaky_ops = Inr m' \<and> p_agents (InspectWorkflow m') \<le> 11
     \<and> p_agents (InspectWorkflow m') = 6"
proof -
  define m' where "m' = (case ApplyJSONPatchToWorkflow [] sneaky_ops of Inr m \<Rightarrow> m | Inl _ \<Rightarrow> [])"
  have 1: "ApplyJSONPatchToWorkflow [] sneaky_ops = Inr m'" unfolding m'_def by code_simp
  have 2: "ValidateOperations sneaky_ops = Inr ()" by code_simp
  have 3: "length (filter replaces sneaky_ops) = 6" "p_agents (InspectWorkflow []) = 0" by code_simp+
  have 4: "p_agents (InspectWorkflow m') = 6" unfolding m'_def by code_simp
  from validated_patch_bounds_agents [OF 2 1] 1 2 3 4 show ?thesis by (intro exI [of _ m']) simp
qed

end
