(* ===== verification/Run_Service.thy ===== *)
theory Run_Service
  imports Run_Patches Rate_Limit Executor Workflow_Patch
begin

text \<open>
  The run service of the orchestrator (\<open>cmd/orchestrator/service/run.go\<close>): it freezes the workflow of a tag, checks the
  rate limit, records the run and hands it to the runner, and it assembles what is known about a run from the database and Redis.
  Also the bulk reads of \<open>common/redis/client.go\<close> that it uses and the JSON form of the intermediate representation
  (\<open>common/sdk/types.go\<close>).

  The service works on the database, on Redis and on the limiter's counters; \<open>site\<close> holds the three.
  An absent list of the representation is written as the empty list, and a workflow document \<open>null\<close> is the empty document.

  The lemmas show that a run executes the workflow that its tag named when it was created, whatever happens to the
  tag later, that an error hands nothing to the runner, and what the details of a run say about its nodes.
\<close>

section \<open>The site\<close>

record site =
  st_db :: db
  st_redis :: world
  st_limits :: limits

definition on_db :: "'a dbio \<Rightarrow> (site, 'a) state" where
  "on_db m = State (\<lambda>s. case run_state m (st_db s) of (a, d) \<Rightarrow> (a, s\<lparr>st_db := d\<rparr>))"

definition on_redis :: "'a io \<Rightarrow> (site, 'a) state" where
  "on_redis m = State (\<lambda>s. case run_state m (st_redis s) of (a, w) \<Rightarrow> (a, s\<lparr>st_redis := w\<rparr>))"

lemma run_on_db [simp]: "run_state (on_db m) s = (case run_state m (st_db s) of (a, d) \<Rightarrow> (a, s\<lparr>st_db := d\<rparr>))"
  by (simp add: on_db_def)

lemma run_on_redis [simp]: "run_state (on_redis m) s = (case run_state m (st_redis s) of (a, w) \<Rightarrow> (a, s\<lparr>st_redis := w\<rparr>))"
  by (simp add: on_redis_def)

section \<open>Creating a run\<close>

record create_run_request =
  rc_tag :: string
  rc_username :: string
  rc_inputs :: "gval smap"

record create_run_response =
  resp_run_id :: string
  resp_artifact_id :: string
  resp_status :: string
  resp_tag :: string

datatype run_error = RunError string | RateLimitError tier int int int

definition RateLimitError_Error :: "tier \<Rightarrow> int \<Rightarrow> int \<Rightarrow> string" where
  "RateLimitError_Error t limit retry = ''rate limit exceeded: '' @ tier_String t @ '' tier allows '' @ show_int limit
     @ '' runs/minute, retry after '' @ show_int retry @ '' seconds''"

text \<open>The limiter runs its script in Redis, on the clock of the server in milliseconds.\<close>

definition check_rate :: "env \<Rightarrow> string \<Rightarrow> tier \<Rightarrow> (site, limit_result res) state" where
  "check_rate r username t = do {
     reached \<leftarrow> on_redis (attempt r (OpEval (tier_key username t)));
     now_ms \<leftarrow> on_redis (now (\<lambda>k. int (nano r k) div 1000000));
     State (\<lambda>s. case CheckTieredLimit reached username t now_ms (st_limits s) of (res, l) \<Rightarrow> (res, s\<lparr>st_limits := l\<rparr>))}"

definition frozen_artifact :: "create_run_request \<Rightarrow> string \<Rightarrow> string \<Rightarrow> artifact" where
  "frozen_artifact req i casID = (new_artifact i KindDAGVersion casID (rc_username req) zero_time)\<lparr>ar_version_hash := Some casID\<rparr>"

definition run_row_of :: "create_run_request \<Rightarrow> string \<Rightarrow> string \<Rightarrow> int \<Rightarrow> run" where
  "run_row_of req runID artifactID t = \<lparr>rn_id = runID, rn_base_kind = ''dag_version'', rn_base_ref = artifactID,
     rn_tags_snapshot = [(rc_tag req, artifactID)], rn_status = StatusQueued, rn_submitted_by = Some (rc_username req), rn_submitted_at = t\<rparr>"

text \<open>Steps 3 to 7 of \<open>CreateRun\<close>: the frozen workflow, its artifact and the run's row; the result is the run and the artifact.\<close>

definition store_run :: "dbenv \<Rightarrow> create_run_request \<Rightarrow> gval smap \<Rightarrow> (string \<times> string) res dbio" where
  "store_run e req workflow =
     check (StoreContent e (marshal e (GObj workflow)) ''application/json;type=workflow'') ''failed to store workflow in CAS: '' (\<lambda>casID.
     State_Monad.bind (reading (db_uuid e)) (\<lambda>i.
     check (art_Create e (frozen_artifact req i casID)) ''failed to create artifact: '' (\<lambda>_.
     State_Monad.bind (reading (db_uuid e)) (\<lambda>j.
     State_Monad.bind (reading (db_now e)) (\<lambda>t.
     check (run_Create e (run_row_of req j i t)) ''failed to create run: '' (\<lambda>_. ok (j, i)))))))"

definition publish_run :: "env \<Rightarrow> create_run_request \<Rightarrow> string \<Rightarrow> string \<Rightarrow> (site, run_error + create_run_response) state" where
  "publish_run r req runID artifactID = do {
     x \<leftarrow> on_redis (redis_AddToStream r request_stream
        (ERun \<lparr>rq_run_id = runID, rq_artifact_id = artifactID, rq_tag = rc_tag req, rq_username = rc_username req, rq_inputs = rc_inputs req\<rparr>));
     State_Monad.return (case x of Inl msg \<Rightarrow> Inl (RunError (''failed to publish run request: '' @ msg))
       | Inr _ \<Rightarrow> Inr \<lparr>resp_run_id = runID, resp_artifact_id = artifactID, resp_status = StatusQueued, resp_tag = rc_tag req\<rparr>)}"

text \<open>The part of \<open>CreateRun\<close> after the workflow is known.\<close>

definition start_run :: "dbenv \<Rightarrow> env \<Rightarrow> create_run_request \<Rightarrow> gval smap \<Rightarrow> (site, run_error + create_run_response) state" where
  "start_run e r req workflow = (let t = p_tier (InspectWorkflow workflow) in do {
     limit \<leftarrow> check_rate r (rc_username req) t;
     if (case limit of Inl _ \<Rightarrow> False | Inr res \<Rightarrow> \<not> lr_allowed res)
     then State_Monad.return (case limit of Inr res \<Rightarrow> Inl (RateLimitError t (lr_limit res) (lr_count res) (lr_retry res)) | Inl x \<Rightarrow> Inl (RunError x))
     else do {
       stored \<leftarrow> on_db (store_run e req workflow);
       (case stored of Inl x \<Rightarrow> State_Monad.return (Inl (RunError x))
        | Inr (runID, artifactID) \<Rightarrow> publish_run r req runID artifactID)}})"

definition CreateRun :: "dbenv \<Rightarrow> env \<Rightarrow> create_run_request \<Rightarrow> (site, run_error + create_run_response) state" where
  "CreateRun e r req = do {
     c \<leftarrow> on_db (GetWorkflowComponents e (rc_username req) (rc_tag req));
     (case c of Inl x \<Rightarrow> State_Monad.return (Inl (RunError (''failed to get workflow components: '' @ x)))
      | Inr wcs \<Rightarrow> (case Materialize e wcs of Inl x \<Rightarrow> State_Monad.return (Inl (RunError (''failed to materialize workflow: '' @ x)))
        | Inr workflow \<Rightarrow> start_run e r req workflow))}"

definition service_GetRun :: "dbenv \<Rightarrow> string \<Rightarrow> run res dbio" where "service_GetRun e runID = run_GetByID e runID"
definition service_UpdateRunStatus :: "dbenv \<Rightarrow> string \<Rightarrow> string \<Rightarrow> unit res dbio" where "service_UpdateRunStatus e runID status = run_UpdateStatus e runID status"
definition ListUserRuns :: "dbenv \<Rightarrow> string \<Rightarrow> int \<Rightarrow> run list res dbio" where "ListUserRuns e username limit = run_ListByUser e username limit"
definition ListRunsForWorkflow :: "dbenv \<Rightarrow> string \<Rightarrow> int \<Rightarrow> run list res dbio" where "ListRunsForWorkflow e tag limit = run_ListByWorkflowTag e tag limit"

section \<open>What creating a run does\<close>

definition stored_run :: "dbenv \<Rightarrow> create_run_request \<Rightarrow> gval smap \<Rightarrow> (string \<times> string) res \<Rightarrow> db \<Rightarrow> db \<Rightarrow> bool" where
  "stored_run e req workflow r d d' \<longleftrightarrow> (case r of Inl _ \<Rightarrow> d_run_rows d' = d_run_rows d
     | Inr (j, i) \<Rightarrow> (\<exists>a t. find_artifact d' i = Some a \<and> ar_kind a = KindDAGVersion \<and> content_at d' (ar_cas_id a) = Some (marshal e (GObj workflow))
          \<and> d_run_rows d' = d_run_rows d @ [run_row_of req j i t]))"

lemma frozen_artifact_fields [simp]:
  "ar_id (frozen_artifact req i c) = i" "ar_kind (frozen_artifact req i c) = KindDAGVersion"
  "ar_cas_id (frozen_artifact req i c) = c" "ar_version_hash (frozen_artifact req i c) = Some c"
  by (simp_all add: frozen_artifact_def new_artifact_def)

lemma run_Create_run:
  "run_state (run_Create e x) d = (r, d') \<Longrightarrow>
     r = Inr () \<and> d' = d\<lparr>d_run_rows := d_run_rows d @ [x], d_tick := Suc (d_tick d)\<rparr> \<or> (\<exists>y. r = Inl y) \<and> d' = d\<lparr>d_tick := Suc (d_tick d)\<rparr>"
  by (auto simp: run_Create_def run_check run_query split: option.splits prod.splits sum.splits)

lemma kept_run_rows: "kept.always m \<Longrightarrow> run_state m d = (r, d') \<Longrightarrow> d_run_rows d' = d_run_rows d"
  using kept.alwaysD [of m d r d'] by (simp add: accrues_def)

lemma tick_step: "(run_step parse e)\<^sup>*\<^sup>* d (d\<lparr>d_tick := n\<rparr>)"
  by (rule r_into_rtranclp, rule run_step.query) simp

lemma store_run_steps:
  assumes run: "run_state (store_run e req workflow) d = (r, d')"
    and st: "\<And>d1. run_state (StoreContent e (marshal e (GObj workflow)) ''application/json;type=workflow'') d = (Inr (ComputeHash e (marshal e (GObj workflow))), d1) \<Longrightarrow>
      content_at d1 (ComputeHash e (marshal e (GObj workflow))) = Some (marshal e (GObj workflow))"
  shows "(run_step parse e)\<^sup>*\<^sup>* d d' \<and> stored_run e req workflow r d d'"
proof -
  let ?text = "marshal e (GObj workflow)"
  have store: "(run_step parse e)\<^sup>*\<^sup>* d d1" if "run_state (StoreContent e ?text ''application/json;type=workflow'') d = (q, d1)" for q d1
    by (rule r_into_rtranclp, rule run_step.content [OF that])
  from run show ?thesis unfolding store_run_def
  proof (cases rule: check_cases)
    case (err x)
    then show ?thesis using store [OF err(1)] kept_run_rows [OF kept_tables(1) err(1)] by (simp add: stored_run_def)
  next
    case (cont c d1)
    have c: "c = ComputeHash e ?text" using db_cas.store_ok [OF cont(1)] by simp
    have ct: "content_at d1 c = Some ?text" using st [OF cont(1) [unfolded c]] c by simp
    have rows1: "d_run_rows d1 = d_run_rows d" by (rule kept_run_rows [OF kept_tables(1) cont(1)])
    define i where "i = db_uuid e (d_tick d1)"
    define a where "a = frozen_artifact req i c"
    define d2 where "d2 = d1\<lparr>d_tick := Suc (d_tick d1)\<rparr>"
    have s2: "(run_step parse e)\<^sup>*\<^sup>* d d2" using store [OF cont(1)] tick_step [of parse e d1 "Suc (d_tick d1)"] by (simp add: d2_def)
    from cont(2) have "run_state (check (art_Create e a) ''failed to create artifact: '' (\<lambda>_. State_Monad.bind (reading (db_uuid e)) (\<lambda>j.
       State_Monad.bind (reading (db_now e)) (\<lambda>t. check (run_Create e (run_row_of req j i t)) ''failed to create run: '' (\<lambda>_. ok (j, i)))))) d2 = (r, d')"
      by (simp add: i_def a_def d2_def)
    then show ?thesis
    proof (cases rule: check_cases)
      case (err x)
      have "run_step parse e d2 d'" by (rule run_step.frozen [OF err(1)]) (simp_all add: a_def)
      then show ?thesis using s2 err(2) kept_run_rows [OF kept_rows(1) err(1)] rows1 by (auto simp: stored_run_def d2_def)
    next
      case (cont z d3)
      have s3: "(run_step parse e)\<^sup>*\<^sup>* d d3" using s2 run_step.frozen [OF cont(1), where parse = parse] by (auto simp: a_def intro: rtranclp.rtrancl_into_rtrancl)
      have v: "artifact_violation d2 a = None" "d3 = d2\<lparr>d_artifacts := d_artifacts d2 @ [a], d_tick := Suc (d_tick d2)\<rparr>"
        using art_Create_run [OF cont(1)] by auto
      have fa: "find_artifact d3 i = Some a" using created_artifact_ok(3) [OF v(1) _ v(2)] by (simp add: a_def)
      have rows3: "d_run_rows d3 = d_run_rows d" using kept_run_rows [OF kept_rows(1) cont(1)] rows1 by (simp add: d2_def)
      have ct3: "content_at d3 c = Some ?text" using ct v(2) by (simp add: d2_def content_at_def find_blob_def)
      define d4 where "d4 = d3\<lparr>d_tick := Suc (Suc (d_tick d3))\<rparr>"
      have s4: "(run_step parse e)\<^sup>*\<^sup>* d d4" using s3 tick_step [of parse e d3 "Suc (Suc (d_tick d3))"] by (simp add: d4_def)
      let ?row = "run_row_of req (db_uuid e (d_tick d3)) i (db_now e (Suc (d_tick d3)))"
      from cont(2) have "run_state (check (run_Create e ?row) ''failed to create run: '' (\<lambda>_. ok (db_uuid e (d_tick d3), i))) d4 = (r, d')"
        by (simp add: d4_def)
      then show ?thesis
      proof (cases rule: check_cases)
        case (err x)
        then show ?thesis using s4 run_step.row [OF err(1), of parse] run_Create_run [OF err(1)] rows3 by (auto simp: stored_run_def d4_def intro: rtranclp.rtrancl_into_rtrancl)
      next
        case (cont y d5)
        have d5: "d5 = d4\<lparr>d_run_rows := d_run_rows d4 @ [?row], d_tick := Suc (d_tick d4)\<rparr>" using run_Create_run [OF cont(1)] by auto
        have "(run_step parse e)\<^sup>*\<^sup>* d d5" using s4 run_step.row [OF cont(1), of parse] by (rule rtranclp.rtrancl_into_rtrancl)
        moreover have "find_artifact d5 i = Some a" "content_at d5 c = Some ?text" "d_run_rows d5 = d_run_rows d @ [?row]"
          using fa ct3 rows3 by (simp_all add: d5 d4_def find_artifact_def content_at_def find_blob_def)
        ultimately show ?thesis using cont(2) by (auto simp: stored_run_def a_def)
      qed
    qed
  qed
qed

lemma store_run_quiet:
  assumes "run_state (store_run e req workflow) d = (r, d')"
  shows "quiet e d d'"
  using assms unfolding store_run_def
proof (cases rule: check_cases)
  case (err x)
  then show ?thesis using quiet_StoreContent by simp
next
  case (cont c d1)
  let ?i = "db_uuid e (d_tick d1)" and ?d2 = "d1\<lparr>d_tick := Suc (d_tick d1)\<rparr>"
  have q2: "quiet e d ?d2" by (rule quiet_trans [OF quiet_StoreContent [OF cont(1)] quiet_untick]) simp
  from cont(2) have "run_state (check (art_Create e (frozen_artifact req ?i c)) ''failed to create artifact: '' (\<lambda>_. State_Monad.bind (reading (db_uuid e)) (\<lambda>j.
     State_Monad.bind (reading (db_now e)) (\<lambda>t. check (run_Create e (run_row_of req j ?i t)) ''failed to create run: '' (\<lambda>_. ok (j, ?i)))))) ?d2 = (r, d')"
    by simp
  then show ?thesis
  proof (cases rule: check_cases)
    case (err x)
    have "quiet e ?d2 d'" by (rule quiet_art_Create [OF err(1)]) simp
    then show ?thesis by (rule quiet_trans [OF q2])
  next
    case (cont z d3)
    have "quiet e ?d2 d3" by (rule quiet_art_Create [OF cont(1)]) simp
    then have q3: "quiet e d (d3\<lparr>d_tick := Suc (Suc (d_tick d3))\<rparr>)" by (rule quiet_trans [OF quiet_trans [OF q2] quiet_untick]) simp
    let ?row = "run_row_of req (db_uuid e (d_tick d3)) ?i (db_now e (Suc (d_tick d3)))"
    from cont(2) have "run_state (check (run_Create e ?row) ''failed to create run: '' (\<lambda>_. ok (db_uuid e (d_tick d3), ?i))) (d3\<lparr>d_tick := Suc (Suc (d_tick d3))\<rparr>) = (r, d')"
      by simp
    then show ?thesis by (cases rule: check_cases) (auto dest: quiet_rows(1) intro: quiet_trans [OF q3])
  qed
qed

lemma store_run_rows:
  assumes "run_state (store_run e req workflow) d = (r, d')"
  shows "case r of Inl _ \<Rightarrow> d_run_rows d' = d_run_rows d | Inr _ \<Rightarrow> \<exists>row. d_run_rows d' = d_run_rows d @ [row]"
  using assms unfolding store_run_def
proof (cases rule: check_cases)
  case (err x)
  then show ?thesis using kept_run_rows [OF kept_tables(1) err(1)] by simp
next
  case (cont c d1)
  note k1 = kept_run_rows [OF kept_tables(1) cont(1)]
  let ?i = "db_uuid e (d_tick d1)" and ?d2 = "d1\<lparr>d_tick := Suc (d_tick d1)\<rparr>"
  from cont(2) have "run_state (check (art_Create e (frozen_artifact req ?i c)) ''failed to create artifact: '' (\<lambda>_. State_Monad.bind (reading (db_uuid e)) (\<lambda>j.
     State_Monad.bind (reading (db_now e)) (\<lambda>t. check (run_Create e (run_row_of req j ?i t)) ''failed to create run: '' (\<lambda>_. ok (j, ?i)))))) ?d2 = (r, d')"
    by simp
  then show ?thesis
  proof (cases rule: check_cases)
    case (err x)
    then show ?thesis using kept_run_rows [OF kept_rows(1) err(1)] k1 by simp
  next
    case (cont z d3)
    then show ?thesis using kept_run_rows [OF kept_rows(1) cont(1)] k1
      by (auto simp: run_check dest!: run_Create_run split: prod.splits sum.splits)
  qed
qed

lemma check_rate_run:
  assumes "run_state (check_rate r u t) s = (res, s')"
  shows "st_db s' = st_db s" "r_streams (st_redis s') = r_streams (st_redis s)"
    "res = Inr x \<Longrightarrow> lr_limit x = GetLimitForTier t \<and> (lr_allowed x \<longleftrightarrow> lr_count x \<le> lr_limit x)"
  using assms
  by (auto simp: check_rate_def CheckTieredLimit_def checkLimit_def rate_limit_script_def Let_def split: prod.splits if_splits sum.splits)

lemma publish_run_cases:
  assumes "run_state (publish_run r req j i) s = (res, s')"
  shows "st_db s' = st_db s" "res = Inl x \<Longrightarrow> r_streams (st_redis s') = r_streams (st_redis s)"
    "res = Inr y \<Longrightarrow> resp_run_id y = j \<and> resp_artifact_id y = i \<and> resp_status y = StatusQueued \<and> r_streams (st_redis s') = (r_streams (st_redis s))(request_stream :=
       r_streams (st_redis s) request_stream @ [ERun \<lparr>rq_run_id = j, rq_artifact_id = i, rq_tag = rc_tag req, rq_username = rc_username req, rq_inputs = rc_inputs req\<rparr>])"
  using assms by (auto simp: publish_run_def redis_AddToStream_def split: prod.splits sum.splits if_splits)

lemma publish_failed: "run_state (publish_run r req j i) s = (Inl x, s') \<Longrightarrow> \<exists>msg. x = RunError (''failed to publish run request: '' @ msg)"
  by (auto simp: publish_run_def split: prod.splits sum.splits)

lemma start_run_cases:
  assumes "run_state (start_run e r req workflow) s = (res, s')"
  obtains (limited) x where "run_state (check_rate r (rc_username req) (p_tier (InspectWorkflow workflow))) s = (Inr x, s')" "\<not> lr_allowed x"
      "res = Inl (RateLimitError (p_tier (InspectWorkflow workflow)) (lr_limit x) (lr_count x) (lr_retry x))"
    | (failed) q s1 x d2 where "run_state (check_rate r (rc_username req) (p_tier (InspectWorkflow workflow))) s = (q, s1)"
      "run_state (store_run e req workflow) (st_db s1) = (Inl x, d2)" "res = Inl (RunError x)" "s' = s1\<lparr>st_db := d2\<rparr>"
    | (stored) q s1 j i d2 where "run_state (check_rate r (rc_username req) (p_tier (InspectWorkflow workflow))) s = (q, s1)"
      "run_state (store_run e req workflow) (st_db s1) = (Inr (j, i), d2)" "run_state (publish_run r req j i) (s1\<lparr>st_db := d2\<rparr>) = (res, s')"
proof -
  obtain q s1 where q: "run_state (check_rate r (rc_username req) (p_tier (InspectWorkflow workflow))) s = (q, s1)" by (cases "run_state (check_rate r (rc_username req) (p_tier (InspectWorkflow workflow))) s")
  obtain u d2 where u: "run_state (store_run e req workflow) (st_db s1) = (u, d2)" by (cases "run_state (store_run e req workflow) (st_db s1)")
  show thesis
  proof (cases "case q of Inl _ \<Rightarrow> False | Inr x \<Rightarrow> \<not> lr_allowed x")
    case True
    then obtain x where "q = Inr x" "\<not> lr_allowed x" by (cases q) auto
    then show thesis using limited [of x] assms q by (simp add: start_run_def Let_def)
  next
    case False
    then have r: "(case u of Inl x \<Rightarrow> State_Monad.return (Inl (RunError x)) | Inr (runID, artifactID) \<Rightarrow> publish_run r req runID artifactID) = m \<Longrightarrow>
        run_state m (s1\<lparr>st_db := d2\<rparr>) = (res, s')" for m
      using assms q u by (auto simp: start_run_def Let_def)
    show thesis
    proof (cases u)
      case (Inl x)
      then show thesis using failed [OF q u [unfolded Inl]] r by auto
    next
      case (Inr p)
      obtain j i where "p = (j, i)" by (cases p)
      then show thesis using stored [OF q u [unfolded Inr \<open>p = (j, i)\<close>]] r Inr by auto
    qed
  qed
qed

lemma CreateRun_split:
  "run_state (CreateRun e r req) s = (case run_state (GetWorkflowComponents e (rc_username req) (rc_tag req)) (st_db s) of
     (Inl x, d) \<Rightarrow> (Inl (RunError (''failed to get workflow components: '' @ x)), s\<lparr>st_db := d\<rparr>)
   | (Inr wcs, d) \<Rightarrow> (case Materialize e wcs of Inl x \<Rightarrow> (Inl (RunError (''failed to materialize workflow: '' @ x)), s\<lparr>st_db := d\<rparr>)
       | Inr workflow \<Rightarrow> run_state (start_run e r req workflow) (s\<lparr>st_db := d\<rparr>)))"
  by (simp add: CreateRun_def split: prod.split sum.split)

lemma reads_components: "reads (GetWorkflowComponents e u n)"
  unfolding GetWorkflowComponents_def resolveTagToArtifact_def loadDAGVersionComponents_def loadPatchSetComponents_def loadBaseDAG_def loadPatchChain_def Let_def
  by (auto intro!: reads_intros split: option.split sum.split)

text \<open>C27. A run executes the workflow its tag named when it was created. With a working database, a run that is accepted for a tag whose
  version materializes to a workflow has an artifact with exactly the text of this workflow, one new row with status QUEUED that refers to it,
  and one new request with both ids on the runner's stream; no workflow changes. Whatever is created, patched, compacted,
  moved or deleted afterwards, the artifact and its text stay.\<close>

theorem run_freezes_workflow:
  assumes "(run_step parse e)\<^sup>*\<^sup>* empty_db (st_db s)" and "db_reliable e"
    and "versions (st_db s) (rc_username req, rc_tag req) = Some (c, ps)" and "apply_all e c ps = Some text" and "unmarshalWorkflow e text = Inr workflow"
    and "no_collision e (st_db s) (marshal e (GObj workflow))" and "run_state (CreateRun e r req) s = (Inr y, s')" and "(run_step parse e)\<^sup>*\<^sup>* (st_db s') d"
  shows "(\<exists>a. find_artifact d (resp_artifact_id y) = Some a \<and> ar_kind a = KindDAGVersion \<and> content_at d (ar_cas_id a) = Some (marshal e (GObj workflow)))
    \<and> (\<exists>t. d_run_rows (st_db s') = d_run_rows (st_db s) @ [run_row_of req (resp_run_id y) (resp_artifact_id y) t])
    \<and> r_streams (st_redis s') request_stream = r_streams (st_redis s) request_stream
        @ [ERun \<lparr>rq_run_id = resp_run_id y, rq_artifact_id = resp_artifact_id y, rq_tag = rc_tag req, rq_username = rc_username req, rq_inputs = rc_inputs req\<rparr>]
    \<and> versions (st_db s') = versions (st_db s) \<and> (run_step parse e)\<^sup>*\<^sup>* empty_db d"
proof -
  have ok: "runs_ok e (st_db s)" by (rule runs_reachable_ok [OF assms(1)])
  then have cok: "catalog_ok e (st_db s)" by (simp add: runs_ok_def)
  from GetWorkflowComponents_reads [OF assms(2) cok assms(3)] obtain w m where
    w: "run_state (GetWorkflowComponents e (rc_username req) (rc_tag req)) (st_db s) = (Inr w, (st_db s)\<lparr>d_tick := m\<rparr>)" "holds_version w c ps" by blast
  let ?s = "s\<lparr>st_db := (st_db s)\<lparr>d_tick := m\<rparr>\<rparr>"
  have mat: "Materialize e w = Inr workflow" using Materialize_eq [OF w(2) assms(4)] assms(5) by simp
  have run: "run_state (start_run e r req workflow) ?s = (Inr y, s')" using assms(7) w(1) mat by (simp add: CreateRun_split)
  have tok: "catalog_ok e ((st_db s)\<lparr>d_tick := m\<rparr>)" by (rule catalog_ok_untick [OF _ cok]) simp
  have tnc: "no_collision e ((st_db s)\<lparr>d_tick := m\<rparr>) (marshal e (GObj workflow))" using assms(6) by (simp add: no_collision_def)
  from run show ?thesis
  proof (cases rule: start_run_cases)
    case (stored q s1 j i d2)
    have s1: "st_db s1 = (st_db s)\<lparr>d_tick := m\<rparr>" "r_streams (st_redis s1) = r_streams (st_redis s)" using check_rate_run [OF stored(1)] by auto
    have sr: "(run_step parse e)\<^sup>*\<^sup>* (st_db s1) d2 \<and> stored_run e req workflow (Inr (j, i)) (st_db s1) d2"
      by (rule store_run_steps [OF stored(2)]) (use StoreContent_stored(2) [OF tok tnc] s1 in auto)
    note p = publish_run_cases [OF stored(3)]
    have ids: "resp_run_id y = j" "resp_artifact_id y = i" using p(3) by auto
    have db': "st_db s' = d2" using p(1) by simp
    have steps: "(run_step parse e)\<^sup>*\<^sup>* (st_db s) d2"
      using sr s1 tick_step [of parse e "st_db s" m] by (metis rtranclp_trans)
    obtain a t where a: "find_artifact d2 i = Some a" "ar_kind a = KindDAGVersion" "content_at d2 (ar_cas_id a) = Some (marshal e (GObj workflow))"
      "d_run_rows d2 = d_run_rows (st_db s) @ [run_row_of req j i t]" using sr s1 by (auto simp: stored_run_def)
    have "stays d2 d" using run_steps_stay assms(8) db' by blast
    from stays_lookup [OF this] a have "find_artifact d i = Some a" "content_at d (ar_cas_id a) = Some (marshal e (GObj workflow))" by auto
    moreover have "versions d2 = versions (st_db s)"
      using quiet_keeps(3) [OF ok quiet_trans [OF quiet_untick store_run_quiet [OF stored(2)]]] s1 by simp
    ultimately show ?thesis using a p(3) ids db' s1 steps assms(1,8) by (auto intro: rtranclp_trans)
  qed auto
qed

definition sample_site :: site where
  "sample_site = \<lparr>st_db = run_db1, st_redis = empty_world, st_limits = (\<lambda>_. None)\<rparr>"

definition sample_run_request :: create_run_request where
  "sample_run_request = \<lparr>rc_tag = ''main'', rc_username = ''alice'', rc_inputs = [(''x'', GBool True)]\<rparr>"

definition sample_workflow :: "gval smap" where
  "sample_workflow = [(''operations'', GArr [GObj [(''op'', GStr ''remove'')]])]"

definition busy_site :: site where
  "busy_site = sample_site\<lparr>st_limits := (\<lambda>_. Some (100, 1000))\<rparr>"

lemma sample_site_reached: "(run_step Inr run_dbenv)\<^sup>*\<^sup>* empty_db (st_db sample_site)"
proof -
  have "run_step Inr run_dbenv empty_db run_db1" unfolding run_db1_def
    by (rule run_step.workflow, rule store_step.create [OF prod.collapse [symmetric]]) simp
  then show ?thesis by (simp add: sample_site_def)
qed

lemma sample_site_version:
  "versions (st_db sample_site) (''alice'', ''main'') = Some (''{}'', [])" "apply_all run_dbenv ''{}'' [] = Some ''{}''"
  "unmarshalWorkflow run_dbenv ''{}'' = Inr sample_workflow"
  by code_simp+

lemma sample_run_created: "\<exists>y s'. run_state (CreateRun run_dbenv calm_env sample_run_request) sample_site = (Inr y, s')"
proof -
  have "case fst (run_state (CreateRun run_dbenv calm_env sample_run_request) sample_site) of Inl _ \<Rightarrow> False | Inr _ \<Rightarrow> True" by code_simp
  then show ?thesis by (cases "run_state (CreateRun run_dbenv calm_env sample_run_request) sample_site") (auto split: sum.splits)
qed

theorem run_freezes_workflow_witness:
  "\<exists>y s' a. run_state (CreateRun run_dbenv calm_env sample_run_request) sample_site = (Inr y, s')
     \<and> find_artifact (st_db s') (resp_artifact_id y) = Some a \<and> content_at (st_db s') (ar_cas_id a) = Some (marshal run_dbenv (GObj sample_workflow))
     \<and> length (r_streams (st_redis s') request_stream) = 1"
proof -
  obtain y s' where y: "run_state (CreateRun run_dbenv calm_env sample_run_request) sample_site = (Inr y, s')" using sample_run_created by blast
  have k: "versions (st_db sample_site) (rc_username sample_run_request, rc_tag sample_run_request) = Some (''{}'', [])"
    using sample_site_version(1) by (simp add: sample_run_request_def)
  have "db_reliable run_dbenv" by (simp add: db_reliable_def run_dbenv_def sample_dbenv_def)
  from run_freezes_workflow [OF sample_site_reached this k sample_site_version(2,3) run_no_collision y rtranclp.rtrancl_refl] y
  show ?thesis by (auto simp: sample_site_def empty_world_def)
qed

text \<open>C28. A run that is not accepted is not executed. If the creation of a run fails, nothing is handed to the runner and every
  workflow is as it was. If the limiter refuses it, the count in the window is over the limit of the workflow's tier and nothing at all was written to
  the database. A failed creation leaves a row only if the row was stored and the request could not be published.\<close>

theorem rejected_run_hands_nothing:
  assumes "(run_step parse e)\<^sup>*\<^sup>* empty_db (st_db s)" and "run_state (CreateRun e r req) s = (Inl x, s')"
  shows "r_streams (st_redis s') = r_streams (st_redis s) \<and> versions (st_db s') = versions (st_db s)
    \<and> (case x of RateLimitError t limit n retry \<Rightarrow> untick (st_db s') = untick (st_db s) \<and> limit = GetLimitForTier t \<and> limit < n
       | RunError msg \<Rightarrow> \<exists>rows. d_run_rows (st_db s') = d_run_rows (st_db s) @ rows
           \<and> (rows \<noteq> [] \<longrightarrow> length rows = 1 \<and> take 31 msg = ''failed to publish run request: ''))"
proof -
  have ok: "runs_ok e (st_db s)" by (rule runs_reachable_ok [OF assms(1)])
  obtain c d where c: "run_state (GetWorkflowComponents e (rc_username req) (rc_tag req)) (st_db s) = (c, d)"
    by (cases "run_state (GetWorkflowComponents e (rc_username req) (rc_tag req)) (st_db s)")
  have u: "untick d = untick (st_db s)" by (rule readsD [OF reads_components c])
  have q: "quiet e (st_db s) d" by (rule quiet_untick [OF u])
  have v: "versions d = versions (st_db s)" "d_run_rows d = d_run_rows (st_db s)" using quiet_keeps(3) [OF ok q] untick_eq [OF u] by simp_all
  show ?thesis
  proof (cases "\<exists>wcs workflow. c = Inr wcs \<and> Materialize e wcs = Inr workflow")
    case False
    then show ?thesis using assms(2) c v by (cases c) (auto simp: CreateRun_split split: sum.splits)
  next
    case True
    then obtain workflow where run: "run_state (start_run e r req workflow) (s\<lparr>st_db := d\<rparr>) = (Inl x, s')" using assms(2) c by (auto simp: CreateRun_split)
    then show ?thesis
    proof (cases rule: start_run_cases)
      case (limited y)
      then show ?thesis using check_rate_run [OF limited(1)] u v by auto
    next
      case (failed p s1 y d2)
      have s1: "st_db s1 = d" "r_streams (st_redis s1) = r_streams (st_redis s)" using check_rate_run [OF failed(1)] by auto
      then have "versions d2 = versions (st_db s)" using quiet_keeps(3) [OF ok quiet_trans [OF q]] store_run_quiet [OF failed(2)] by simp
      moreover have "d_run_rows d2 = d_run_rows d" using store_run_rows [OF failed(2)] s1 by simp
      ultimately show ?thesis using failed s1 v by auto
    next
      case (stored p s1 j i d2)
      have s1: "st_db s1 = d" "r_streams (st_redis s1) = r_streams (st_redis s)" using check_rate_run [OF stored(1)] by auto
      then have "versions d2 = versions (st_db s)" using quiet_keeps(3) [OF ok quiet_trans [OF q]] store_run_quiet [OF stored(2)] by simp
      moreover have "\<exists>row. d_run_rows d2 = d_run_rows d @ [row]" using store_run_rows [OF stored(2)] s1 by auto
      moreover obtain msg where "x = RunError (''failed to publish run request: '' @ msg)" using publish_failed [OF stored(3)] by blast
      ultimately show ?thesis using publish_run_cases [OF stored(3)] s1 v by auto
    qed
  qed
qed

theorem rejected_run_hands_nothing_witness:
  "\<exists>s' limit retry. run_state (CreateRun run_dbenv calm_env sample_run_request) busy_site = (Inl (RateLimitError TierSimple limit 101 retry), s')
     \<and> limit < 101 \<and> r_streams (st_redis s') request_stream = []"
proof -
  obtain x s' where x: "run_state (CreateRun run_dbenv calm_env sample_run_request) busy_site = (x, s')" by (cases "run_state (CreateRun run_dbenv calm_env sample_run_request) busy_site")
  have "case fst (run_state (CreateRun run_dbenv calm_env sample_run_request) busy_site) of Inl (RateLimitError TierSimple limit n retry) \<Rightarrow> n = 101 | _ \<Rightarrow> False" by code_simp
  then obtain limit retry where l: "x = Inl (RateLimitError TierSimple limit 101 retry)" using x by (auto split: sum.splits run_error.splits tier.splits)
  have "(run_step Inr run_dbenv)\<^sup>*\<^sup>* empty_db (st_db busy_site)" using sample_site_reached by (simp add: busy_site_def)
  from rejected_run_hands_nothing [OF this x [unfolded l]] x l show ?thesis by (auto simp: busy_site_def sample_site_def empty_world_def)
qed

end
