(* ===== verification/Run_Details.thy ===== *)
theory Run_Details
  imports Run_Service
begin

text \<open>
  What the orchestrator tells about a run: \<open>GetRunDetails\<close> of \<open>cmd/orchestrator/service/run.go\<close> and its helpers, the bulk reads of
  \<open>common/redis/client.go\<close> they use, and the JSON form of the intermediate representation (the field tags of
  \<open>common/sdk/types.go\<close>).

  \<open>Input\<close>, \<open>StartedAt\<close> and \<open>CompletedAt\<close> of a node execution are never set and have no field here; a nil map is the empty one.

  The lemmas show that asking for the details changes nothing, that the result the coordinator stored for a node is the one
  that is shown, which nodes decide the status that is shown, and that a node that failed without a result is not shown as failed.
\<close>

section \<open>Documents in Redis\<close>

fun condition_doc :: "condition option \<Rightarrow> gval" where
  "condition_doc None = GNil"
| "condition_doc (Some c) = GObj ([(''type'', GStr (c_type c))]
     @ (if c_expression c = '''' then [] else [(''expression'', GStr (c_expression c))])
     @ (if c_schema c = [] then [] else [(''schema'', GObj (c_schema c))])
     @ (if c_schema_ref c = '''' then [] else [(''schema_ref'', GStr (c_schema_ref c))])
     @ (if c_invert c then [(''invert'', GBool True)] else []))"

definition strings_doc :: "string list \<Rightarrow> gval" where "strings_doc xs = GArr (map GStr xs)"

definition loop_doc :: "loop_config \<Rightarrow> gval" where
  "loop_doc l = GObj [(''enabled'', GBool (l_enabled l)), (''condition'', condition_doc (l_condition l)),
     (''max_iterations'', GNum (of_int (l_max_iterations l))), (''loop_back_to'', GStr (l_loop_back_to l)),
     (''break_path'', strings_doc (l_break_path l)), (''timeout_path'', strings_doc (l_timeout_path l))]"

definition rule_doc :: "branch_rule \<Rightarrow> gval" where
  "rule_doc b = GObj [(''condition'', condition_doc (br_condition b)), (''next_nodes'', strings_doc (br_next_nodes b))]"

definition branch_doc :: "branch_config \<Rightarrow> gval" where
  "branch_doc b = GObj ([(''enabled'', GBool (b_enabled b)), (''type'', GStr (b_type b))]
     @ (if b_rules b = [] then [] else [(''rules'', GArr (map rule_doc (b_rules b)))])
     @ [(''default'', strings_doc (b_default b))]
     @ (if b_available_next_nodes b = [] then [] else [(''available_next_nodes'', strings_doc (b_available_next_nodes b))]))"

definition node_doc :: "node \<Rightarrow> gval" where
  "node_doc n = GObj ([(''id'', GStr (n_id n)), (''type'', GStr (n_type n))]
     @ (if n_config_ref n = '''' then [] else [(''config_ref'', GStr (n_config_ref n))])
     @ (if n_config n = [] then [] else [(''config'', GObj (n_config n))])
     @ [(''dependencies'', strings_doc (n_dependencies n)), (''dependents'', strings_doc (n_dependents n)),
        (''wait_for_all'', GBool (n_wait_for_all n)), (''is_terminal'', GBool (n_is_terminal n))]
     @ (case n_loop n of None \<Rightarrow> [] | Some l \<Rightarrow> [(''loop'', loop_doc l)])
     @ (case n_branch n of None \<Rightarrow> [] | Some b \<Rightarrow> [(''branch'', branch_doc b)]))"

definition ir_doc :: "ir \<Rightarrow> gval smap" where
  "ir_doc i = [(''version'', GStr (ir_version i)), (''nodes'', GObj (map (\<lambda>(k, n). (k, node_doc n)) (ir_nodes i)))]
     @ (if ir_metadata i = [] then [] else [(''metadata'', GObj (ir_metadata i))])"

text \<open>\<open>json.Unmarshal\<close> of a value of Redis into a map, and the value as text.\<close>

fun rstr_map :: "dbenv \<Rightarrow> rstr \<Rightarrow> gval smap res" where
  "rstr_map e (RText s) = unmarshal_map e s"
| "rstr_map e (RDoc d) = to_map d"
| "rstr_map e (RIr i) = Inr (ir_doc i)"

fun rstr_text :: "dbenv \<Rightarrow> rstr \<Rightarrow> string" where
  "rstr_text e (RText s) = s"
| "rstr_text e (RDoc d) = marshal e d"
| "rstr_text e (RIr i) = marshal e (GObj (ir_doc i))"

primrec found_keys :: "(string \<Rightarrow> 'v option) \<Rightarrow> string list \<Rightarrow> 'v smap \<Rightarrow> 'v smap" where
  "found_keys g [] m = m"
| "found_keys g (k # ks) m = found_keys g ks (case g k of None \<Rightarrow> m | Some v \<Rightarrow> AList.update k v m)"

definition redis_GetMultiple :: "env \<Rightarrow> string list \<Rightarrow> rstr smap res io" where
  "redis_GetMultiple r keys = (if keys = [] then State_Monad.return (Inr [])
     else do {
       ok \<leftarrow> attempt r (OpPipe ''GET'');
       w \<leftarrow> State_Monad.get;
       State_Monad.return (if \<not> ok then Inl ''failed to get multiple keys: ''
         else Inr (found_keys (r_strs w) keys []))})"

definition redis_GetAllHash :: "env \<Rightarrow> string \<Rightarrow> string smap res io" where
  "redis_GetAllHash r key = do {
     ok \<leftarrow> attempt r (OpHGetAll key);
     w \<leftarrow> State_Monad.get;
     State_Monad.return (if \<not> ok then Inl (''failed to get all hash fields '' @ key) else Inr (r_hash w key))}"

section \<open>Executions of nodes\<close>

record execution_metrics =
  em_sent_at :: string
  em_start_time :: string
  em_end_time :: string
  em_queue_time_ms :: int
  em_execution_time_ms :: int
  em_total_duration_ms :: int
  em_memory_start_mb :: rat
  em_memory_peak_mb :: rat
  em_memory_end_mb :: rat
  em_cpu_percent :: rat
  em_thread_count :: int
  em_system :: "gval smap"

record node_execution =
  ne_node_id :: string
  ne_status :: string
  ne_output :: "gval smap option"
  ne_error :: "string option"
  ne_metrics :: "execution_metrics option"

record run_patch_info =
  ri_seq :: int
  ri_node_id :: "string option"
  ri_operations :: "gval smap list"
  ri_description :: string

record run_details =
  rv_run :: run
  rv_base_workflow_ir :: "gval smap"
  rv_workflow_ir :: "gval smap"
  rv_node_executions :: "node_execution smap"
  rv_node_outputs_raw :: "gval smap"
  rv_patches :: "run_patch_info list"

definition string_field :: "gval smap \<Rightarrow> string \<Rightarrow> string" where
  "string_field m k = (case as_string (mget m k) of Some s \<Rightarrow> s | None \<Rightarrow> '''')"

definition num_field :: "gval smap \<Rightarrow> string \<Rightarrow> rat" where
  "num_field m k = (case as_num (mget m k) of Some x \<Rightarrow> x | None \<Rightarrow> 0)"

definition parseMetrics :: "gval smap \<Rightarrow> execution_metrics" where
  "parseMetrics m = \<lparr>em_sent_at = string_field m ''sent_at'', em_start_time = string_field m ''start_time'', em_end_time = string_field m ''end_time'',
     em_queue_time_ms = go_int (num_field m ''queue_time_ms''), em_execution_time_ms = go_int (num_field m ''execution_time_ms''),
     em_total_duration_ms = go_int (num_field m ''total_duration_ms''), em_memory_start_mb = num_field m ''memory_start_mb'',
     em_memory_peak_mb = num_field m ''memory_peak_mb'', em_memory_end_mb = num_field m ''memory_end_mb'', em_cpu_percent = num_field m ''cpu_percent'',
     em_thread_count = go_int (num_field m ''thread_count''),
     em_system = (case as_obj (mget m ''system'') of Some s \<Rightarrow> s | None \<Rightarrow> [])\<rparr>"

definition loadWorkflowIR :: "dbenv \<Rightarrow> env \<Rightarrow> string \<Rightarrow> gval smap res io" where
  "loadWorkflowIR e r runID = do {
     x \<leftarrow> redis_Get r (ir_key runID);
     State_Monad.return (case x of Inl err \<Rightarrow> Inl (''failed to load IR from Redis: '' @ err)
       | Inr v \<Rightarrow> (case rstr_map e v of Inl err \<Rightarrow> Inl (''failed to unmarshal IR: '' @ err) | Inr m \<Rightarrow> Inr m))}"

definition loadBaseWorkflow :: "(string \<Rightarrow> string res) \<Rightarrow> dbenv \<Rightarrow> run \<Rightarrow> gval smap res dbio" where
  "loadBaseWorkflow parse e run = (case parse (rn_base_ref run) of Inl x \<Rightarrow> fail (''invalid base_ref: '' @ x)
     | Inr artifactID \<Rightarrow>
       check (art_GetByID e artifactID) ''failed to get base artifact: '' (\<lambda>a.
       check (GetContent e (ar_cas_id a)) ''failed to load workflow from CAS: '' (\<lambda>text.
       case unmarshal_map e text of Inl x \<Rightarrow> fail (''failed to unmarshal base workflow: '' @ x) | Inr m \<Rightarrow> ok m)))"

definition loadContextData :: "env \<Rightarrow> string \<Rightarrow> string smap res io" where
  "loadContextData r runID = do {
     x \<leftarrow> redis_GetAllHash r (context_key runID);
     State_Monad.return (case x of Inl err \<Rightarrow> Inl (''failed to load context: '' @ err) | Inr m \<Rightarrow> Inr m)}"

text \<open>The blobs of a list of references: those that are not found or not a JSON object are left out.\<close>

definition parse_blobs :: "dbenv \<Rightarrow> rstr smap \<Rightarrow> gval smap smap" where
  "parse_blobs e m = List.map_filter (\<lambda>(k, v). case rstr_map e v of Inl _ \<Rightarrow> None | Inr d \<Rightarrow> Some (drop 4 k, d)) m"

definition fetch_blobs :: "dbenv \<Rightarrow> env \<Rightarrow> string list \<Rightarrow> gval smap smap res io" where
  "fetch_blobs e r casRefs = (if casRefs = [] then State_Monad.return (Inr [])
     else do {
       x \<leftarrow> redis_GetMultiple r (map (\<lambda>ref. ''cas:'' @ ref) casRefs);
       State_Monad.return (case x of Inl err \<Rightarrow> Inl (''failed to bulk fetch CAS data: '' @ err) | Inr m \<Rightarrow> Inr (parse_blobs e m))})"

definition bulkFetchCASData :: "dbenv \<Rightarrow> env \<Rightarrow> string smap \<Rightarrow> gval smap \<Rightarrow> gval smap smap res io" where
  "bulkFetchCASData e r ctx nodes = fetch_blobs e r (List.map_filter (\<lambda>(n, _). map_of ctx (n @ '':output'')) (range_map (mord r) ''nodes'' nodes))"

definition bulkFetchAllCASFromContext :: "dbenv \<Rightarrow> env \<Rightarrow> string smap \<Rightarrow> gval smap smap res io" where
  "bulkFetchAllCASFromContext e r ctx = fetch_blobs e r
     (map snd (filter (\<lambda>(k, v). suffix '':output'' k \<and> prefix ''artifact://'' v) (range_map (mord r) ''contextData'' ctx)))"

definition TrimSuffix :: "string \<Rightarrow> string \<Rightarrow> string" where
  "TrimSuffix s suf = (if suffix suf s then take (length s - length suf) s else s)"

text \<open>One field of the context hash; the results are collected in a map.\<close>

definition add_output :: "dbenv \<Rightarrow> gval smap smap \<Rightarrow> string \<times> string \<Rightarrow> gval smap \<Rightarrow> gval smap" where
  "add_output e blobs kv m = (case kv of (key, value) \<Rightarrow>
     if suffix '':output'' key
     then AList.update (TrimSuffix key '':output'') (GObj (case map_of blobs value of Some output \<Rightarrow> output | None \<Rightarrow> [(''ref'', GStr value)])) m
     else if suffix '':failure'' key
     then (case unmarshal_map e value of Inl _ \<Rightarrow> m | Inr f \<Rightarrow> AList.update (TrimSuffix key '':failure'' @ ''_failure'') (GObj f) m)
     else m)"

definition buildNodeOutputsRaw :: "dbenv \<Rightarrow> env \<Rightarrow> string smap \<Rightarrow> gval smap smap \<Rightarrow> gval smap" where
  "buildNodeOutputsRaw e r ctx blobs = fold (add_output e blobs) (range_map (mord r) ''contextData'' ctx) []"

definition error_of :: "gval smap \<Rightarrow> string option \<Rightarrow> string option" where
  "error_of m old = (case as_string (mget m ''error'') of Some s \<Rightarrow> Some s
     | None \<Rightarrow> (case as_obj (mget m ''error'') of None \<Rightarrow> old
       | Some em \<Rightarrow> (case as_string (mget em ''error_message'') of Some s \<Rightarrow> Some s | None \<Rightarrow> old)))"

definition metrics_of :: "gval smap \<Rightarrow> execution_metrics option \<Rightarrow> execution_metrics option" where
  "metrics_of m old = (case as_obj (mget m ''metrics'') of Some x \<Rightarrow> Some (parseMetrics x) | None \<Rightarrow> old)"

definition status_of :: "gval smap \<Rightarrow> string" where
  "status_of m = (case as_string (mget m ''status'') of None \<Rightarrow> ''completed'' | Some s \<Rightarrow> if s = ''success'' then ''completed'' else s)"

definition add_result :: "gval option \<Rightarrow> node_execution \<Rightarrow> node_execution" where
  "add_result d x = (case d of Some (GObj m) \<Rightarrow> x\<lparr>ne_output := Some m, ne_status := status_of m, ne_error := error_of m (ne_error x), ne_metrics := metrics_of m (ne_metrics x)\<rparr>
     | _ \<Rightarrow> x)"

definition add_failure :: "gval option \<Rightarrow> node_execution \<Rightarrow> node_execution" where
  "add_failure d x = (case d of Some (GObj m) \<Rightarrow> x\<lparr>ne_status := ''failed'', ne_error := error_of m (ne_error x), ne_metrics := metrics_of m (ne_metrics x)\<rparr>
     | _ \<Rightarrow> x)"

definition details_status_key :: "string \<Rightarrow> string \<Rightarrow> string" where
  "details_status_key runID nodeID = ''run:'' @ runID @ '':node:'' @ nodeID @ '':status''"

definition execution_of :: "gval smap \<Rightarrow> string \<Rightarrow> string \<Rightarrow> node_execution" where
  "execution_of raw nodeID st = add_failure (map_of raw (nodeID @ ''_failure'')) (add_result (map_of raw nodeID)
     \<lparr>ne_node_id = nodeID, ne_status = st, ne_output = None, ne_error = None, ne_metrics = None\<rparr>)"

fun build_each :: "dbenv \<Rightarrow> env \<Rightarrow> string \<Rightarrow> gval smap \<Rightarrow> string list \<Rightarrow> node_execution smap \<Rightarrow> node_execution smap io" where
  "build_each e r runID raw [] m = State_Monad.return m"
| "build_each e r runID raw (nodeID # rest) m = do {
     x \<leftarrow> redis_Get r (details_status_key runID nodeID);
     build_each e r runID raw rest (AList.update nodeID
       (execution_of raw nodeID (case x of Inl _ \<Rightarrow> ''not_executed'' | Inr v \<Rightarrow> rstr_text e v)) m)}"

definition buildNodeExecutions :: "dbenv \<Rightarrow> env \<Rightarrow> run \<Rightarrow> gval smap \<Rightarrow> gval smap \<Rightarrow> node_execution smap io" where
  "buildNodeExecutions e r run workflowIR raw = (case as_obj (mget workflowIR ''nodes'') of None \<Rightarrow> State_Monad.return []
     | Some nodes \<Rightarrow> build_each e r (rn_id run) raw (map fst (range_map (mord r) ''nodes'' nodes)) [])"

definition loadRunPatches :: "dbenv \<Rightarrow> string \<Rightarrow> run_patch_info list res dbio" where
  "loadRunPatches e runID = check (service_GetRunPatchesWithOperations e runID) ''failed to load patches with operations: '' (\<lambda>ps.
     ok (map (\<lambda>p. \<lparr>ri_seq = po_seq p, ri_node_id = None, ri_operations = po_operations p, ri_description = po_description p\<rparr>) ps))"

section \<open>The details of a run\<close>

definition display_status :: "string \<Rightarrow> string list \<Rightarrow> string" where
  "display_status db_status sts =
     (if ''failed'' \<in> set sts \<or> ''error'' \<in> set sts then StatusFailed
      else if ''waiting_for_approval'' \<in> set sts then StatusWaitingForApproval
      else if length (filter (\<lambda>s. s = ''completed'') sts) = length sts \<and> 0 < length sts then StatusCompleted
      else if ''completed'' \<in> set sts then StatusRunning
      else db_status)"

definition or_else :: "'a res \<Rightarrow> 'a \<Rightarrow> 'a" where
  "or_else x d = (case x of Inl _ \<Rightarrow> d | Inr a \<Rightarrow> a)"

text \<open>Steps 5 and 6: an empty context is not looked up.\<close>

definition fetch_context :: "dbenv \<Rightarrow> env \<Rightarrow> string smap \<Rightarrow> (site, gval smap smap res) state" where
  "fetch_context e r ctx = (if ctx = [] then State_Monad.return (Inr []) else on_redis (bulkFetchAllCASFromContext e r ctx))"

definition raw_outputs :: "dbenv \<Rightarrow> env \<Rightarrow> string smap \<Rightarrow> gval smap smap \<Rightarrow> gval smap" where
  "raw_outputs e r ctx blobs = (if ctx = [] then [] else buildNodeOutputsRaw e r ctx blobs)"

definition GetRunDetails :: "(string \<Rightarrow> string res) \<Rightarrow> dbenv \<Rightarrow> env \<Rightarrow> string \<Rightarrow> (site, run_details res) state" where
  "GetRunDetails parse e r runID = do {
     g \<leftarrow> on_db (run_GetByID e runID);
     (case g of Inl x \<Rightarrow> State_Monad.return (Inl (''failed to get run: '' @ x))
      | Inr run \<Rightarrow> do {
          base \<leftarrow> on_db (loadBaseWorkflow parse e run);
          i \<leftarrow> on_redis (loadWorkflowIR e r runID);
          (case i of Inl _ \<Rightarrow> State_Monad.return (Inr \<lparr>rv_run = run, rv_base_workflow_ir = or_else base [], rv_workflow_ir = [],
              rv_node_executions = [], rv_node_outputs_raw = [], rv_patches = []\<rparr>)
           | Inr workflowIR \<Rightarrow> do {
               c \<leftarrow> on_redis (loadContextData r runID);
               let ctx = or_else c [];
               b \<leftarrow> fetch_context e r ctx;
               let raw = raw_outputs e r ctx (or_else b []);
               execs \<leftarrow> on_redis (buildNodeExecutions e r run workflowIR raw);
               ps \<leftarrow> on_db (loadRunPatches e runID);
               State_Monad.return (Inr \<lparr>rv_run = run\<lparr>rn_status := display_status (rn_status run) (map (ne_status \<circ> snd) execs)\<rparr>,
                  rv_base_workflow_ir = or_else base [], rv_workflow_ir = workflowIR, rv_node_executions = execs,
                  rv_node_outputs_raw = raw, rv_patches = or_else ps []\<rparr>)})})}"

section \<open>Reading changes nothing\<close>

named_theorems peeks_intros \<open>reads of Redis\<close>

definition idle :: "world \<Rightarrow> world" where "idle w = w\<lparr>r_tick := 0\<rparr>"

definition peeks :: "'a io \<Rightarrow> bool" where
  "peeks m \<longleftrightarrow> (\<forall>w. idle (snd (run_state m w)) = idle w)"

definition same_site :: "site \<Rightarrow> site \<Rightarrow> bool" where
  "same_site s s' \<longleftrightarrow> untick (st_db s') = untick (st_db s) \<and> idle (st_redis s') = idle (st_redis s) \<and> st_limits s' = st_limits s"

definition observes :: "(site, 'a) state \<Rightarrow> bool" where
  "observes m \<longleftrightarrow> (\<forall>s. same_site s (snd (run_state m s)))"

lemma idle_tick [simp]: "idle (w\<lparr>r_tick := n\<rparr>) = idle w"
  by (simp add: idle_def)

lemma idle_fields: "idle w' = idle w \<Longrightarrow> r_strs w' = r_strs w \<and> r_hash w' = r_hash w"
  by (metis idle_def world.select_convs(2,5) world.surjective world.update_convs(1))

lemma peeks_bind [peeks_intros]: "peeks m \<Longrightarrow> (\<And>a. peeks (f a)) \<Longrightarrow> peeks (State_Monad.bind m f)"
  by (simp add: peeks_def case_prod_unfold)

lemma peeks_basic [peeks_intros]: "peeks (State_Monad.return a)" "peeks (attempt r op)" "peeks State_Monad.get" "peeks (now g)"
  by (simp_all add: peeks_def)

lemma peeks_redis [peeks_intros]: "peeks (redis_Get r k)" "peeks (redis_GetMultiple r ks)" "peeks (redis_GetAllHash r k)"
  by (auto simp: redis_Get_def redis_GetMultiple_def redis_GetAllHash_def intro!: peeks_intros)

lemma peeks_fetch [peeks_intros]: "peeks (bulkFetchAllCASFromContext e r ctx)" "peeks (bulkFetchCASData e r ctx nodes)"
  unfolding bulkFetchAllCASFromContext_def bulkFetchCASData_def fetch_blobs_def by (auto intro!: peeks_intros)

lemma peeks_build: "peeks (build_each e r run raw ns m)"
  by (induction ns arbitrary: m) (auto intro!: peeks_intros)

lemma peeks_executions [peeks_intros]: "peeks (buildNodeExecutions e r run i raw)"
  unfolding buildNodeExecutions_def by (auto intro!: peeks_intros peeks_build split: option.split)

lemma reads_load_all: "reads (load_all e is m)"
  by (induction "is" arbitrary: m) (auto simp: service_GetPatchOperations_def intro!: reads_intros split: sum.split)

lemma reads_details [reads_intros]: "reads (loadRunPatches e run)" "reads (loadBaseWorkflow parse e row)"
  unfolding loadRunPatches_def loadBaseWorkflow_def service_GetRunPatchesWithOperations_def
  by (auto intro!: reads_intros reads_load_all split: sum.split)

lemma observes_intros:
  "observes m \<Longrightarrow> (\<And>a. observes (f a)) \<Longrightarrow> observes (State_Monad.bind m f)" "observes (State_Monad.return x)"
  "reads q \<Longrightarrow> observes (on_db q)" "peeks p \<Longrightarrow> observes (on_redis p)"
  by (simp_all add: observes_def same_site_def reads_def peeks_def case_prod_unfold)

text \<open>Asking for the details of a run changes nothing: whichever statement or command fails, the database, Redis and the limiter
  hold afterwards what they held before.\<close>

theorem details_change_nothing:
  "(let s' = snd (run_state (GetRunDetails parse e r runID) s)
    in untick (st_db s') = untick (st_db s) \<and> idle (st_redis s') = idle (st_redis s) \<and> st_limits s' = st_limits s)"
proof -
  have "observes (GetRunDetails parse e r runID)"
    unfolding GetRunDetails_def loadWorkflowIR_def loadContextData_def fetch_context_def
    by (auto simp: Let_def intro!: observes_intros reads_intros peeks_intros split: sum.split)
  then show ?thesis by (simp add: observes_def same_site_def Let_def)
qed

section \<open>What is shown of a node\<close>

lemma suffix_output: "suffix '':output'' (n @ '':output'')" "TrimSuffix (n @ '':output'') '':output'' = n"
  by (auto simp: TrimSuffix_def suffix_def)

lemma not_both: "suffix '':failure'' k \<Longrightarrow> \<not> suffix '':output'' k"
  by (auto simp: suffix_def)

lemma trim_output: "suffix '':output'' k \<Longrightarrow> TrimSuffix k '':output'' = n \<longleftrightarrow> k = n @ '':output''"
  by (auto simp: TrimSuffix_def suffix_def)

definition shown_output :: "gval smap smap \<Rightarrow> string \<Rightarrow> gval" where
  "shown_output blobs v = GObj (case map_of blobs v of Some output \<Rightarrow> output | None \<Rightarrow> [(''ref'', GStr v)])"

lemma outputs_lookup:
  assumes "distinct (map fst kvs)" and "\<forall>(k, v) \<in> set kvs. \<not> suffix '':failure'' k"
  shows "map_of (fold (add_output e blobs) kvs m) n = (case map_of kvs (n @ '':output'') of None \<Rightarrow> map_of m n | Some v \<Rightarrow> Some (shown_output blobs v))"
  using assms
proof (induction kvs arbitrary: m)
  case (Cons kv kvs)
  obtain k v where kv: "kv = (k, v)" by (cases kv)
  have a: "add_output e blobs kv m = (if suffix '':output'' k then AList.update (TrimSuffix k '':output'') (shown_output blobs v) m else m)"
    using Cons.prems(2) by (simp add: kv add_output_def shown_output_def)
  have d: "k = n @ '':output'' \<Longrightarrow> map_of kvs (n @ '':output'') = None"
    using Cons.prems(1) by (auto simp: kv map_of_eq_None_iff)
  show ?case
  proof (cases "k = n @ '':output''")
    case True
    then show ?thesis using Cons.IH [of "add_output e blobs kv m"] Cons.prems d by (simp add: kv a [unfolded kv True] update_conv' suffix_output)
  next
    case False
    then have "map_of (add_output e blobs kv m) n = map_of m n" using trim_output [of k n] by (auto simp: a update_conv')
    then show ?thesis using Cons.IH [of "add_output e blobs kv m"] Cons.prems False by (simp add: kv split: option.split)
  qed
qed simp

lemma found_lookup: "map_of (found_keys g ks m) k = (if k \<in> set ks \<and> g k \<noteq> None then g k else map_of m k)"
  by (induction ks arbitrary: m) (auto simp: update_conv' split: option.split)

lemma found_distinct: "distinct (map fst m) \<Longrightarrow> distinct (map fst (found_keys g ks m))"
  by (induction ks arbitrary: m) (auto simp: distinct_update split: option.split)

lemma found_in: "k \<in> fst ` set (found_keys g ks []) \<Longrightarrow> k \<in> set ks"
  using found_lookup [of g ks "[]" k] map_of_eq_None_iff [of "found_keys g ks []" k] by (auto split: if_splits)

lemma parse_blobs_lookup:
  assumes "distinct (map fst m)" and "\<forall>k \<in> fst ` set m. prefix ''cas:'' k"
  shows "map_of (parse_blobs e m) ref = (case map_of m (''cas:'' @ ref) of None \<Rightarrow> None
    | Some v \<Rightarrow> (case rstr_map e v of Inl _ \<Rightarrow> None | Inr d \<Rightarrow> Some d))"
  using assms
proof (induction m)
  case Nil
  then show ?case by (simp add: parse_blobs_def)
next
  case (Cons kv m)
  obtain k v where kv: "kv = (k, v)" by (cases kv)
  obtain t where t: "k = ''cas:'' @ t" using Cons.prems(2) by (auto simp: kv prefix_def)
  have n: "t = ref \<Longrightarrow> map_of m (''cas:'' @ ref) = None" using Cons.prems(1) by (auto simp: kv t map_of_eq_None_iff)
  show ?case using Cons.IH Cons.prems n by (auto simp: kv t parse_blobs_def List.map_filter_simps split: option.split sum.split)
qed

lemma fetch_run:
  assumes "reliable r"
  shows "\<exists>b n. run_state (fetch_blobs e r refs) w = (Inr b, w\<lparr>r_tick := n\<rparr>)
    \<and> (\<forall>ref. map_of b ref = (if ref \<in> set refs then (case r_strs w (''cas:'' @ ref) of None \<Rightarrow> None
        | Some v \<Rightarrow> (case rstr_map e v of Inl _ \<Rightarrow> None | Inr d \<Rightarrow> Some d)) else None))"
proof (cases "refs = []")
  case True
  then show ?thesis by (auto simp: fetch_blobs_def intro: exI [of _ "r_tick w"])
next
  case False
  define ks where "ks = map ((@) ''cas:'') refs"
  define m where "m = found_keys (r_strs w) ks []"
  have p: "\<forall>k \<in> fst ` set m. prefix ''cas:'' k"
  proof
    fix k
    assume "k \<in> fst ` set m"
    from found_in [OF this [unfolded m_def]] show "prefix ''cas:'' k" by (auto simp: ks_def)
  qed
  have k: "distinct (map fst m)" unfolding m_def by (rule found_distinct) simp
  have "run_state (fetch_blobs e r refs) w = (Inr (parse_blobs e m), w\<lparr>r_tick := Suc (r_tick w)\<rparr>)"
    using assms False unfolding fetch_blobs_def redis_GetMultiple_def ks_def [symmetric] by (simp add: m_def) (simp add: ks_def)
  moreover have "map_of m (''cas:'' @ ref) = (if ref \<in> set refs then r_strs w (''cas:'' @ ref) else None)" for ref
    by (auto simp: m_def found_lookup ks_def image_iff)
  ultimately show ?thesis using parse_blobs_lookup [OF k p, of e] by auto
qed

lemma build_each_run:
  assumes "reliable r"
  shows "\<exists>x n. run_state (build_each e r run raw ns m) w = (x, w\<lparr>r_tick := n\<rparr>)
    \<and> (\<forall>k. map_of x k = (if k \<in> set ns then Some (execution_of raw k (case r_strs w (details_status_key run k) of None \<Rightarrow> ''not_executed'' | Some v \<Rightarrow> rstr_text e v))
        else map_of m k))"
proof (induction ns arbitrary: m w)
  case Nil
  then show ?case by (auto intro: exI [of _ "r_tick w"])
next
  case (Cons k ns)
  let ?x = "execution_of raw k (case r_strs w (details_status_key run k) of None \<Rightarrow> ''not_executed'' | Some v \<Rightarrow> rstr_text e v)"
  have "run_state (build_each e r run raw (k # ns) m) w = run_state (build_each e r run raw ns (AList.update k ?x m)) (w\<lparr>r_tick := Suc (r_tick w)\<rparr>)"
    by (simp add: run_Get [OF assms] split: option.split)
  then show ?case using Cons.IH [of "AList.update k ?x m" "w\<lparr>r_tick := Suc (r_tick w)\<rparr>"] by (auto simp: update_conv')
qed

lemma run_GetByID_id: "run_state (run_GetByID e i) d = (Inr row, d') \<Longrightarrow> rn_id row = i"
proof -
  have "any_row e d' xs = Some x \<Longrightarrow> x \<in> set xs" for d' and xs :: "run list" and x
    by (auto simp: any_row_def split: if_splits)
  then show "run_state (run_GetByID e i) d = (Inr row, d') \<Longrightarrow> rn_id row = i"
    by (fastforce simp: run_GetByID_def run_check select_one_def run_query split: option.splits prod.splits sum.splits)
qed

text \<open>What the details say is the output of a node: the blob its context field refers to, or the reference itself.\<close>

definition blob_at :: "dbenv \<Rightarrow> world \<Rightarrow> string \<Rightarrow> gval smap option" where
  "blob_at e w v = (if prefix ''artifact://'' v then (case r_strs w (''cas:'' @ v) of None \<Rightarrow> None
     | Some x \<Rightarrow> (case rstr_map e x of Inl _ \<Rightarrow> None | Inr d \<Rightarrow> Some d)) else None)"

definition node_output :: "dbenv \<Rightarrow> world \<Rightarrow> string smap \<Rightarrow> string \<Rightarrow> gval option" where
  "node_output e w ctx n = map_option (\<lambda>v. GObj (case blob_at e w v of Some d \<Rightarrow> d | None \<Rightarrow> [(''ref'', GStr v)])) (map_of ctx (n @ '':output''))"

lemma blob_at_tick [simp]: "blob_at e (w\<lparr>r_tick := t\<rparr>) = blob_at e w"
  by (simp add: blob_at_def fun_eq_iff)

lemma node_output_tick [simp]: "node_output e (w\<lparr>r_tick := t\<rparr>) ctx = node_output e w ctx"
  by (simp add: node_output_def fun_eq_iff)

lemma raw_outputs_run:
  assumes r: "reliable r" and ord: "perm_order (mord r)" and dc: "distinct (map fst ctx)" and nf: "\<forall>(k, v) \<in> set ctx. \<not> suffix '':failure'' k"
  shows "\<exists>b m. run_state (bulkFetchAllCASFromContext e r ctx) w = (Inr b, w\<lparr>r_tick := m\<rparr>)
    \<and> (\<forall>x. map_of (buildNodeOutputsRaw e r ctx b) x = node_output e w ctx x)"
proof -
  define kvs where "kvs = range_map (mord r) ''contextData'' ctx"
  have kvs: "distinct (map fst kvs)" "map_of kvs = map_of ctx" "set kvs = set ctx"
    using distinct_range_map [OF ord dc] map_of_range_map [OF ord dc] set_range_map [OF ord dc] by (simp_all add: kvs_def)
  define refs where "refs = map snd (filter (\<lambda>(k, v). suffix '':output'' k \<and> prefix ''artifact://'' v) kvs)"
  obtain b m where b: "run_state (fetch_blobs e r refs) w = (Inr b, w\<lparr>r_tick := m\<rparr>)"
    and bl: "\<And>ref. map_of b ref = (if ref \<in> set refs then (case r_strs w (''cas:'' @ ref) of None \<Rightarrow> None
        | Some v \<Rightarrow> (case rstr_map e v of Inl _ \<Rightarrow> None | Inr d \<Rightarrow> Some d)) else None)"
    using fetch_run [OF r, of e refs w] by auto
  have "map_of (buildNodeOutputsRaw e r ctx b) x = node_output e w ctx x" for x
  proof -
    have l: "map_of (buildNodeOutputsRaw e r ctx b) x = map_option (shown_output b) (map_of ctx (x @ '':output''))"
      using outputs_lookup [OF kvs(1), of e b "[]" x] nf kvs(2,3) unfolding buildNodeOutputsRaw_def kvs_def [symmetric]
      by (simp split: option.split)
    show ?thesis
    proof (cases "map_of ctx (x @ '':output'')")
      case (Some v)
      then have "(x @ '':output'', v) \<in> set kvs" using map_of_SomeD kvs(3) by auto
      then have "v \<in> set refs \<longleftrightarrow> prefix ''artifact://'' v" using suffix_output(1) [of x] by (force simp: refs_def)
      then have "map_of b v = blob_at e w v" by (simp add: bl blob_at_def)
      then show ?thesis using Some by (simp add: l node_output_def shown_output_def)
    qed (simp add: l node_output_def)
  qed
  then show ?thesis using b by (auto simp: bulkFetchAllCASFromContext_def kvs_def [symmetric] refs_def [symmetric])
qed

text \<open>The details of a run whose representation is in Redis, node by node.\<close>

definition at_rest :: "env \<Rightarrow> world \<Rightarrow> string \<Rightarrow> ir \<Rightarrow> bool" where
  "at_rest r w run i \<longleftrightarrow> reliable r \<and> perm_order (mord r) \<and> r_strs w (ir_key run) = Some (RIr i) \<and> distinct (map fst (ir_nodes i))
     \<and> distinct (map fst (r_hash w (context_key run))) \<and> (\<forall>k \<in> fst ` set (r_hash w (context_key run)). \<not> suffix '':failure'' k)"

lemma details_of_node:
  assumes st: "at_rest r (st_redis s) run i" and row: "run_state (run_GetByID e run) (st_db s) = (Inr row, d1)" and n: "map_of (ir_nodes i) n \<noteq> None"
  defines "out \<equiv> node_output e (st_redis s) (r_hash (st_redis s) (context_key run))"
  shows "\<exists>v s'. run_state (GetRunDetails parse e r run) s = (Inr v, s')
    \<and> map_of (rv_node_executions v) n = Some (add_failure (out (n @ ''_failure'')) (add_result (out n)
        \<lparr>ne_node_id = n, ne_status = (case r_strs (st_redis s) (details_status_key run n) of None \<Rightarrow> ''not_executed'' | Some x \<Rightarrow> rstr_text e x),
          ne_output = None, ne_error = None, ne_metrics = None\<rparr>))
    \<and> (\<forall>x. map_of (rv_node_outputs_raw v) x = out x)
    \<and> rn_status (rv_run v) = display_status (rn_status row) (map (ne_status \<circ> snd) (rv_node_executions v))"
proof -
  define w where "w = st_redis s"
  define ctx where "ctx = r_hash w (context_key run)"
  have r: "reliable r" and ord: "perm_order (mord r)" and i: "r_strs w (ir_key run) = Some (RIr i)" and dn: "distinct (map fst (ir_nodes i))"
    and dc: "distinct (map fst ctx)" and nf: "\<forall>(k, v) \<in> set ctx. \<not> suffix '':failure'' k"
    using st by (auto simp: at_rest_def w_def ctx_def)
  obtain base d2 where base: "run_state (loadBaseWorkflow parse e row) d1 = (base, d2)" by (cases "run_state (loadBaseWorkflow parse e row) d1")
  obtain ps d3 where ps: "run_state (loadRunPatches e run) d2 = (ps, d3)" by (cases "run_state (loadRunPatches e run) d2")
  have ir: "run_state (loadWorkflowIR e r run) w = (Inr (ir_doc i), w\<lparr>r_tick := Suc (r_tick w)\<rparr>)"
    using i by (simp add: loadWorkflowIR_def run_Get [OF r])
  have c: "run_state (loadContextData r run) (w\<lparr>r_tick := Suc (r_tick w)\<rparr>) = (Inr ctx, w\<lparr>r_tick := Suc (Suc (r_tick w))\<rparr>)"
    using r by (simp add: loadContextData_def redis_GetAllHash_def ctx_def)
  obtain b' m' where b': "run_state (bulkFetchAllCASFromContext e r ctx) (w\<lparr>r_tick := Suc (Suc (r_tick w))\<rparr>) = (Inr b', w\<lparr>r_tick := m'\<rparr>)"
      "\<forall>x. map_of (buildNodeOutputsRaw e r ctx b') x = out x"
    using raw_outputs_run [OF r ord dc nf, of e "w\<lparr>r_tick := Suc (Suc (r_tick w))\<rparr>"] by (auto simp: out_def w_def ctx_def)
  define b m where "b = (if ctx = [] then [] else b')" and "m = (if ctx = [] then Suc (Suc (r_tick w)) else m')"
  have bm: "run_state (fetch_context e r ctx) (s\<lparr>st_db := d2, st_redis := w\<lparr>r_tick := Suc (Suc (r_tick w))\<rparr>\<rparr>)
      = (Inr b, s\<lparr>st_db := d2, st_redis := w\<lparr>r_tick := m\<rparr>\<rparr>)" and raw': "ctx \<noteq> [] \<Longrightarrow> (\<forall>x. map_of (buildNodeOutputsRaw e r ctx b) x = out x)"
    using b' by (simp_all add: b_def m_def fetch_context_def)
  define raw where "raw = raw_outputs e r ctx b"
  have raw: "map_of raw x = out x" for x using raw' by (simp add: raw_def raw_outputs_def out_def node_output_def ctx_def w_def)
  let ?nodes = "map (\<lambda>(k, n). (k, node_doc n)) (ir_nodes i)"
  define ns where "ns = map fst (range_map (mord r) ''nodes'' ?nodes)"
  have "n \<in> set ns"
  proof -
    have "distinct (map fst ?nodes)" using dn by (simp add: comp_def case_prod_unfold)
    from set_range_map [OF ord this, of "''nodes''"] have "set ns = fst ` set ?nodes" by (simp only: ns_def set_map)
    then have "set ns = fst ` set (ir_nodes i)" by (simp add: image_image case_prod_unfold)
    then show ?thesis using n by (simp add: map_of_eq_None_iff)
  qed
  moreover obtain x k where x: "run_state (build_each e r (rn_id row) raw ns []) (w\<lparr>r_tick := m\<rparr>) = (x, w\<lparr>r_tick := k\<rparr>)"
    "\<forall>k. map_of x k = (if k \<in> set ns then Some (execution_of raw k (case r_strs w (details_status_key (rn_id row) k) of None \<Rightarrow> ''not_executed'' | Some v \<Rightarrow> rstr_text e v)) else None)"
    using build_each_run [OF r, of e "rn_id row" raw ns "[]" "w\<lparr>r_tick := m\<rparr>"] by auto
  moreover have "run_state (buildNodeExecutions e r row (ir_doc i) raw) (w\<lparr>r_tick := m\<rparr>) = (x, w\<lparr>r_tick := k\<rparr>)"
    using x(1) by (simp add: buildNodeExecutions_def ir_doc_def mget_def ns_def)
  moreover have "rn_id row = run" by (rule run_GetByID_id [OF row])
  ultimately show ?thesis using row base ps ir c bm
    by (simp add: GetRunDetails_def w_def [symmetric] or_else_def raw_def [symmetric] Let_def execution_of_def raw)
qed

text \<open>The effect of the coordinator's two ways to record the end of a node.\<close>

lemma storeResult_run:
  assumes "reliable r" and "cs_result_data sig = Some doc"
  shows "\<exists>t n. run_state (storeResultInCAS r sig) w = (result_id (cs_run_id sig) (cs_node_id sig) t,
    w\<lparr>r_tick := n, r_strs := (r_strs w)(''cas:'' @ result_id (cs_run_id sig) (cs_node_id sig) t := Some (RDoc (GObj doc))),
      r_hash := (r_hash w)(context_key (cs_run_id sig) := AList.update (cs_node_id sig @ '':output'') (result_id (cs_run_id sig) (cs_node_id sig) t)
        (r_hash w (context_key (cs_run_id sig))))\<rparr>)"
proof -
  have "result_id run n t \<noteq> ''''" for run n t by (simp add: result_id_def)
  then show ?thesis using assms
    by (intro exI [of _ "nano r (r_tick w)"] exI [of _ "Suc (Suc (Suc (r_tick w)))"])
      (simp add: storeResultInCAS_def store_result_def record_context_def StoreContext_def run_Set)
qed

lemma handleFailed_run:
  assumes "reliable r" and "cs_result_data sig = None" and "run_state (handleFailedNode r sig i) w = (u, w')"
  shows "\<exists>ref. r_hash w' = (r_hash w)(context_key (cs_run_id sig) := AList.update (cs_node_id sig @ '':failure:output'') ref (r_hash w (context_key (cs_run_id sig))))"
    "r_strs w' = (r_strs w)(status_key (cs_run_id sig) := Some (RText ''FAILED''))"
  using assms(3)
  by (auto simp: handleFailedNode_def assms(1,2) Let_def StoreContext_def PublishWorkflowEvent_def UpdateRunStatus_def run_Set [OF assms(1)]
      run_AddToStream [OF assms(1)] run_PublishEvent [OF assms(1)] split: option.splits)

lemma key_differs:
  "ir_key run \<noteq> ''cas:'' @ x" "ir_key run \<noteq> status_key run'" "details_status_key run n \<noteq> ''cas:'' @ x" "details_status_key run n \<noteq> status_key run"
proof -
  show "details_status_key run n \<noteq> status_key run"
  proof
    assume "details_status_key run n = status_key run"
    then have "length (details_status_key run n) = length (status_key run)" by simp
    then show False by (simp add: details_status_key_def status_key_def)
  qed
qed (simp_all add: ir_key_def status_key_def details_status_key_def)

lemma at_rest_field:
  assumes "at_rest r w run i" and "r_strs w' (ir_key run) = r_strs w (ir_key run)"
    and "r_hash w' = (r_hash w)(context_key run := AList.update (n @ '':output'') ref (r_hash w (context_key run)))"
  shows "at_rest r w' run i"
proof -
  have "\<not> suffix '':failure'' (n @ '':output'')" using not_both suffix_output(1) by blast
  then show ?thesis using assms by (auto simp: at_rest_def distinct_update dom_update simp flip: image_image)
qed

text \<open>C29. The result of a node is the one that is shown. When the coordinator has stored the result of a node, the details of the run show exactly this document as
  the node's output, with the status the document states (completed if it states none), whatever was stored for the node before and
  in whichever order Go walks the maps; a result with status failed makes the run shown as FAILED.\<close>

theorem stored_result_shown:
  assumes "at_rest r w (cs_run_id sig) i" and "map_of (ir_nodes i) (cs_node_id sig) \<noteq> None" and "cs_result_data sig = Some doc"
    and "map_of (r_hash w (context_key (cs_run_id sig))) (cs_node_id sig @ ''_failure:output'') = None"
    and "run_state (storeResultInCAS r sig) w = (ref, w')"
    and "st_redis s = w'" and "run_state (run_GetByID e (cs_run_id sig)) (st_db s) = (Inr row, d1)"
  shows "\<exists>v s' x. run_state (GetRunDetails parse e r (cs_run_id sig)) s = (Inr v, s') \<and> map_of (rv_node_executions v) (cs_node_id sig) = Some x
    \<and> ne_output x = Some doc \<and> ne_status x = status_of doc \<and> ne_error x = error_of doc None
    \<and> map_of (rv_node_outputs_raw v) (cs_node_id sig) = Some (GObj doc) \<and> (status_of doc = ''failed'' \<longrightarrow> rn_status (rv_run v) = StatusFailed)"
proof -
  let ?run = "cs_run_id sig" and ?n = "cs_node_id sig"
  have r: "reliable r" using assms(1) by (simp add: at_rest_def)
  obtain t k where w': "w' = w\<lparr>r_tick := k, r_strs := (r_strs w)(''cas:'' @ result_id ?run ?n t := Some (RDoc (GObj doc))),
      r_hash := (r_hash w)(context_key ?run := AList.update (?n @ '':output'') (result_id ?run ?n t) (r_hash w (context_key ?run)))\<rparr>"
    using storeResult_run [OF r assms(3), of w] assms(5) by auto
  have st: "at_rest r (st_redis s) ?run i"
    unfolding assms(6) by (rule at_rest_field [OF assms(1)]) (simp_all add: w' ir_key_def)
  let ?out = "node_output e (st_redis s) (r_hash (st_redis s) (context_key ?run))"
  have "prefix ''artifact://'' (result_id ?run ?n t)" by (simp add: result_id_def)
  then have out: "?out ?n = Some (GObj doc)" by (simp add: assms(6) w' node_output_def blob_at_def update_conv' to_map_def)
  have "?out (?n @ ''_failure'') = None" using assms(4) by (simp add: assms(6) w' node_output_def update_conv')
  with details_of_node [OF st assms(7,2), of parse] out obtain v s' x where v: "run_state (GetRunDetails parse e r ?run) s = (Inr v, s')"
      "map_of (rv_node_executions v) ?n = Some x" "ne_output x = Some doc" "ne_status x = status_of doc" "ne_error x = error_of doc None"
      "map_of (rv_node_outputs_raw v) ?n = Some (GObj doc)"
      "rn_status (rv_run v) = display_status (rn_status row) (map (ne_status \<circ> snd) (rv_node_executions v))"
    by (auto simp: add_failure_def add_result_def)
  moreover have "status_of doc = ''failed'' \<longrightarrow> ''failed'' \<in> set (map (ne_status \<circ> snd) (rv_node_executions v))"
    using v(2,4) by (auto simp: image_iff dest!: map_of_SomeD intro: bexI [of _ "(?n, x)"])
  ultimately show ?thesis by (auto simp: display_status_def)
qed

text \<open>A failure without a result is not shown. When the coordinator records the failure of a node that left no result and has not produced one before, the details of the
  run still say that the node was not executed and show no error: the failure is recorded under a field that ends in \<open>:failure:output\<close>,
  while the details look for fields that end in \<open>:failure\<close>.\<close>

theorem failure_without_result_not_shown:
  assumes "at_rest r w (cs_run_id sig) i" and "map_of (ir_nodes i) (cs_node_id sig) \<noteq> None" and "cs_result_data sig = None"
    and "map_of (r_hash w (context_key (cs_run_id sig))) (cs_node_id sig @ '':output'') = None"
    and "map_of (r_hash w (context_key (cs_run_id sig))) (cs_node_id sig @ ''_failure:output'') = None"
    and "r_strs w (details_status_key (cs_run_id sig) (cs_node_id sig)) = None"
    and "run_state (handleFailedNode r sig i) w = ((), w')"
    and "st_redis s = w'" and "run_state (run_GetByID e (cs_run_id sig)) (st_db s) = (Inr row, d1)"
  shows "\<exists>v s' x. run_state (GetRunDetails parse e r (cs_run_id sig)) s = (Inr v, s') \<and> map_of (rv_node_executions v) (cs_node_id sig) = Some x
    \<and> ne_status x = ''not_executed'' \<and> ne_error x = None \<and> r_strs (st_redis s) (status_key (cs_run_id sig)) = Some (RText ''FAILED'')"
proof -
  let ?run = "cs_run_id sig" and ?n = "cs_node_id sig"
  have r: "reliable r" using assms(1) by (simp add: at_rest_def)
  obtain ref where h: "r_hash w' = (r_hash w)(context_key ?run := AList.update (?n @ '':failure:output'') ref (r_hash w (context_key ?run)))"
    using handleFailed_run(1) [OF r assms(3,7)] by blast
  have s: "r_strs w' = (r_strs w)(status_key ?run := Some (RText ''FAILED''))" by (rule handleFailed_run(2) [OF r assms(3,7)])
  have st: "at_rest r (st_redis s) ?run i"
    unfolding assms(8) by (rule at_rest_field [OF assms(1), where n = "?n @ '':failure''" and ref = ref]) (simp_all add: h s key_differs)
  let ?out = "node_output e (st_redis s) (r_hash (st_redis s) (context_key ?run))"
  have "?out ?n = None" "?out (?n @ ''_failure'') = None" using assms(4,5) by (simp_all add: assms(8) h node_output_def update_conv')
  with details_of_node [OF st assms(9,2), of parse] assms(6) show ?thesis
    by (auto simp: assms(8) s key_differs add_failure_def add_result_def)
qed

section \<open>A sample run\<close>

definition details_ir :: ir where
  "details_ir = \<lparr>ir_version = ''1.0'', ir_nodes = [(''A'', \<lparr>n_id = ''A'', n_type = ''http'', n_config_ref = '''', n_config = [], n_dependencies = [], n_dependents = [],
     n_wait_for_all = False, n_is_terminal = True, n_loop = None, n_branch = None\<rparr>)], ir_metadata = []\<rparr>"

definition details_world :: world where
  "details_world = empty_world\<lparr>r_strs := (\<lambda>k. if k = ir_key ''r'' then Some (RIr details_ir) else None)\<rparr>"

definition details_signal :: "string \<Rightarrow> gval smap option \<Rightarrow> completion_signal" where
  "details_signal st d = \<lparr>cs_version = ''1.0'', cs_job_id = ''j'', cs_run_id = ''r'', cs_node_id = ''A'', cs_status = st, cs_result_data = d,
     cs_result_ref = '''', cs_metadata = []\<rparr>"

definition details_site :: "world \<Rightarrow> site" where
  "details_site w = \<lparr>st_db = run_db2, st_redis = w, st_limits = (\<lambda>_. None)\<rparr>"

lemma details_at_rest: "at_rest calm_env details_world ''r'' details_ir"
  by (simp add: at_rest_def details_world_def details_ir_def empty_world_def) (simp add: calm_env_def)

lemma details_row: "\<exists>row d1. run_state (run_GetByID run_dbenv ''r'') run_db2 = (Inr row, d1)"
proof -
  have "case fst (run_state (run_GetByID run_dbenv ''r'') run_db2) of Inl _ \<Rightarrow> False | Inr _ \<Rightarrow> True" by code_simp
  then show ?thesis by (cases "run_state (run_GetByID run_dbenv ''r'') run_db2") (auto split: sum.splits)
qed

theorem stored_result_shown_witness:
  "\<exists>ref w' v s' x. run_state (storeResultInCAS calm_env (details_signal ''completed'' (Some [(''status'', GStr ''success'')]))) details_world = (ref, w')
     \<and> run_state (GetRunDetails Inr run_dbenv calm_env ''r'') (details_site w') = (Inr v, s')
     \<and> map_of (rv_node_executions v) ''A'' = Some x \<and> ne_status x = ''completed'' \<and> ne_output x = Some [(''status'', GStr ''success'')]"
proof -
  let ?sig = "details_signal ''completed'' (Some [(''status'', GStr ''success'')])"
  obtain ref w' where w: "run_state (storeResultInCAS calm_env ?sig) details_world = (ref, w')" by (cases "run_state (storeResultInCAS calm_env ?sig) details_world")
  obtain row d1 where row: "run_state (run_GetByID run_dbenv ''r'') run_db2 = (Inr row, d1)" using details_row by blast
  have sig: "cs_run_id ?sig = ''r''" "cs_node_id ?sig = ''A''" "cs_result_data ?sig = Some [(''status'', GStr ''success'')]" by (simp_all add: details_signal_def)
  have db: "run_state (run_GetByID run_dbenv (cs_run_id ?sig)) (st_db (details_site w')) = (Inr row, d1)" using row by (simp add: sig details_site_def)
  have a: "map_of (ir_nodes details_ir) (cs_node_id ?sig) \<noteq> None"
    "map_of (r_hash details_world (context_key (cs_run_id ?sig))) (cs_node_id ?sig @ ''_failure:output'') = None"
    by (simp_all add: sig details_ir_def details_world_def empty_world_def)
  have "status_of [(''status'', GStr ''success'')] = ''completed''" by (simp add: status_of_def mget_def)
  moreover have "st_redis (details_site w') = w'" by (simp add: details_site_def)
  ultimately show ?thesis
    using stored_result_shown [OF details_at_rest [folded sig(1)] a(1) sig(3) a(2) w _ db, of Inr] w unfolding sig by auto
qed

theorem failure_without_result_not_shown_witness:
  "\<exists>w' v s' x. run_state (handleFailedNode calm_env (details_signal ''failed'' None) details_ir) details_world = ((), w')
     \<and> run_state (GetRunDetails Inr run_dbenv calm_env ''r'') (details_site w') = (Inr v, s')
     \<and> map_of (rv_node_executions v) ''A'' = Some x \<and> ne_status x = ''not_executed''"
proof -
  let ?sig = "details_signal ''failed'' None"
  obtain w' where w: "run_state (handleFailedNode calm_env ?sig details_ir) details_world = ((), w')"
    by (cases "run_state (handleFailedNode calm_env ?sig details_ir) details_world") auto
  obtain row d1 where row: "run_state (run_GetByID run_dbenv ''r'') run_db2 = (Inr row, d1)" using details_row by blast
  have sig: "cs_run_id ?sig = ''r''" "cs_node_id ?sig = ''A''" "cs_result_data ?sig = None" by (simp_all add: details_signal_def)
  have db: "run_state (run_GetByID run_dbenv (cs_run_id ?sig)) (st_db (details_site w')) = (Inr row, d1)" using row by (simp add: sig details_site_def)
  have a: "map_of (ir_nodes details_ir) (cs_node_id ?sig) \<noteq> None"
    "map_of (r_hash details_world (context_key (cs_run_id ?sig))) (cs_node_id ?sig @ '':output'') = None"
    "map_of (r_hash details_world (context_key (cs_run_id ?sig))) (cs_node_id ?sig @ ''_failure:output'') = None"
    "r_strs details_world (details_status_key (cs_run_id ?sig) (cs_node_id ?sig)) = None"
    by (simp_all add: sig details_ir_def details_world_def empty_world_def details_status_key_def ir_key_def)
  have "st_redis (details_site w') = w'" by (simp add: details_site_def)
  then show ?thesis
    using failure_without_result_not_shown [OF details_at_rest [folded sig(1)] a(1) sig(3) a(2-4) w _ db, of Inr] w unfolding sig by auto
qed

end
