(* ===== verification/Workflow_Api.thy ===== *)
theory Workflow_Api
  imports Run_Details
begin

text \<open>
  The HTTP handlers of the orchestrator for workflows, artifacts and run patches (\<open>cmd/orchestrator/handlers/workflow.go\<close>,
  \<open>workflow_response.go\<close>, \<open>artifact.go\<close>, \<open>run_patch.go\<close>, \<open>placeholder.go\<close>) and the access to the user name
  (\<open>cmd/orchestrator/middleware/auth.go\<close>).

  A request is its path parameters, the header \<open>X-User-ID\<close> (empty if absent), its query parameters and its decoded body (\<open>None\<close> if
  echo cannot bind it). An answer is the list of the documents that the handler wrote with \<open>c.JSON\<close>, each with its status, and the error it returned:
  the first document fixes the status of the response, later ones are only appended to its body, and echo turns a returned error
  into a response if nothing was written before. \<open>link\<close> says whether a document can be written to the client.

  The lemmas show what an answer says about the store: which requests change a version and which do not, and that a request without
  a user is refused and carried out all the same.
\<close>

section \<open>Answers\<close>

record answer =
  an_writes :: "(nat \<times> gval smap) list"
  an_error :: "(nat \<times> string) option"

definition json :: "nat \<Rightarrow> gval smap \<Rightarrow> answer" where
  "json status body = \<lparr>an_writes = [(status, body)], an_error = None\<rparr>"

definition http_error :: "nat \<Rightarrow> string \<Rightarrow> answer" where
  "http_error status msg = \<lparr>an_writes = [], an_error = Some (status, msg)\<rparr>"

definition error_body :: "string \<Rightarrow> gval smap" where "error_body msg = [(''error'', GStr msg)]"

definition sent_status :: "answer \<Rightarrow> nat" where
  "sent_status a = (case an_writes a of (s, _) # _ \<Rightarrow> s | [] \<Rightarrow> (case an_error a of Some (s, _) \<Rightarrow> s | None \<Rightarrow> 200))"

definition last_status :: "answer \<Rightarrow> nat" where
  "last_status a = (if an_writes a = [] then sent_status a else fst (last (an_writes a)))"

lemma answer_simps [simp]:
  "an_writes (json s b) = [(s, b)]" "an_error (json s b) = None" "sent_status (json s b) = s" "last_status (json s b) = s"
  "an_writes (http_error s m) = []" "sent_status (http_error s m) = s" "last_status (http_error s m) = s"
  by (simp_all add: json_def http_error_def sent_status_def last_status_def)

section \<open>The user of a request\<close>

text \<open>\<open>ExtractUsername\<close> stores a header that is present; \<open>GetUsername\<close> reads an absent value as the empty name.\<close>

definition ExtractUsername :: "string \<Rightarrow> string option" where
  "ExtractUsername header = (if header = '''' then None else Some header)"

definition GetUsername :: "string option \<Rightarrow> string" where
  "GetUsername stored = (case stored of None \<Rightarrow> '''' | Some u \<Rightarrow> u)"

definition ExtractUsernameStrict :: "string \<Rightarrow> answer + string" where
  "ExtractUsernameStrict header = (if header = '''' then Inl (json 401 (error_body ''X-User-ID header is required'')) else Inr header)"

text \<open>\<open>RequireUsername\<close>: without a user it writes a refusal and returns the result of that write, which is an error only if the
  client is gone.\<close>

definition RequireUsername :: "bool \<Rightarrow> string option \<Rightarrow> (nat \<times> gval smap) list \<times> string res" where
  "RequireUsername link stored = (if GetUsername stored = ''''
     then ([(401, error_body ''authentication required (X-User-ID header missing)'')], if link then Inr '''' else Inl ''write failed'')
     else ([], Inr (GetUsername stored)))"

definition with_user :: "bool \<Rightarrow> string \<Rightarrow> (string \<Rightarrow> ('s, answer) state) \<Rightarrow> ('s, answer) state" where
  "with_user link header f = (case RequireUsername link (ExtractUsername header) of
     (ws, Inl x) \<Rightarrow> State_Monad.return \<lparr>an_writes = ws, an_error = Some (500, x)\<rparr>
   | (ws, Inr u) \<Rightarrow> do {
       a \<leftarrow> f u;
       State_Monad.return (a\<lparr>an_writes := ws @ an_writes a\<rparr>)})"

section \<open>Parameters\<close>

text \<open>\<open>url.QueryUnescape\<close>.\<close>

definition unhex :: "char \<Rightarrow> nat option" where
  "unhex c = (let n = (of_char c :: nat) in
     if 48 \<le> n \<and> n \<le> 57 then Some (n - 48) else if 97 \<le> n \<and> n \<le> 102 then Some (n - 87)
     else if 65 \<le> n \<and> n \<le> 70 then Some (n - 55) else None)"

fun QueryUnescape :: "string \<Rightarrow> string option" where
  "QueryUnescape [] = Some []"
| "QueryUnescape (c # cs) =
    (if c = CHR ''%'' then
       (case cs of a # b # rest \<Rightarrow>
          (case (unhex a, unhex b) of (Some x, Some y) \<Rightarrow> map_option ((#) (char_of (16 * x + y))) (QueryUnescape rest) | _ \<Rightarrow> None)
        | _ \<Rightarrow> None)
     else map_option ((#) (if c = CHR ''+'' then CHR '' '' else c)) (QueryUnescape cs))"

text \<open>\<open>fmt.Sscanf(s, "%d", &seq)\<close>: leading blanks are skipped, what follows the digits is not looked at.\<close>

definition blank :: "char \<Rightarrow> bool" where "blank c \<longleftrightarrow> (of_char c :: nat) \<in> {9, 11, 12, 13, 32}"

definition sscanf_int :: "string \<Rightarrow> int option" where
  "sscanf_int s = (let t = dropWhile blank s;
       (neg, ds) = (case t of [] \<Rightarrow> (False, []) | c # r \<Rightarrow> if c = CHR ''-'' then (True, r) else if c = CHR ''+'' then (False, r) else (False, t));
       n = takeWhile (\<lambda>c. digit c \<noteq> None) ds
     in if n = [] then None
        else case digits 0 n of None \<Rightarrow> None
          | Some v \<Rightarrow> (let i = (if neg then - v else v) in if int64_min \<le> i \<and> i \<le> int64_max then Some i else None))"

section \<open>The documents of an answer\<close>

fun kind_text :: "artifact_kind \<Rightarrow> string" where
  "kind_text KindDAGVersion = ''dag_version''"
| "kind_text KindPatchSet = ''patch_set''"
| "kind_text KindRunManifest = ''run_manifest''"
| "kind_text KindRunSnapshot = ''run_snapshot''"

definition time_doc :: "dbenv \<Rightarrow> int \<Rightarrow> gval" where "time_doc e t = GStr (db_time_text e t)"

definition int_doc :: "int \<Rightarrow> gval" where "int_doc n = GNum (of_int n)"

definition optional :: "string \<Rightarrow> ('a \<Rightarrow> gval) \<Rightarrow> 'a option \<Rightarrow> gval smap" where
  "optional k f x = (case x of None \<Rightarrow> [] | Some v \<Rightarrow> [(k, f v)])"

definition patch_metadata :: "dbenv \<Rightarrow> patch_entry \<Rightarrow> gval" where
  "patch_metadata e p = GObj ([(''seq'', int_doc (int (pi_seq p))), (''artifact_id'', GStr (pi_artifact_id p)), (''cas_id'', GStr (pi_cas_id p)),
     (''depth'', int_doc (pi_depth p)), (''created_at'', time_doc e (pi_created_at p))]
     @ optional ''op_count'' int_doc (pi_op_count p) @ optional ''created_by'' GStr (pi_created_by p))"

definition buildPatchChainMetadata :: "dbenv \<Rightarrow> patch_entry list \<Rightarrow> gval" where
  "buildPatchChainMetadata e ps = GArr (map (patch_metadata e) ps)"

definition buildComponentDetails :: "dbenv \<Rightarrow> components \<Rightarrow> gval" where
  "buildComponentDetails e w = GObj ([(''base_cas_id'', GStr (wc_base_cas_id w)), (''base_version_hash'', GStr (wc_base_version_hash w))]
     @ optional ''base_version'' GStr (wc_base_version w)
     @ (if wc_patch_chain w = [] then [] else [(''patches'', buildPatchChainMetadata e (wc_patch_chain w))]))"

definition BuildWorkflowResponse :: "dbenv \<Rightarrow> string \<Rightarrow> string \<Rightarrow> components \<Rightarrow> gval smap" where
  "BuildWorkflowResponse e tagName owner w = [(''tag'', GStr tagName), (''owner'', GStr owner), (''artifact_id'', GStr (wc_artifact_id w)),
     (''kind'', GStr (kind_text (wc_kind w))), (''depth'', int_doc (wc_depth w)), (''patch_count'', int_doc (int (wc_patch_count w))),
     (''created_at'', time_doc e (wc_created_at w))] @ optional ''created_by'' GStr (wc_created_by w)
     @ [(''components'', buildComponentDetails e w)]"

definition AddMaterializedWorkflow :: "dbenv \<Rightarrow> gval smap \<Rightarrow> components \<Rightarrow> gval smap res" where
  "AddMaterializedWorkflow e response w = (case Materialize e w of
     Inl x \<Rightarrow> Inl (''failed to materialize workflow: '' @ x)
   | Inr workflow \<Rightarrow> Inr (AList.update ''workflow'' (GObj workflow) response))"

text \<open>The end of \<open>GetWorkflow\<close> and \<open>GetWorkflowVersion\<close>.\<close>

definition answer_workflow :: "dbenv \<Rightarrow> bool \<Rightarrow> gval smap \<Rightarrow> components \<Rightarrow> answer" where
  "answer_workflow e materialize response w = (if materialize
     then (case AddMaterializedWorkflow e response w of Inl x \<Rightarrow> json 500 (error_body (''failed to materialize workflow: '' @ x)) | Inr r \<Rightarrow> json 200 r)
     else json 200 (AList.update ''workflow'' GNil response))"

section \<open>Workflows\<close>

definition create_as :: "dbenv \<Rightarrow> create_workflow_request option \<Rightarrow> string \<Rightarrow> answer dbio" where
  "create_as e body username = (case body of None \<Rightarrow> State_Monad.return (json 400 (error_body ''invalid request body''))
     | Some req \<Rightarrow>
       if wq_tag_name req = '''' then State_Monad.return (json 400 (error_body ''tag_name is required''))
       else if wq_workflow req = [] then State_Monad.return (json 400 (error_body ''workflow is required''))
       else if ValidateUserTagName (wq_tag_name req) \<noteq> ''''
       then State_Monad.return (json 400 (error_body (''invalid tag_name: '' @ ValidateUserTagName (wq_tag_name req))))
       else do {
         r \<leftarrow> CreateWorkflow e (req\<lparr>wq_created_by := username, wq_username := username\<rparr>);
         State_Monad.return (case r of
            Inl x \<Rightarrow> json 500 (error_body (''failed to create workflow: '' @ x))
          | Inr y \<Rightarrow> json 201 [(''artifact_id'', GStr (wr_artifact_id y)), (''cas_id'', GStr (wr_cas_id y)), (''version_hash'', GStr (wr_version_hash y)),
              (''tag'', GStr (wr_tag_name y)), (''owner'', GStr (wr_username y)), (''nodes_count'', int_doc (wr_nodes_count y)),
              (''edges_count'', int_doc (wr_edges_count y)), (''created_at'', time_doc e (wr_created_at y))])})"

definition handler_CreateWorkflow :: "dbenv \<Rightarrow> bool \<Rightarrow> string \<Rightarrow> create_workflow_request option \<Rightarrow> answer dbio" where
  "handler_CreateWorkflow e link header body = with_user link header (create_as e body)"

text \<open>Most handlers begin with the decoded tag and the user and then check the tag.\<close>

definition with_tag :: "bool \<Rightarrow> string \<Rightarrow> string \<Rightarrow> (string \<Rightarrow> string \<Rightarrow> ('s, answer) state) \<Rightarrow> ('s, answer) state" where
  "with_tag link header encoded f = (case QueryUnescape encoded of
     None \<Rightarrow> State_Monad.return (json 400 (error_body ''invalid tag name encoding''))
   | Some tagName \<Rightarrow> with_user link header (\<lambda>username. f username tagName))"

definition checked_tag :: "string \<Rightarrow> ('s, answer) state \<Rightarrow> ('s, answer) state" where
  "checked_tag tagName m = (if ValidateUserTagName tagName \<noteq> ''''
     then State_Monad.return (json 400 (error_body (''invalid tag name: '' @ ValidateUserTagName tagName))) else m)"

definition handler_GetWorkflow :: "dbenv \<Rightarrow> bool \<Rightarrow> string \<Rightarrow> string \<Rightarrow> string \<Rightarrow> answer dbio" where
  "handler_GetWorkflow e link header encoded materializeParam = with_tag link header encoded (\<lambda>username tagName.
     if tagName = '''' then State_Monad.return (json 400 (error_body ''tag name is required''))
     else checked_tag tagName (do {
       r \<leftarrow> GetWorkflowComponents e username tagName;
       State_Monad.return (case r of
          Inl _ \<Rightarrow> json 404 (error_body ''workflow not found'')
        | Inr w \<Rightarrow> answer_workflow e (materializeParam = ''true'') (BuildWorkflowResponse e tagName username w) w)}))"

definition tag_doc :: "dbenv \<Rightarrow> tag \<Rightarrow> gval" where
  "tag_doc e t = GObj ([(''tag'', GStr (tg_name t)), (''owner'', GStr (tg_username t)), (''target_id'', GStr (tg_target_id t)),
     (''target_kind'', GStr (kind_text (tg_target_kind t))), (''version'', int_doc (tg_version t)), (''moved_at'', time_doc e (tg_moved_at t))]
     @ optional ''created_by'' GStr (tg_created_by t) @ optional ''moved_by'' GStr (tg_moved_by t))"

definition answer_tags :: "dbenv \<Rightarrow> string \<Rightarrow> tag list res \<Rightarrow> answer" where
  "answer_tags e scope r = (case r of Inl _ \<Rightarrow> json 500 (error_body ''failed to list workflows'')
     | Inr tags \<Rightarrow> json 200 [(''workflows'', GArr (map (tag_doc e) tags)), (''count'', int_doc (int (length tags))), (''scope'', GStr scope)])"

definition handler_ListWorkflows :: "dbenv \<Rightarrow> bool \<Rightarrow> string \<Rightarrow> string \<Rightarrow> answer dbio" where
  "handler_ListWorkflows e link header scopeParam = with_user link header (\<lambda>username.
     let scope = (if scopeParam = '''' then ''user'' else scopeParam) in
     if scope = ''user'' then do {r \<leftarrow> ListUserTags e username; State_Monad.return (answer_tags e scope r)}
     else if scope = ''global'' then do {r \<leftarrow> ListGlobalTags e; State_Monad.return (answer_tags e scope r)}
     else if scope = ''all'' then do {r \<leftarrow> ListAllAccessibleTags e username; State_Monad.return (answer_tags e scope r)}
     else State_Monad.return (json 400 (error_body ''invalid scope parameter (must be 'user', 'global', or 'all')'')))"

definition handler_DeleteWorkflow :: "dbenv \<Rightarrow> bool \<Rightarrow> string \<Rightarrow> string \<Rightarrow> answer dbio" where
  "handler_DeleteWorkflow e link header encoded = with_tag link header encoded (\<lambda>username tagName.
     if tagName = '''' then State_Monad.return (json 400 (error_body ''tag name is required''))
     else checked_tag tagName (do {
       r \<leftarrow> DeleteTag e username tagName;
       State_Monad.return (case r of
          Inl _ \<Rightarrow> json 500 (error_body ''failed to delete workflow'')
        | Inr _ \<Rightarrow> json 200 [(''message'', GStr ''workflow tag deleted successfully''), (''tag'', GStr tagName), (''owner'', GStr username)])}))"

text \<open>\<open>PatchWorkflow\<close>: the operations are tried on the current workflow before they are stored.\<close>

definition store_patch :: "dbenv \<Rightarrow> create_patch_request \<Rightarrow> answer dbio" where
  "store_patch e req = do {
     r \<leftarrow> workflow_CreatePatch e req;
     State_Monad.return (case r of
        Inl x \<Rightarrow> json 500 (error_body (''failed to save patch: '' @ x))
      | Inr y \<Rightarrow> json 200 [(''artifact_id'', GStr (pr_artifact_id y)), (''cas_id'', GStr (pr_cas_id y)), (''depth'', int_doc (pr_depth y)),
          (''op_count'', int_doc (pr_op_count y)), (''tag'', GStr (pr_tag_name y)), (''owner'', GStr (pr_username y)),
          (''description'', GStr (pq_description req)), (''created_at'', time_doc e (pr_created_at y))])}"

definition try_patch :: "dbenv \<Rightarrow> create_patch_request \<Rightarrow> components res \<Rightarrow> answer dbio" where
  "try_patch e req r = (case r of
     Inl _ \<Rightarrow> State_Monad.return (json 404 (error_body ''workflow not found''))
   | Inr w \<Rightarrow> (case Materialize e w of
       Inl _ \<Rightarrow> State_Monad.return (json 500 (error_body ''failed to load current workflow''))
     | Inr currentWorkflow \<Rightarrow> (case ApplyJSONPatchToWorkflow currentWorkflow (pq_operations req) of
         Inl x \<Rightarrow> State_Monad.return (json 400 (error_body (''invalid patch operations: '' @ x)))
       | Inr _ \<Rightarrow> store_patch e req)))"

definition patch_as :: "dbenv \<Rightarrow> (gval smap list \<times> string) option \<Rightarrow> string \<Rightarrow> string \<Rightarrow> answer dbio" where
  "patch_as e body username tagName = (case body of None \<Rightarrow> State_Monad.return (json 400 (error_body ''invalid request body''))
     | Some (operations, description) \<Rightarrow>
       if operations = [] then State_Monad.return (json 400 (error_body ''operations array is required and cannot be empty''))
       else checked_tag tagName (do {
         r \<leftarrow> GetWorkflowComponents e username tagName;
         try_patch e \<lparr>pq_username = username, pq_tag_name = tagName, pq_operations = operations, pq_description = description, pq_created_by = username\<rparr> r}))"

definition handler_PatchWorkflow :: "dbenv \<Rightarrow> bool \<Rightarrow> string \<Rightarrow> string \<Rightarrow> (gval smap list \<times> string) option \<Rightarrow> answer dbio" where
  "handler_PatchWorkflow e link header encoded body = with_tag link header encoded (patch_as e body)"

definition handler_GetWorkflowVersion :: "dbenv \<Rightarrow> bool \<Rightarrow> string \<Rightarrow> string \<Rightarrow> string \<Rightarrow> string \<Rightarrow> answer dbio" where
  "handler_GetWorkflowVersion e link header encoded seqStr materializeParam = with_tag link header encoded (\<lambda>username tagName.
     if tagName = '''' then State_Monad.return (json 400 (error_body ''tag name is required''))
     else if seqStr = '''' then State_Monad.return (json 400 (error_body ''seq is required''))
     else case sscanf_int seqStr of None \<Rightarrow> State_Monad.return (json 400 (error_body ''seq must be a valid integer''))
     | Some seq \<Rightarrow> checked_tag tagName (do {
         r \<leftarrow> GetWorkflowComponentsAtVersion e username tagName seq;
         State_Monad.return (case r of
            Inl x \<Rightarrow> json 404 (error_body (''workflow version not found: '' @ x))
          | Inr w \<Rightarrow> answer_workflow e (materializeParam = ''true'') (AList.update ''seq'' (int_doc seq) (BuildWorkflowResponse e tagName username w)) w)}))"

section \<open>Artifacts and run patches\<close>

definition handler_GetArtifact :: "(string \<Rightarrow> string res) \<Rightarrow> dbenv \<Rightarrow> string \<Rightarrow> answer dbio" where
  "handler_GetArtifact parse e artifactIDStr = (case parse artifactIDStr of
     Inl _ \<Rightarrow> State_Monad.return (http_error 400 ''invalid artifact_id format'')
   | Inr artifactID \<Rightarrow> do {
       r \<leftarrow> GetByID e artifactID;
       (case r of Inl _ \<Rightarrow> State_Monad.return (http_error 404 ''artifact not found'')
        | Inr a \<Rightarrow> do {
            c \<leftarrow> GetContent e (ar_cas_id a);
            State_Monad.return (case c of Inl _ \<Rightarrow> http_error 500 ''failed to retrieve artifact content''
              | Inr content \<Rightarrow> (case db_parse e content of Inl _ \<Rightarrow> http_error 500 ''failed to parse artifact content''
                | Inr contentJSON \<Rightarrow> json 200 [(''artifact_id'', GStr (ar_id a)), (''kind'', GStr (kind_text (ar_kind a))), (''cas_id'', GStr (ar_cas_id a)),
                    (''created_by'', GStr (ar_created_by a)), (''created_at'', time_doc e (ar_created_at a)), (''content'', contentJSON)]))})})"

record run_patch_body =
  rb_node_id :: string
  rb_operations :: "gval smap list"
  rb_description :: string

definition handler_CreateRunPatch :: "(string \<Rightarrow> string res) \<Rightarrow> dbenv \<Rightarrow> bool \<Rightarrow> string \<Rightarrow> string \<Rightarrow> run_patch_body option \<Rightarrow> answer dbio" where
  "handler_CreateRunPatch parse e link header runID body =
    (if runID = '''' then State_Monad.return (json 400 (error_body ''run_id is required''))
     else with_user link header (\<lambda>username. case body of None \<Rightarrow> State_Monad.return (json 400 (error_body ''invalid request body''))
     | Some b \<Rightarrow>
       if rb_operations b = [] then State_Monad.return (json 400 (error_body ''operations array is required and cannot be empty''))
       else do {
         r \<leftarrow> CreateRunPatch parse e \<lparr>cq_run_id = runID, cq_node_id = rb_node_id b, cq_operations = rb_operations b,
            cq_description = rb_description b, cq_created_by = username\<rparr>;
         State_Monad.return (case r of Inl _ \<Rightarrow> json 500 (error_body ''failed to create run patch'')
           | Inr y \<Rightarrow> json 201 [(''id'', GStr (cp_id y)), (''run_id'', GStr (cp_run_id y)), (''artifact_id'', GStr (cp_artifact_id y)), (''cas_id'', GStr (cp_cas_id y)),
               (''seq'', int_doc (cp_seq y)), (''op_count'', int_doc (cp_op_count y)), (''description'', GStr (cp_description y)), (''created_by'', GStr (cp_created_by y))])}))"

definition run_patch_doc :: "dbenv \<Rightarrow> run_patch_details \<Rightarrow> gval" where
  "run_patch_doc e p = (let q = rd_patch p in GObj ([(''id'', GStr (rp_id q)), (''run_id'', GStr (rp_run_id q)), (''artifact_id'', GStr (rp_artifact_id q)),
     (''seq'', int_doc (rp_seq q))] @ optional ''node_id'' GStr (rp_node_id q) @ optional ''description'' GStr (rp_description q)
     @ [(''created_at'', time_doc e (rp_created_at q))] @ optional ''created_by'' GStr (rp_created_by q)
     @ [(''cas_id'', GStr (rd_cas_id p))] @ optional ''op_count'' int_doc (rd_op_count p) @ [(''depth'', int_doc (rd_depth p))]))"

definition handler_GetRunPatches :: "dbenv \<Rightarrow> bool \<Rightarrow> string \<Rightarrow> string \<Rightarrow> answer dbio" where
  "handler_GetRunPatches e link header runID =
    (if runID = '''' then State_Monad.return (json 400 (error_body ''run_id is required''))
     else with_user link header (\<lambda>username. do {
       r \<leftarrow> GetRunPatches e runID;
       State_Monad.return (case r of Inl _ \<Rightarrow> json 500 (error_body ''failed to get run patches'')
         | Inr ps \<Rightarrow> json 200 [(''run_id'', GStr runID), (''patches'', GArr (map (run_patch_doc e) ps)), (''count'', int_doc (int (length ps)))])}))"

definition handler_GetPatchOperations :: "dbenv \<Rightarrow> bool \<Rightarrow> string \<Rightarrow> string \<Rightarrow> string \<Rightarrow> answer dbio" where
  "handler_GetPatchOperations e link header runID casID =
    (if runID = '''' \<or> casID = '''' then State_Monad.return (json 400 (error_body ''run_id and cas_id are required''))
     else with_user link header (\<lambda>username. do {
       r \<leftarrow> service_GetPatchOperations e casID;
       State_Monad.return (case r of Inl _ \<Rightarrow> json 500 (error_body ''failed to get patch operations'')
         | Inr ops \<Rightarrow> json 200 [(''run_id'', GStr runID), (''cas_id'', GStr casID), (''operations'', GArr (map GObj ops))])}))"

definition NotImplemented :: answer where
  "NotImplemented = json 501 (error_body ''This endpoint is not yet implemented'')"

section \<open>Requests with and without a user\<close>

definition refusal :: "string \<Rightarrow> (nat \<times> gval smap) list" where
  "refusal header = (if header = '''' then [(401, error_body ''authentication required (X-User-ID header missing)'')] else [])"

lemma with_user_run:
  assumes "link \<or> header \<noteq> ''''"
  shows "run_state (with_user link header f) s = (case run_state (f header) s of (a, s') \<Rightarrow> (a\<lparr>an_writes := refusal header @ an_writes a\<rparr>, s'))"
  using assms by (auto simp: with_user_def RequireUsername_def ExtractUsername_def GetUsername_def refusal_def split: prod.split)

lemma refused_status:
  "sent_status (a\<lparr>an_writes := refusal header @ an_writes a\<rparr>) = (if header = '''' then 401 else sent_status a)"
  "an_writes a \<noteq> [] \<Longrightarrow> last_status (a\<lparr>an_writes := refusal header @ an_writes a\<rparr>) = last_status a"
  by (simp_all add: sent_status_def last_status_def refusal_def split: list.split option.split)

text \<open>What the store looks like after a request: the version of one tag is replaced if the last document has the status \<open>st\<close>, and otherwise no version changes.\<close>

definition sets_version :: "nat \<Rightarrow> string \<times> string \<Rightarrow> (string \<times> string list \<Rightarrow> bool) \<Rightarrow> answer \<Rightarrow> db \<Rightarrow> db \<Rightarrow> bool" where
  "sets_version st k P a d d' \<longleftrightarrow> (if last_status a = st then \<exists>v. P v \<and> versions d' = (versions d)(k \<mapsto> v) else versions d' = versions d)"

lemma sets_version_refused:
  "an_writes a \<noteq> [] \<Longrightarrow> sets_version st k P (a\<lparr>an_writes := refusal header @ an_writes a\<rparr>) d d' = sets_version st k P a d d'"
  by (simp add: sets_version_def refused_status)

lemma reads_answer [reads_intros]:
  "(\<And>u. reads (f u)) \<Longrightarrow> reads (with_user link header f)"
  "(\<And>u t. reads (g u t)) \<Longrightarrow> reads (with_tag link header enc g)"
  "reads m \<Longrightarrow> reads (checked_tag t m)"
  by (auto simp: with_user_def with_tag_def checked_tag_def intro!: reads_intros split: prod.split sum.split option.split)

lemma reads_version [reads_intros]: "reads (GetWorkflowComponents e u n)" "reads (GetWorkflowComponentsAtVersion e u n k)"
  "reads (ListUserTags e u)" "reads (ListGlobalTags e)" "reads (ListAllAccessibleTags e u)" "reads (GetRunPatches e run)" "reads (service_GetPatchOperations e c)"
  using reads_components
  by (auto simp: GetWorkflowComponentsAtVersion_def loadBaseVersionOnly_def loadPatchSetComponentsAtVersion_def loadDAGVersionComponents_def loadBaseDAG_def loadPatchChain_def
      ListUserTags_def ListGlobalTags_def ListAllAccessibleTags_def tag_ListByUsername_def GetRunPatches_def service_GetPatchOperations_def Let_def
      intro!: reads_intros split: sum.split option.split)

text \<open>Requests that read change nothing: whatever the parameters are, whether the user is known or not and whichever statement fails, the store holds
  afterwards what it held before.\<close>

theorem get_requests_change_nothing:
  "untick (snd (run_state (handler_GetWorkflow e link header enc mat) d)) = untick d
   \<and> untick (snd (run_state (handler_GetWorkflowVersion e link header enc sq mat) d)) = untick d
   \<and> untick (snd (run_state (handler_ListWorkflows e link header scope) d)) = untick d
   \<and> untick (snd (run_state (handler_GetArtifact parse e i) d)) = untick d
   \<and> untick (snd (run_state (handler_GetRunPatches e link header run) d)) = untick d
   \<and> untick (snd (run_state (handler_GetPatchOperations e link header run c) d)) = untick d"
proof -
  have "reads (handler_GetWorkflow e link header enc mat)" "reads (handler_GetWorkflowVersion e link header enc sq mat)"
    "reads (handler_ListWorkflows e link header scope)" "reads (handler_GetArtifact parse e i)"
    "reads (handler_GetRunPatches e link header run)" "reads (handler_GetPatchOperations e link header run c)"
    unfolding handler_GetWorkflow_def handler_GetWorkflowVersion_def handler_ListWorkflows_def handler_GetArtifact_def handler_GetRunPatches_def handler_GetPatchOperations_def GetByID_def Let_def
    by (auto intro!: reads_intros split: option.split sum.split)
  then show ?thesis by (simp add: reads_def)
qed

lemma create_as_run:
  assumes ok: "catalog_ok e d" and nc: "no_collision e d (marshal e (GObj (wq_workflow req)))" and run: "run_state (create_as e (Some req) u) d = (a, d')"
  shows "catalog_ok e d' \<and> (\<exists>w. an_writes a = [w]) \<and> sets_version 201 (u, wq_tag_name req) (\<lambda>v. v = (marshal e (GObj (wq_workflow req)), [])) a d d'"
proof -
  let ?req = "req\<lparr>wq_created_by := u, wq_username := u\<rparr>"
  obtain y d2 where y: "run_state (CreateWorkflow e ?req) d = (y, d2)" by (cases "run_state (CreateWorkflow e ?req) d")
  have "no_collision e d (marshal e (GObj (wq_workflow ?req)))" using nc by simp
  note v = CreateWorkflow_refines [OF ok this y]
  from run consider (bad) "\<exists>msg. a = json 400 (error_body msg)" "d' = d"
    | (err) x msg where "y = Inl x" "a = json 500 (error_body msg)" "d' = d2"
    | (stored) z body where "y = Inr z" "a = json 201 body" "d' = d2"
    using y by (cases y) (auto simp: create_as_def split: if_splits)
  then show ?thesis by cases (use ok v in \<open>auto simp: sets_version_def\<close>)
qed

lemma single_write: "\<exists>w. an_writes a = [w] \<Longrightarrow> sent_status a = last_status a"
  by (auto simp: sent_status_def last_status_def)

lemma create_request_run:
  assumes "catalog_ok e d" and "no_collision e d (marshal e (GObj (wq_workflow req)))" and h: "link \<or> header \<noteq> ''''"
    and run: "run_state (handler_CreateWorkflow e link header (Some req)) d = (a, d')"
  shows "catalog_ok e d' \<and> sets_version 201 (header, wq_tag_name req) (\<lambda>v. v = (marshal e (GObj (wq_workflow req)), [])) a d d'
    \<and> sent_status a = (if header = '''' then 401 else last_status a)"
proof -
  obtain b where b: "run_state (create_as e (Some req) header) d = (b, d')" "a = b\<lparr>an_writes := refusal header @ an_writes b\<rparr>"
    using run by (auto simp: handler_CreateWorkflow_def with_user_run [OF h] split: prod.splits)
  note c = create_as_run [OF assms(1,2) b(1)]
  then have "an_writes b \<noteq> []" by auto
  then show ?thesis using c single_write [of b] by (auto simp: b(2) sets_version_refused refused_status)
qed

text \<open>C37. What creating a workflow answers. In every reachable store a request that is answered 201 has set the version of the user's tag to the text of the
  workflow and no other tag; any other answer means that no version changed. A request without a user is answered with
  status 401, but it is carried out all the same, for the user with the empty name.\<close>

theorem create_request_exact:
  assumes "(run_step parse e)\<^sup>*\<^sup>* empty_db d" and "no_collision e d (marshal e (GObj (wq_workflow req)))" and "link \<or> header \<noteq> ''''"
    and "run_state (handler_CreateWorkflow e link header (Some req)) d = (a, d')"
  shows "versions d' = (if last_status a = 201 then (versions d)((header, wq_tag_name req) \<mapsto> (marshal e (GObj (wq_workflow req)), [])) else versions d)
    \<and> sent_status a = (if header = '''' then 401 else last_status a)"
proof -
  have "catalog_ok e d" using runs_reachable_ok [OF assms(1)] by (simp add: runs_ok_def)
  from create_request_run [OF this assms(2-4)] show ?thesis by (auto simp: sets_version_def split: if_splits)
qed

lemma with_tag_run:
  assumes "link \<or> header \<noteq> ''''" and "QueryUnescape enc = Some n"
  shows "run_state (with_tag link header enc f) s = (case run_state (f header n) s of (a, s') \<Rightarrow> (a\<lparr>an_writes := refusal header @ an_writes a\<rparr>, s'))"
  using assms(2) with_user_run [OF assms(1)] by (simp add: with_tag_def)

text \<open>The workflow that a version denotes, and the versions a request with the operations \<open>ops\<close> may produce from it.\<close>

definition denotes :: "dbenv \<Rightarrow> string \<times> string list \<Rightarrow> gval smap \<Rightarrow> bool" where
  "denotes e v doc \<longleftrightarrow> (\<exists>json. apply_all e (fst v) (snd v) = Some json \<and> unmarshalWorkflow e json = Inr doc)"

definition patched :: "dbenv \<Rightarrow> (string \<times> string list) option \<Rightarrow> gval smap list \<Rightarrow> string \<times> string list \<Rightarrow> bool" where
  "patched e v ops v' \<longleftrightarrow> (\<exists>c ps wf wf'. v = Some (c, ps) \<and> denotes e (c, ps) wf \<and> ApplyJSONPatchToWorkflow wf ops = Inr wf'
     \<and> v' = (c, ps @ [marshal e (GArr (map GObj ops))]))"

lemma patch_as_run:
  assumes r: "db_reliable e" and ok: "catalog_ok e d" and nc: "no_collision e d (marshal e (GArr (map GObj ops)))"
    and run: "run_state (patch_as e (Some (ops, desc)) u n) d = (a, d')"
  shows "catalog_ok e d' \<and> (\<exists>w. an_writes a = [w]) \<and> sets_version 200 (u, n) (patched e (versions d (u, n)) ops) a d d'"
proof -
  let ?req = "\<lparr>pq_username = u, pq_tag_name = n, pq_operations = ops, pq_description = desc, pq_created_by = u\<rparr>"
  have ptext: "patch_text e ?req = marshal e (GArr (map GObj ops))" by (simp add: patch_text_def)
  obtain x d1 where x: "run_state (GetWorkflowComponents e u n) d = (x, d1)" by (cases "run_state (GetWorkflowComponents e u n) d")
  have t: "untick d1 = untick d" by (rule readsD [OF reads_version(1) x])
  have ok1: "catalog_ok e d1" by (rule catalog_ok_untick [OF t ok])
  have v1: "versions d1 = versions d" using same_versions(2) [OF ok extends_untick [OF t]] by simp
  have nc1: "no_collision e d1 (patch_text e ?req)" using nc untick_eq [OF t] by (simp add: ptext no_collision_def)
  obtain y d2 where y: "run_state (workflow_CreatePatch e ?req) d1 = (y, d2)" by (cases "run_state (workflow_CreatePatch e ?req) d1")
  note p = CreatePatch_refines [OF ok1 nc1 y]
  from run consider (early) st msg where "a = json st (error_body msg)" "st \<noteq> 200" "d' = d"
    | (late) st msg where "a = json st (error_body msg)" "st \<noteq> 200" "d' = d1"
    | (failed) z msg where "y = Inl z" "a = json 500 (error_body msg)" "d' = d2"
    | (stored) w wf wf' z body where "x = Inr w" "Materialize e w = Inr wf" "ApplyJSONPatchToWorkflow wf ops = Inr wf'" "y = Inr z" "a = json 200 body" "d' = d2"
    using x y by (cases x; cases y) (auto simp: patch_as_def checked_tag_def try_patch_def store_patch_def split: if_splits sum.splits)
  then show ?thesis
  proof cases
    case stored
    then obtain c ps where v: "versions d (u, n) = Some (c, ps)" "versions d' = (versions d)((u, n) \<mapsto> (c, ps @ [patch_text e ?req]))"
      using p v1 by auto
    from GetWorkflowComponents_reads [OF r ok v(1)] x stored(1) have "holds_version w c ps" by auto
    then have "denotes e (c, ps) wf" using Materialize_iff [of w e wf] stored(2) by (auto simp: denotes_def holds_version_def)
    then show ?thesis using v stored p ptext by (auto simp: sets_version_def patched_def)
  qed (use ok ok1 v1 p in \<open>auto simp: sets_version_def\<close>)
qed


text \<open>C38. What was created is served. On a working database, after a request that created a workflow was answered 201, the request for the materialized workflow of
  the same tag is answered with exactly the document that was sent (if encoding and decoding it is the identity).\<close>

theorem created_workflow_is_served:
  assumes "(run_step parse e)\<^sup>*\<^sup>* empty_db d" and "db_reliable e" and "no_collision e d (marshal e (GObj (wq_workflow req)))" and "header \<noteq> ''''"
    and "unmarshalWorkflow e (marshal e (GObj (wq_workflow req))) = Inr (wq_workflow req)"
    and "run_state (handler_CreateWorkflow e link header (Some req)) d = (a, d1)" and "sent_status a = 201"
    and "QueryUnescape enc = Some (wq_tag_name req)" and "ValidateUserTagName (wq_tag_name req) = ''''"
  shows "\<exists>body d2. run_state (handler_GetWorkflow e link header enc ''true'') d1 = (json 200 body, d2)
    \<and> map_of body ''workflow'' = Some (GObj (wq_workflow req)) \<and> map_of body ''owner'' = Some (GStr header)"
proof -
  have ok: "catalog_ok e d" using runs_reachable_ok [OF assms(1)] by (simp add: runs_ok_def)
  have h: "link \<or> header \<noteq> ''''" using assms(4) by simp
  note c = create_request_run [OF ok assms(3) h assms(6)]
  have "last_status a = 201" using c assms(4,7) by simp
  then have v: "versions d1 (header, wq_tag_name req) = Some (marshal e (GObj (wq_workflow req)), [])" using c by (auto simp: sets_version_def)
  from GetWorkflowComponents_reads [OF assms(2) conjunct1 [OF c] v] obtain w m where
    w: "run_state (GetWorkflowComponents e header (wq_tag_name req)) d1 = (Inr w, d1\<lparr>d_tick := m\<rparr>)" "holds_version w (marshal e (GObj (wq_workflow req))) []" by blast
  have "Materialize e w = Inr (wq_workflow req)" using Materialize_eq [OF w(2)] assms(5) by simp
  moreover have "wq_tag_name req \<noteq> ''''" using assms(9) by (auto simp: ValidateUserTagName_def)
  ultimately show ?thesis using w(1) assms(4,9)
    by (auto simp: handler_GetWorkflow_def with_tag_run [OF h assms(8)] checked_tag_def answer_workflow_def AddMaterializedWorkflow_def refusal_def update_conv'
        BuildWorkflowResponse_def optional_def json_def split: option.split)
qed

section \<open>Sample requests\<close>

definition api_dbenv :: dbenv where
  "api_dbenv = sample_dbenv\<lparr>db_parse := (\<lambda>_. Inr (GObj [(''name'', GStr ''w'')]))\<rparr>"

definition api_create :: create_workflow_request where
  "api_create = \<lparr>wq_username = '''', wq_tag_name = ''main'', wq_workflow = [(''name'', GStr ''w'')], wq_created_by = ''''\<rparr>"

definition api_ops :: "gval smap list" where
  "api_ops = [[(''op'', GStr ''add''), (''path'', GStr ''/nodes/-''), (''value'', GObj [(''id'', GStr ''c'')])]]"

definition api_db :: db where "api_db = snd (run_state (handler_CreateWorkflow api_dbenv True ''alice'' (Some api_create)) empty_db)"

lemma api_no_collision [simp]: "no_collision api_dbenv d c"
  by (simp add: no_collision_def api_dbenv_def sample_dbenv_def)

lemma api_reliable: "db_reliable api_dbenv"
  by (simp add: db_reliable_def api_dbenv_def sample_dbenv_def)

lemma api_created:
  "sent_status (fst (run_state (handler_CreateWorkflow api_dbenv True ''alice'' (Some api_create)) empty_db)) = 201"
  "last_status (fst (run_state (handler_CreateWorkflow api_dbenv True '''' (Some api_create)) empty_db)) = 201"
  "last_status (fst (run_state (handler_PatchWorkflow api_dbenv True ''alice'' ''main'' (Some (api_ops, ''''))) api_db)) = 200"
  by code_simp+

lemma api_reached: "(run_step Inr api_dbenv)\<^sup>*\<^sup>* empty_db api_db"
proof -
  let ?req = "api_create\<lparr>wq_created_by := ''alice'', wq_username := ''alice''\<rparr>"
  have "api_db = snd (run_state (CreateWorkflow api_dbenv ?req) empty_db)"
    by (simp add: api_db_def handler_CreateWorkflow_def with_user_run create_as_def api_create_def ValidateUserTagName_def HasPrefix_def GlobalUsername_def split: prod.split)
  moreover have "run_step Inr api_dbenv empty_db (snd (run_state (CreateWorkflow api_dbenv ?req) empty_db))"
    by (rule run_step.workflow, rule store_step.create [OF prod.collapse [symmetric]]) simp
  ultimately show ?thesis by simp
qed

theorem create_request_exact_witness:
  "\<exists>a d'. run_state (handler_CreateWorkflow api_dbenv True '''' (Some api_create)) empty_db = (a, d') \<and> sent_status a = 401
     \<and> versions d' ('''', ''main'') = Some (marshal api_dbenv (GObj [(''name'', GStr ''w'')]), [])"
proof -
  obtain a d' where a: "run_state (handler_CreateWorkflow api_dbenv True '''' (Some api_create)) empty_db = (a, d')"
    by (cases "run_state (handler_CreateWorkflow api_dbenv True '''' (Some api_create)) empty_db")
  have "last_status a = 201" using api_created(2) by (simp add: a)
  with create_request_exact [OF rtranclp.rtrancl_refl [of "run_step Inr api_dbenv"] api_no_collision _ a] a show ?thesis by (simp add: api_create_def)
qed


theorem created_workflow_is_served_witness:
  "\<exists>body d2. run_state (handler_GetWorkflow api_dbenv True ''alice'' ''main'' ''true'') api_db = (json 200 body, d2)
     \<and> map_of body ''workflow'' = Some (GObj [(''name'', GStr ''w'')])"
proof -
  obtain a where a: "run_state (handler_CreateWorkflow api_dbenv True ''alice'' (Some api_create)) empty_db = (a, api_db)"
    by (cases "run_state (handler_CreateWorkflow api_dbenv True ''alice'' (Some api_create)) empty_db") (simp add: api_db_def)
  have "sent_status a = 201" using api_created(1) by (simp add: a)
  moreover have u: "unmarshalWorkflow api_dbenv (marshal api_dbenv (GObj (wq_workflow api_create))) = Inr (wq_workflow api_create)"
    "QueryUnescape ''main'' = Some (wq_tag_name api_create)" "ValidateUserTagName (wq_tag_name api_create) = ''''" by code_simp+
  moreover have "wq_workflow api_create = [(''name'', GStr ''w'')]" by (simp add: api_create_def)
  ultimately show ?thesis
    using created_workflow_is_served [OF rtranclp.rtrancl_refl [of "run_step Inr api_dbenv"] api_reliable api_no_collision _ u(1) a _ u(2,3)] by auto
qed

end
