(* ===== verification/Run_Api.thy ===== *)
theory Run_Api
  imports Workflow_Api Compiler_Correct
begin

text \<open>
  The HTTP handlers of the orchestrator for runs (\<open>cmd/orchestrator/handlers/run.go\<close>): starting a run, reading and listing runs, and patching the
  intermediate representation of a run that is under way. Requests and answers are as in \<open>Workflow_Api\<close>; a panic of a handler
  is caught by echo's recovery and answered with status 500.

  The lemmas show what a patch of a running workflow does to its graph and to its owner, and that a workflow with a loop
  cannot be patched.
\<close>

section \<open>From the representation back to a schema\<close>

record patch_operation =
  po_op :: string
  po_path :: string
  po_value :: gval

text \<open>The configuration of a node: \<open>None\<close> is the nil map, which a stored \<open>null\<close> leaves behind.\<close>

definition load_node_config :: "env \<Rightarrow> node \<Rightarrow> gval smap option io" where
  "load_node_config r n = (if n_config_ref n = '''' then State_Monad.return (Some [])
     else do {
       x \<leftarrow> cas_Get r (n_config_ref n);
       State_Monad.return (case x of Inr (GRaw (GObj m)) \<Rightarrow> Some m | Inr (GRaw GNil) \<Rightarrow> None | _ \<Rightarrow> Some [])})"

text \<open>The loop's parameters; they have the Go types \<open>int\<close> and \<open>[]string\<close>.\<close>

definition loop_fields :: "loop_config \<Rightarrow> gval smap \<Rightarrow> gval smap" where
  "loop_fields l m =
     (let m1 = AList.update ''loop_back_to'' (GStr (l_loop_back_to l)) (AList.update ''max_iterations'' (GOther ''int'') m);
          m2 = (case l_condition l of None \<Rightarrow> m1 | Some c \<Rightarrow> AList.update ''condition'' (GStr (c_expression c)) m1);
          m3 = (if l_break_path l = [] then m2 else AList.update ''break_path'' (GOther ''[]string'') m2)
      in if l_timeout_path l = [] then m3 else AList.update ''timeout_path'' (GOther ''[]string'') m3)"

text \<open>A node of the schema; writing into the nil map panics.\<close>

definition schema_node :: "node \<Rightarrow> gval smap option \<Rightarrow> wf_node option" where
  "schema_node n config =
     map_option (\<lambda>c. \<lparr>w_id = n_id n, w_type = (if has_branch n then ''conditional'' else if has_loop n then ''loop'' else n_type n), w_config = c\<rparr>)
       (if has_loop n then map_option (loop_fields (the (n_loop n))) config else Some (case config of None \<Rightarrow> [] | Some m \<Rightarrow> m))"

definition plain_edge :: "string \<Rightarrow> string \<Rightarrow> wf_edge" where
  "plain_edge f t = \<lparr>e_from = f, e_to = t, e_condition = ''''\<rparr>"

definition rule_edges :: "string \<Rightarrow> branch_rule \<Rightarrow> wf_edge list" where
  "rule_edges f b = map (\<lambda>t. \<lparr>e_from = f, e_to = t, e_condition = (case br_condition b of None \<Rightarrow> '''' | Some c \<Rightarrow> c_expression c)\<rparr>) (br_next_nodes b)"

definition node_edges :: "node \<Rightarrow> wf_edge list" where
  "node_edges n = map (plain_edge (n_id n)) (n_dependents n)
     @ (if has_branch n then concat (map (rule_edges (n_id n)) (b_rules (the (n_branch n)))) @ map (plain_edge (n_id n)) (b_default (the (n_branch n))) else [])"

fun convert_back :: "env \<Rightarrow> node list \<Rightarrow> wf_schema \<Rightarrow> wf_schema option io" where
  "convert_back r [] sch = State_Monad.return (Some sch)"
| "convert_back r (n # ns) sch = do {
     c \<leftarrow> load_node_config r n;
     (case schema_node n c of None \<Rightarrow> State_Monad.return None
      | Some w \<Rightarrow> convert_back r ns (sch\<lparr>s_nodes := s_nodes sch @ [w], s_edges := s_edges sch @ node_edges n\<rparr>))}"

definition irToWorkflowSchema :: "env \<Rightarrow> ir \<Rightarrow> wf_schema option io" where
  "irToWorkflowSchema r i = convert_back r (map snd (range_map (mord r) ''ir.Nodes'' (ir_nodes i))) \<lparr>s_nodes = [], s_edges = [], s_metadata = []\<rparr>"

section \<open>Patching a run\<close>

definition patch_schema_one :: "patch_operation \<Rightarrow> wf_schema \<Rightarrow> wf_schema res" where
  "patch_schema_one op sch =
    (if po_op op = ''add'' then
       (if po_path op = ''/nodes/-'' then (case as_obj (po_value op) of None \<Rightarrow> Inl ''invalid node value''
          | Some m \<Rightarrow> (case dec_node (GObj m) of Inl x \<Rightarrow> Inl (''failed to unmarshal node: '' @ x) | Inr w \<Rightarrow> Inr (sch\<lparr>s_nodes := s_nodes sch @ [w]\<rparr>)))
        else if po_path op = ''/edges/-'' then (case as_obj (po_value op) of None \<Rightarrow> Inl ''invalid edge value''
          | Some m \<Rightarrow> (case dec_edge (GObj m) of Inl x \<Rightarrow> Inl (''failed to unmarshal edge: '' @ x) | Inr ed \<Rightarrow> Inr (sch\<lparr>s_edges := s_edges sch @ [ed]\<rparr>)))
        else Inl (''unsupported add path: '' @ po_path op))
     else if po_op op = ''remove'' then Inl ''remove operation not yet implemented''
     else if po_op op = ''replace'' then Inl ''replace operation not yet implemented''
     else Inl (''unsupported operation: '' @ po_op op))"

fun patch_schema :: "patch_operation list \<Rightarrow> wf_schema \<Rightarrow> wf_schema res" where
  "patch_schema [] sch = Inr sch"
| "patch_schema (op # ops) sch = (case patch_schema_one op sch of Inl x \<Rightarrow> Inl x | Inr s \<Rightarrow> patch_schema ops s)"

text \<open>Steps 4 to 6 of \<open>PatchRun\<close>.\<close>

definition store_recompiled :: "env \<Rightarrow> string \<Rightarrow> string \<Rightarrow> ir \<Rightarrow> wf_schema \<Rightarrow> answer io" where
  "store_recompiled r runID description currentIR sch = do {
     c \<leftarrow> CompileWorkflowSchema (mord r) (compiler_put r) sch;
     (case c of
        CErr x \<Rightarrow> State_Monad.return (http_error 400 (''failed to compile patched workflow: '' @ x))
      | COk newIR \<Rightarrow> do {
          u \<leftarrow> redis_Set r (ir_key runID) (RIr newIR);
          State_Monad.return (case u of Inl _ \<Rightarrow> http_error 500 ''failed to update workflow IR''
            | Inr _ \<Rightarrow> json 200 [(''run_id'', GStr runID), (''patched'', GBool True), (''old_nodes'', int_doc (int (length (ir_nodes currentIR)))),
                (''new_nodes'', int_doc (int (length (ir_nodes newIR)))), (''description'', GStr description)])}
      | _ \<Rightarrow> State_Monad.return (http_error 500 ''Internal Server Error''))}"

definition handler_PatchRun :: "env \<Rightarrow> string \<Rightarrow> (patch_operation list \<times> string) option \<Rightarrow> answer io" where
  "handler_PatchRun r runID body = (case body of None \<Rightarrow> State_Monad.return (http_error 400 ''invalid request'')
     | Some (ops, description) \<Rightarrow> do {
         x \<leftarrow> redis_Get r (ir_key runID);
         (case x of
            Inl err \<Rightarrow> State_Monad.return (if err = ''key not found: '' @ ir_key runID then http_error 404 ''run not found''
              else http_error 500 ''failed to load workflow IR'')
          | Inr (RIr currentIR) \<Rightarrow> do {
              sch \<leftarrow> irToWorkflowSchema r currentIR;
              (case sch of None \<Rightarrow> State_Monad.return (http_error 500 ''Internal Server Error'')
               | Some workflowSchema \<Rightarrow> (case patch_schema ops workflowSchema of
                   Inl err \<Rightarrow> State_Monad.return (http_error 400 (''failed to apply patch: '' @ err))
                 | Inr patchedSchema \<Rightarrow> store_recompiled r runID description currentIR patchedSchema))}
          | Inr _ \<Rightarrow> State_Monad.return (http_error 500 ''failed to parse workflow IR''))})"

section \<open>Starting and reading runs\<close>

definition request_user :: "string \<Rightarrow> string" where
  "request_user header = (case ExtractUsername header of None \<Rightarrow> ''system'' | Some u \<Rightarrow> u)"

definition handler_ExecuteWorkflow :: "dbenv \<Rightarrow> env \<Rightarrow> string \<Rightarrow> string \<Rightarrow> gval smap option \<Rightarrow> (site, answer) state" where
  "handler_ExecuteWorkflow e r header tagName body = (case body of None \<Rightarrow> State_Monad.return (http_error 400 ''invalid request'')
     | Some inputs \<Rightarrow> do {
         x \<leftarrow> CreateRun e r \<lparr>rc_tag = tagName, rc_username = request_user header, rc_inputs = inputs\<rparr>;
         State_Monad.return (case x of
            Inl (RateLimitError t limit n retry) \<Rightarrow> json 429 [(''error'', GStr ''rate_limit_exceeded''), (''message'', GStr (RateLimitError_Error t limit retry)),
               (''details'', GObj [(''tier'', GStr (tier_String t)), (''limit'', int_doc limit), (''window'', GStr ''60 seconds''),
                  (''current_count'', int_doc n), (''retry_after_seconds'', int_doc retry)])]
          | Inl (RunError err) \<Rightarrow> http_error 500 (''failed to create run: '' @ err)
          | Inr y \<Rightarrow> json 201 [(''run_id'', GStr (resp_run_id y)), (''artifact_id'', GStr (resp_artifact_id y)), (''status'', GStr (resp_status y)), (''tag'', GStr (resp_tag y))])})"

definition run_fields :: "dbenv \<Rightarrow> run \<Rightarrow> gval smap" where
  "run_fields e x = [(''run_id'', GStr (rn_id x)), (''base_kind'', GStr (rn_base_kind x)), (''base_ref'', GStr (rn_base_ref x)),
     (''tags_snapshot'', GObj (map (\<lambda>(k, v). (k, GStr v)) (rn_tags_snapshot x))), (''status'', GStr (rn_status x))]
     @ optional ''submitted_by'' GStr (rn_submitted_by x) @ [(''submitted_at'', time_doc e (rn_submitted_at x))]"

definition handler_GetRun :: "(string \<Rightarrow> string res) \<Rightarrow> dbenv \<Rightarrow> string \<Rightarrow> answer dbio" where
  "handler_GetRun parse e runIDStr = (case parse runIDStr of Inl _ \<Rightarrow> State_Monad.return (http_error 400 ''invalid run_id format'')
     | Inr runID \<Rightarrow> do {
         x \<leftarrow> service_GetRun e runID;
         State_Monad.return (case x of Inl _ \<Rightarrow> http_error 404 ''run not found'' | Inr run \<Rightarrow> json 200 (run_fields e run))})"

definition list_limit :: "string \<Rightarrow> int" where
  "list_limit s = (if s = '''' then 20 else case atoi s of Inl _ \<Rightarrow> 20 | Inr n \<Rightarrow> if n > 0 then n else 20)"

definition handler_ListWorkflowRuns :: "dbenv \<Rightarrow> string \<Rightarrow> string \<Rightarrow> answer dbio" where
  "handler_ListWorkflowRuns e tag limitStr = do {
     x \<leftarrow> ListRunsForWorkflow e tag (list_limit limitStr);
     State_Monad.return (case x of Inl _ \<Rightarrow> http_error 500 ''failed to list runs''
       | Inr runs \<Rightarrow> json 200 [(''runs'', GArr (map (GObj \<circ> run_fields e) runs))])}"

definition metrics_doc :: "execution_metrics \<Rightarrow> gval" where
  "metrics_doc m = GObj ([(''sent_at'', GStr (em_sent_at m)), (''start_time'', GStr (em_start_time m)), (''end_time'', GStr (em_end_time m)),
     (''queue_time_ms'', int_doc (em_queue_time_ms m)), (''execution_time_ms'', int_doc (em_execution_time_ms m)), (''total_duration_ms'', int_doc (em_total_duration_ms m)),
     (''memory_start_mb'', GNum (em_memory_start_mb m)), (''memory_peak_mb'', GNum (em_memory_peak_mb m)), (''memory_end_mb'', GNum (em_memory_end_mb m)),
     (''cpu_percent'', GNum (em_cpu_percent m)), (''thread_count'', int_doc (em_thread_count m))]
     @ (if em_system m = [] then [] else [(''system'', GObj (em_system m))]))"

definition execution_doc :: "node_execution \<Rightarrow> gval" where
  "execution_doc x = GObj ([(''node_id'', GStr (ne_node_id x)), (''status'', GStr (ne_status x))]
     @ (case ne_output x of None \<Rightarrow> [] | Some m \<Rightarrow> if m = [] then [] else [(''output'', GObj m)])
     @ optional ''error'' GStr (ne_error x) @ optional ''metrics'' metrics_doc (ne_metrics x))"

definition patch_info_doc :: "run_patch_info \<Rightarrow> gval" where
  "patch_info_doc p = GObj ([(''seq'', int_doc (ri_seq p))] @ optional ''node_id'' GStr (ri_node_id p)
     @ [(''operations'', GArr (map GObj (ri_operations p))), (''description'', GStr (ri_description p))])"

definition details_fields :: "dbenv \<Rightarrow> run_details \<Rightarrow> gval smap" where
  "details_fields e v = [(''run'', GObj (run_fields e (rv_run v))), (''base_workflow_ir'', GObj (rv_base_workflow_ir v)), (''workflow_ir'', GObj (rv_workflow_ir v)),
     (''node_executions'', GObj (map (\<lambda>(k, x). (k, execution_doc x)) (rv_node_executions v)))]
     @ (if rv_node_outputs_raw v = [] then [] else [(''node_outputs_raw'', GObj (rv_node_outputs_raw v))])
     @ (if rv_patches v = [] then [] else [(''patches'', GArr (map patch_info_doc (rv_patches v)))])"

definition handler_GetRunDetails :: "(string \<Rightarrow> string res) \<Rightarrow> dbenv \<Rightarrow> env \<Rightarrow> string \<Rightarrow> (site, answer) state" where
  "handler_GetRunDetails parse e r runIDStr = (case parse runIDStr of Inl _ \<Rightarrow> State_Monad.return (http_error 400 ''invalid run_id format'')
     | Inr runID \<Rightarrow> do {
         x \<leftarrow> GetRunDetails parse e r runID;
         State_Monad.return (case x of Inl _ \<Rightarrow> http_error 404 ''run not found'' | Inr v \<Rightarrow> json 200 (details_fields e v))})"

section \<open>The graph of a patched run\<close>

definition tidy :: "ir \<Rightarrow> bool" where
  "tidy i \<longleftrightarrow> wf_ir i \<and> (\<forall>(k, n) \<in> set (ir_nodes i). has_branch n \<longrightarrow> set (branch_dependents (the (n_branch n))) \<subseteq> set (n_dependents n))"

lemma compiled_tidy:
  assumes "perm_order ord" and "run_state (CompileWorkflowSchema ord put sch) s = (COk i, s')"
  shows "tidy i" "ir_metadata i = s_metadata sch"
proof -
  obtain ns where l: "nodes_linked (s_edges sch) (s_edges sch) ns" and i: "ir_nodes i = map (\<lambda>(k, n). (k, finish_node n)) ns"
    and m: "ir_metadata i = s_metadata sch"
    using CompileWorkflowSchema_COk [OF assms] by metis
  have "has_branch n \<longrightarrow> set (branch_dependents (the (n_branch n))) \<subseteq> set (n_dependents n)" if kn: "(k, n) \<in> set (ir_nodes i)" for k n
  proof -
    obtain n' where n': "(k, n') \<in> set ns" "n = finish_node n'" using kn i by auto
    then have "map_of ns k = Some n'" using l by (simp add: nodes_linked_def map_of_eq_Some_iff)
    then have "node_linked (s_edges sch) (s_edges sch) k n'" using l by (simp add: nodes_linked_def)
    then show ?thesis by (auto simp: n'(2) node_linked_def has_branch_def finish_node_fields split: option.splits)
  qed
  then show "tidy i" using compiled_wf [OF assms] by (auto simp: tidy_def)
  show "ir_metadata i = s_metadata sch" by (rule m)
qed

lemma peeks_cas_Get [peeks_intros]: "peeks (cas_Get r ref)"
  unfolding cas_Get_def by (intro peeks_intros)

lemma peeks_convert_back: "peeks (convert_back r ns sch)"
  by (induction ns arbitrary: sch) (auto simp: load_node_config_def intro!: peeks_intros split: option.split)

text \<open>A loop node comes back with an iteration bound that the compiler does not accept.\<close>

definition stale_loop :: "wf_node \<Rightarrow> bool" where
  "stale_loop w \<longleftrightarrow> w_type w = ''loop'' \<and> mget (w_config w) ''max_iterations'' = GOther ''int''"

lemma loop_fields_iterations: "mget (loop_fields l m) ''max_iterations'' = GOther ''int''"
  by (simp add: loop_fields_def Let_def mget_def update_conv' split: option.split)

lemma schema_node_Some:
  "schema_node n c = Some w \<Longrightarrow> w_id w = n_id n \<and> (has_loop n \<and> \<not> has_branch n \<longrightarrow> stale_loop w)"
  by (auto simp: schema_node_def stale_loop_def loop_fields_iterations split: if_splits)

lemma convert_back_run:
  "run_state (convert_back r ns sch) w = (Some sch', w') \<Longrightarrow> map w_id (s_nodes sch') = map w_id (s_nodes sch) @ map n_id ns
     \<and> s_edges sch' = s_edges sch @ concat (map node_edges ns) \<and> s_metadata sch' = s_metadata sch
     \<and> set (s_nodes sch) \<subseteq> set (s_nodes sch') \<and> (\<forall>n \<in> set ns. has_loop n \<and> \<not> has_branch n \<longrightarrow> (\<exists>w \<in> set (s_nodes sch'). stale_loop w))"
proof (induction ns arbitrary: sch w)
  case (Cons n ns)
  from Cons.prems obtain c w1 x where x: "run_state (load_node_config r n) w = (c, w1)" "schema_node n c = Some x"
      "run_state (convert_back r ns (sch\<lparr>s_nodes := s_nodes sch @ [x], s_edges := s_edges sch @ node_edges n\<rparr>)) w1 = (Some sch', w')"
    by (auto split: prod.splits option.splits)
  from Cons.IH [OF x(3)] schema_node_Some [OF x(2)] show ?case by auto
qed simp

definition added_nodes :: "patch_operation list \<Rightarrow> wf_node list" where
  "added_nodes ops = List.map_filter (\<lambda>op. if po_path op = ''/nodes/-'' then (case dec_node (po_value op) of Inr w \<Rightarrow> Some w | Inl _ \<Rightarrow> None) else None) ops"

definition added_edges :: "patch_operation list \<Rightarrow> wf_edge list" where
  "added_edges ops = List.map_filter (\<lambda>op. if po_path op = ''/edges/-'' then (case dec_edge (po_value op) of Inr x \<Rightarrow> Some x | Inl _ \<Rightarrow> None) else None) ops"

lemma patch_schema_one_Inr:
  assumes "patch_schema_one op sch = Inr sch'"
  shows "s_nodes sch' = s_nodes sch @ added_nodes [op]" "s_edges sch' = s_edges sch @ added_edges [op]" "s_metadata sch' = s_metadata sch"
proof -
  have o: "as_obj v = Some m \<Longrightarrow> v = GObj m" for v m by (cases v) auto
  show "s_nodes sch' = s_nodes sch @ added_nodes [op]" "s_edges sch' = s_edges sch @ added_edges [op]" "s_metadata sch' = s_metadata sch"
    using assms by (auto simp: patch_schema_one_def added_nodes_def added_edges_def List.map_filter_simps dest!: o split: if_splits option.splits sum.splits)
qed

lemma patch_schema_Inr:
  "patch_schema ops sch = Inr sch' \<Longrightarrow> s_nodes sch' = s_nodes sch @ added_nodes ops \<and> s_edges sch' = s_edges sch @ added_edges ops \<and> s_metadata sch' = s_metadata sch"
proof (induction ops arbitrary: sch)
  case Nil
  then show ?case by (simp add: added_nodes_def added_edges_def List.map_filter_simps)
next
  case (Cons op ops)
  have a: "added_nodes (op # ops) = added_nodes [op] @ added_nodes ops" "added_edges (op # ops) = added_edges [op] @ added_edges ops"
    by (auto simp: added_nodes_def added_edges_def List.map_filter_simps split: option.split)
  from Cons.prems obtain s1 where "patch_schema_one op sch = Inr s1" "patch_schema ops s1 = Inr sch'" by (auto split: sum.splits)
  then show ?case using Cons.IH [of s1] patch_schema_one_Inr [of op sch s1] a by simp
qed

text \<open>The compiler leaves alone what \<open>put\<close> leaves alone, and it rejects a schema with a stale loop.\<close>

lemma convert_nodes_keeps:
  assumes "\<And>c s. P s \<Longrightarrow> P (snd (run_state (put c) s))" and "P s"
  shows "P (snd (run_state (convert_nodes ord put ce ef ws acc) s))"
  using assms(2)
proof (induction ws arbitrary: acc s)
  case (Cons w ws)
  obtain x s1 where x: "run_state (convertWorkflowNode ord put w ce ef) s = (x, s1)" by (cases "run_state (convertWorkflowNode ord put w ce ef) s")
  then have "P s1" using assms(1) [OF Cons.prems, of "w_config w"] Cons.prems by (auto simp: convertWorkflowNode_def Let_def split: if_splits prod.splits)
  then show ?case using x Cons.IH by (cases x) simp_all
qed simp

lemma compile_keeps:
  assumes "\<And>c s. P s \<Longrightarrow> P (snd (run_state (put c) s))" and "P s"
  shows "P (snd (run_state (CompileWorkflowSchema ord put sch) s))"
  using convert_nodes_keeps [of P put, OF assms] by (simp add: CompileWorkflowSchema_def case_prod_unfold Let_def)

lemma convert_nodes_stale: "w \<in> set ws \<Longrightarrow> stale_loop w \<Longrightarrow> run_state (convert_nodes ord put ce ef ws acc) s \<noteq> (Inr ns, s')"
proof (induction ws arbitrary: acc s)
  case (Cons x ws)
  obtain y s1 where y: "run_state (convertWorkflowNode ord put x ce ef) s = (y, s1)" by (cases "run_state (convertWorkflowNode ord put x ce ef) s")
  show ?case
  proof (cases "w = x")
    case True
    then have "\<exists>msg. y = Inl msg" using y Cons.prems(2)
      by (auto simp: convertWorkflowNode_def Let_def set_node_type_def createLoopConfig_def stale_loop_def split: if_splits prod.splits)
    then show ?thesis using y by auto
  next
    case False
    then have "w \<in> set ws" using Cons.prems(1) by simp
    then show ?thesis using y Cons.IH Cons.prems(2) by (cases y) auto
  qed
qed simp

lemma compile_stale: "w \<in> set (s_nodes sch) \<Longrightarrow> stale_loop w \<Longrightarrow> run_state (CompileWorkflowSchema ord put sch) s \<noteq> (COk i, s')"
proof -
  assume w: "w \<in> set (s_nodes sch)" "stale_loop w"
  obtain ce ef where ed: "edges_by_source (s_edges sch) [] [] = (ce, ef)" by (cases "edges_by_source (s_edges sch) [] []")
  obtain y s1 where y: "run_state (convert_nodes ord put ce ef (s_nodes sch) []) s = (y, s1)" by (cases "run_state (convert_nodes ord put ce ef (s_nodes sch) []) s")
  then obtain msg where "y = Inl msg" using convert_nodes_stale [OF w, of ord put ce ef "[]" s] by (cases y) blast+
  then show ?thesis using ed y by (simp add: CompileWorkflowSchema_def)
qed

text \<open>The edges of the schema are the edges of the graph.\<close>

lemma schema_graph_simps:
  "schema_graph (es @ es') = schema_graph es \<union> schema_graph es'"
  "schema_graph (map (plain_edge f) ts) = {f} \<times> set ts"
  "schema_graph (concat (map (rule_edges f) rs)) = {f} \<times> set (concat (map br_next_nodes rs))"
proof -
  have r: "schema_graph (rule_edges f b) = {f} \<times> set (br_next_nodes b)" for b
    by (auto simp: schema_graph_def rule_edges_def image_image)
  show a: "schema_graph (es @ es') = schema_graph es \<union> schema_graph es'" for es es' by (auto simp: schema_graph_def)
  show "schema_graph (map (plain_edge f) ts) = {f} \<times> set ts" by (auto simp: schema_graph_def plain_edge_def image_image)
  have "schema_graph [] = {}" by (simp add: schema_graph_def)
  then show "schema_graph (concat (map (rule_edges f) rs)) = {f} \<times> set (concat (map br_next_nodes rs))"
    by (induction rs) (auto simp: r a)
qed

lemma back_graph:
  assumes "tidy i" and "set ns = snd ` set (ir_nodes i)"
  shows "schema_graph (concat (map node_edges ns)) = dep_graph (ir_nodes i)" "n_id ` set ns = keys (ir_nodes i)"
proof -
  have w: "distinct (map fst (ir_nodes i))" "\<And>k n. (k, n) \<in> set (ir_nodes i) \<Longrightarrow> n_id n = k"
    using assms(1) by (auto simp: tidy_def wf_ir_def)
  have e: "schema_graph (node_edges n) = {n_id n} \<times> set (n_dependents n)" if "(k, n) \<in> set (ir_nodes i)" for k n
  proof -
    have "has_branch n \<Longrightarrow> set (branch_dependents (the (n_branch n))) \<subseteq> set (n_dependents n)" using assms(1) that by (auto simp: tidy_def)
    then show ?thesis by (cases "has_branch n") (auto simp: node_edges_def schema_graph_simps branch_dependents_def)
  qed
  have "schema_graph (concat (map node_edges ns)) = (\<Union>n \<in> set ns. schema_graph (node_edges n))" by (auto simp: schema_graph_def)
  also have "\<dots> = (\<Union>(k, n) \<in> set (ir_nodes i). {k} \<times> set (n_dependents n))" using e w(2) unfolding assms(2) by force
  also have "\<dots> = dep_graph (ir_nodes i)" using w(1) by (auto simp: dep_graph_def map_of_eq_Some_iff)
  finally show "schema_graph (concat (map node_edges ns)) = dep_graph (ir_nodes i)" .
  show "n_id ` set ns = keys (ir_nodes i)" using w(2) unfolding assms(2) by force
qed

lemma compile_ir_key: "r_strs (snd (run_state (CompileWorkflowSchema ord (compiler_put r) sch) w)) (ir_key run) = r_strs w (ir_key run)"
proof -
  have "ir_key run \<noteq> ''cas:'' @ x" for x by (simp add: ir_key_def)
  then show ?thesis
    by (intro compile_keeps [where P = "\<lambda>v. r_strs v (ir_key run) = r_strs w (ir_key run)"]) (auto simp: compiler_put_def cas_Put_def redis_Set_def split: prod.splits)
qed

lemma store_recompiled_run:
  assumes "run_state (store_recompiled r run desc i sch) w = (a, w')"
  shows "if sent_status a = 200 then \<exists>i' w1. run_state (CompileWorkflowSchema (mord r) (compiler_put r) sch) w = (COk i', w1) \<and> r_strs w' (ir_key run) = Some (RIr i')
    else r_strs w' (ir_key run) = r_strs w (ir_key run)"
proof -
  obtain c w1 where c: "run_state (CompileWorkflowSchema (mord r) (compiler_put r) sch) w = (c, w1)" by (cases "run_state (CompileWorkflowSchema (mord r) (compiler_put r) sch) w")
  have "r_strs w1 (ir_key run) = r_strs w (ir_key run)" using compile_ir_key [of "mord r" r sch w run] c by simp
  then show ?thesis using assms c by (cases c) (auto simp: store_recompiled_def redis_Set_def split: if_splits)
qed

lemma patch_run_cases:
  assumes ord: "perm_order (mord r)" and i: "r_strs w (ir_key run) = Some (RIr i)" and t: "tidy i"
    and run: "run_state (handler_PatchRun r run (Some (ops, desc))) w = (a, w')"
  obtains (same) "sent_status a \<noteq> 200" "r_strs w' (ir_key run) = r_strs w (ir_key run)"
    | (new) sch w2 w3 i' where "sent_status a = 200" "r_strs w' (ir_key run) = Some (RIr i')"
      "run_state (CompileWorkflowSchema (mord r) (compiler_put r) (sch\<lparr>s_nodes := s_nodes sch @ added_nodes ops, s_edges := s_edges sch @ added_edges ops\<rparr>)) w2 = (COk i', w3)"
      "w_id ` set (s_nodes sch) = keys (ir_nodes i)" "schema_graph (s_edges sch) = dep_graph (ir_nodes i)" "s_metadata sch = []"
      "\<forall>(k, n) \<in> set (ir_nodes i). has_loop n \<and> \<not> has_branch n \<longrightarrow> (\<exists>x \<in> set (s_nodes sch). stale_loop x)"
proof (cases "\<not> fault r (r_tick w) (OpGet (ir_key run))")
  case False
  then show thesis using run same by (auto simp: handler_PatchRun_def redis_Get_def split: if_splits)
next
  case True
  let ?w = "w\<lparr>r_tick := Suc (r_tick w)\<rparr>" and ?ns = "map snd (range_map (mord r) ''ir.Nodes'' (ir_nodes i))"
  obtain so w2 where so: "run_state (irToWorkflowSchema r i) ?w = (so, w2)" by (cases "run_state (irToWorkflowSchema r i) ?w")
  have s2: "r_strs w2 = r_strs w" using peeks_convert_back so idle_fields [of w2 w] unfolding irToWorkflowSchema_def peeks_def by (metis idle_tick snd_conv)
  have d: "distinct (map fst (ir_nodes i))" using t by (simp add: tidy_def wf_ir_def)
  have ns: "set ?ns = snd ` set (ir_nodes i)" using set_range_map [OF ord d] by simp
  show thesis
  proof (cases "\<exists>sch sch'. so = Some sch \<and> patch_schema ops sch = Inr sch'")
    case False
    then show thesis using run True i so s2 same by (cases so) (auto simp: handler_PatchRun_def redis_Get_def split: sum.splits)
  next
    case True': True
    then obtain sch sch' where sch: "so = Some sch" "patch_schema ops sch = Inr sch'" by blast
    have st: "run_state (store_recompiled r run desc i sch') w2 = (a, w')" using run True i so sch by (simp add: handler_PatchRun_def redis_Get_def)
    note b = convert_back_run [OF so [unfolded sch(1) irToWorkflowSchema_def]]
    have ids: "w_id ` set (s_nodes sch) = keys (ir_nodes i)" using b back_graph(2) [OF t ns] by (metis append_Nil list.map(1) list.set_map wf_schema.select_convs(1))
    have gr: "schema_graph (s_edges sch) = dep_graph (ir_nodes i)" using b back_graph(1) [OF t ns] by simp
    have eq: "sch' = sch\<lparr>s_nodes := s_nodes sch @ added_nodes ops, s_edges := s_edges sch @ added_edges ops\<rparr>" using patch_schema_Inr [OF sch(2)] by simp
    have lp: "\<forall>(k, n) \<in> set (ir_nodes i). has_loop n \<and> \<not> has_branch n \<longrightarrow> (\<exists>x \<in> set (s_nodes sch). stale_loop x)" using b ns by force
    show thesis
    proof (cases "sent_status a = 200")
      case False
      then show thesis using store_recompiled_run [OF st] s2 same by simp
    next
      case True
      then show thesis using store_recompiled_run [OF st] new [OF True _ _ ids gr _ lp] b unfolding eq by auto
    qed
  qed
qed

text \<open>C39. What patching a run does. A run whose representation is well formed is patched if and only if the request is answered 200; then the new
  representation is well formed again, its nodes and edges are the old ones and the added ones, and it names no owner, so that
  nobody is told about the rest of the run. After any other answer the representation is as it was.\<close>

theorem patch_run_exact:
  assumes "perm_order (mord r)" and "r_strs w (ir_key run) = Some (RIr i)" and "tidy i"
    and "run_state (handler_PatchRun r run (Some (ops, desc))) w = (a, w')"
  shows "if sent_status a = 200 then \<exists>i'. r_strs w' (ir_key run) = Some (RIr i') \<and> tidy i' \<and> ir_username i' = None
        \<and> keys (ir_nodes i') = keys (ir_nodes i) \<union> w_id ` set (added_nodes ops)
        \<and> dep_graph (ir_nodes i') = dep_graph (ir_nodes i) \<union> schema_graph (added_edges ops)
    else r_strs w' (ir_key run) = Some (RIr i)"
  using assms
proof (cases rule: patch_run_cases)
  case (new sch w2 w3 i')
  let ?sch = "sch\<lparr>s_nodes := s_nodes sch @ added_nodes ops, s_edges := s_edges sch @ added_edges ops\<rparr>"
  have "ir_username i' = None" using compiled_tidy(2) [OF assms(1) new(3)] new(6) by (simp add: ir_username_def mget_def)
  moreover have "keys (ir_nodes i') = keys (ir_nodes i) \<union> w_id ` set (added_nodes ops)"
    using compiled_graph(3) [OF assms(1) new(3)] new(4) by (simp add: image_Un)
  moreover have "dep_graph (ir_nodes i') = dep_graph (ir_nodes i) \<union> schema_graph (added_edges ops)"
    using compiled_graph(1) [OF assms(1) new(3)] new(5) by (simp add: schema_graph_def image_Un)
  ultimately show ?thesis using new(1,2) compiled_tidy(1) [OF assms(1) new(3)] by auto
qed (use assms(2) in auto)


definition patch_example :: "patch_operation list" where
  "patch_example = [\<lparr>po_op = ''add'', po_path = ''/nodes/-'', po_value = GObj [(''id'', GStr ''B''), (''type'', GStr ''http'')]\<rparr>,
     \<lparr>po_op = ''add'', po_path = ''/edges/-'', po_value = GObj [(''from'', GStr ''A''), (''to'', GStr ''B'')]\<rparr>]"

lemma details_tidy: "tidy details_ir"
  by code_simp

lemma patch_example_accepted: "sent_status (fst (run_state (handler_PatchRun calm_env ''r'' (Some (patch_example, ''''))) details_world)) = 200"
  by code_simp

theorem patch_run_exact_witness:
  "\<exists>a w' i'. run_state (handler_PatchRun calm_env ''r'' (Some (patch_example, ''''))) details_world = (a, w') \<and> sent_status a = 200
     \<and> r_strs w' (ir_key ''r'') = Some (RIr i') \<and> tidy i' \<and> ir_username i' = None
     \<and> keys (ir_nodes i') = {''A'', ''B''} \<and> dep_graph (ir_nodes i') = {(''A'', ''B'')}"
proof -
  obtain a w' where run: "run_state (handler_PatchRun calm_env ''r'' (Some (patch_example, ''''))) details_world = (a, w')"
    by (cases "run_state (handler_PatchRun calm_env ''r'' (Some (patch_example, ''''))) details_world")
  have a: "sent_status a = 200" using patch_example_accepted run by simp
  have n: "w_id ` set (added_nodes patch_example) = {''B''}" "schema_graph (added_edges patch_example) = {(''A'', ''B'')}" by code_simp+
  have g: "keys (ir_nodes details_ir) = {''A''}" "dep_graph (ir_nodes details_ir) = {}" by (auto simp: details_ir_def dep_graph_def)
  have "perm_order (mord calm_env)" "r_strs details_world (ir_key ''r'') = Some (RIr details_ir)" by (simp_all add: calm_env_def details_world_def)
  from patch_run_exact [OF this details_tidy run] a n g show ?thesis using run by (simp add: insert_commute)
qed

text \<open>C40. A run with a loop cannot be patched. If a node of a well-formed representation is a loop, no request to patch the run is answered 200, whatever its
  operations are: the bound of the loop comes back as an integer, where the compiler expects a floating-point number.\<close>

theorem looping_run_not_patched:
  assumes "perm_order (mord r)" and "r_strs w (ir_key run) = Some (RIr i)" and "tidy i"
    and "run_state (handler_PatchRun r run (Some (ops, desc))) w = (a, w')"
    and "map_of (ir_nodes i) k = Some n" and "has_loop n" and "\<not> has_branch n"
  shows "sent_status a \<noteq> 200 \<and> r_strs w' (ir_key run) = Some (RIr i)"
  using assms(1-4)
proof (cases rule: patch_run_cases)
  case (new sch w2 w3 i')
  obtain x where "x \<in> set (s_nodes sch)" "stale_loop x" using new(7) map_of_SomeD [OF assms(5)] assms(6,7) by blast
  then show ?thesis using compile_stale [of x _ "mord r" "compiler_put r" w2 i' w3] new(3) by auto
qed (use assms(2) in auto)

definition loop_ir :: ir where
  "loop_ir = \<lparr>ir_version = ''1.0'', ir_nodes = [(''L'', \<lparr>n_id = ''L'', n_type = ''function'', n_config_ref = '''', n_config = [], n_dependencies = [], n_dependents = [''T''],
     n_wait_for_all = False, n_is_terminal = False,
     n_loop = Some \<lparr>l_enabled = True, l_condition = None, l_max_iterations = 3, l_loop_back_to = ''L'', l_break_path = [], l_timeout_path = []\<rparr>, n_branch = None\<rparr>),
    (''T'', \<lparr>n_id = ''T'', n_type = ''http'', n_config_ref = '''', n_config = [], n_dependencies = [''L''], n_dependents = [],
     n_wait_for_all = False, n_is_terminal = True, n_loop = None, n_branch = None\<rparr>)], ir_metadata = []\<rparr>"

definition loop_world :: world where
  "loop_world = empty_world\<lparr>r_strs := (\<lambda>k. if k = ir_key ''r'' then Some (RIr loop_ir) else None)\<rparr>"

theorem looping_run_not_patched_witness:
  "\<exists>a w'. run_state (handler_PatchRun calm_env ''r'' (Some (patch_example, ''''))) loop_world = (a, w') \<and> sent_status a \<noteq> 200
     \<and> r_strs w' (ir_key ''r'') = Some (RIr loop_ir)"
proof -
  obtain a w' where run: "run_state (handler_PatchRun calm_env ''r'' (Some (patch_example, ''''))) loop_world = (a, w')"
    by (cases "run_state (handler_PatchRun calm_env ''r'' (Some (patch_example, ''''))) loop_world")
  have 1: "perm_order (mord calm_env)" "r_strs loop_world (ir_key ''r'') = Some (RIr loop_ir)" by (simp_all add: calm_env_def loop_world_def)
  have "tidy loop_ir" by code_simp
  moreover have "map_of (ir_nodes loop_ir) ''L'' = Some (snd (hd (ir_nodes loop_ir)))" "has_loop (snd (hd (ir_nodes loop_ir)))" "\<not> has_branch (snd (hd (ir_nodes loop_ir)))"
    by (simp_all add: loop_ir_def has_loop_def has_branch_def)
  ultimately show ?thesis using looping_run_not_patched [OF 1 _ run] run by blast
qed

end
