(* ===== verification/Memory_Services.thy ===== *)
theory Memory_Services
  imports Workflow_Patch
begin

text \<open>
  The in-memory cache and queue of \<open>common/cache/cache.go\<close> and \<open>common/queue/queue.go\<close>.

  Time is a number of nanoseconds. A method holds the lock of its object from the first to the last access, so it is one step; the
  goroutines (the cleanup of the cache, the subscriptions of the queue) take turns with the callers in any order, as sequences of steps.
  \<open>None\<close> is a panic. A Go map that was set to nil reads as empty and panics when it is written.

  The lemmas show that a read returns the last write that has not expired, whenever the cleanup runs, and that a topic is a bounded FIFO
  queue that loses what does not fit; closing the queue makes its subscriptions panic.
\<close>

section \<open>The cache\<close>

record cache_entry =
  ce_value :: string
  ce_expiresAt :: int

type_synonym cache = "cache_entry smap option" \<comment> \<open>\<open>None\<close> is the nil map\<close>

definition NewMemoryCache :: cache where "NewMemoryCache = Some []"

definition entries :: "cache \<Rightarrow> cache_entry smap" where "entries c = (case c of None \<Rightarrow> [] | Some m \<Rightarrow> m)"

definition cache_Get :: "int \<Rightarrow> string \<Rightarrow> cache \<Rightarrow> string option" where
  "cache_Get t key c = (case map_of (entries c) key of
     None \<Rightarrow> None
   | Some x \<Rightarrow> if ce_expiresAt x < t then None else Some (ce_value x))"

definition cache_Set :: "int \<Rightarrow> string \<Rightarrow> string \<Rightarrow> int \<Rightarrow> cache \<Rightarrow> cache option" where
  "cache_Set t key v ttl c = map_option (\<lambda>m. Some (AList.update key \<lparr>ce_value = v, ce_expiresAt = t + ttl\<rparr> m)) c"

definition cache_Delete :: "string \<Rightarrow> cache \<Rightarrow> cache" where
  "cache_Delete key c = map_option (AList.delete key) c"

definition cache_Close :: "cache \<Rightarrow> cache" where "cache_Close c = None"

text \<open>One tick of the cleanup goroutine; the order of the deletions does not matter.\<close>

definition cache_cleanup :: "int \<Rightarrow> cache \<Rightarrow> cache" where
  "cache_cleanup t c = map_option (filter (\<lambda>(k, x). \<not> ce_expiresAt x < t)) c"

definition Stats :: "cache \<Rightarrow> gval smap" where
  "Stats c = [(''entries'', GNum (of_nat (length (entries c)))), (''type'', GStr ''memory'')]"

datatype cache_op = CSet int string string int | CDelete int string | CCleanup int

fun op_time :: "cache_op \<Rightarrow> int" where
  "op_time (CSet t _ _ _) = t"
| "op_time (CDelete t _) = t"
| "op_time (CCleanup t) = t"

fun cache_step :: "cache_op \<Rightarrow> cache \<Rightarrow> cache option" where
  "cache_step (CSet t k v ttl) c = cache_Set t k v ttl c"
| "cache_step (CDelete t k) c = Some (cache_Delete k c)"
| "cache_step (CCleanup t) c = Some (cache_cleanup t c)"

fun cache_run :: "cache_op list \<Rightarrow> cache \<Rightarrow> cache option" where
  "cache_run [] c = Some c"
| "cache_run (x # xs) c = Option.bind (cache_step x c) (cache_run xs)"

text \<open>The last write of a key: its value and the time until which it is kept.\<close>

fun last_write :: "string \<Rightarrow> cache_op list \<Rightarrow> (string \<times> int) option \<Rightarrow> (string \<times> int) option" where
  "last_write key [] r = r"
| "last_write key (CSet t k v ttl # xs) r = last_write key xs (if k = key then Some (v, t + ttl) else r)"
| "last_write key (CDelete t k # xs) r = last_write key xs (if k = key then None else r)"
| "last_write key (CCleanup t # xs) r = last_write key xs r"

definition fresh :: "int \<Rightarrow> (string \<times> int) option \<Rightarrow> string option" where
  "fresh t r = (case r of Some (v, x) \<Rightarrow> if x < t then None else Some v | None \<Rightarrow> None)"

text \<open>What the cache holds at time \<open>t\<close>, compared with the last write.\<close>

definition agrees :: "int \<Rightarrow> string \<Rightarrow> cache \<Rightarrow> (string \<times> int) option \<Rightarrow> bool" where
  "agrees t key c r \<longleftrightarrow> c \<noteq> None \<and> distinct (map fst (entries c)) \<and>
     (map_option (\<lambda>x. (ce_value x, ce_expiresAt x)) (map_of (entries c) key) = r
      \<or> map_of (entries c) key = None \<and> (\<exists>v x. r = Some (v, x) \<and> x < t))"

lemma agrees_Get: "agrees s key c r \<Longrightarrow> s \<le> t \<Longrightarrow> cache_Get t key c = fresh t r"
  by (auto simp: agrees_def cache_Get_def fresh_def split: option.splits)

lemma map_of_filter_kept:
  "distinct (map fst m) \<Longrightarrow> map_of (filter (\<lambda>(k, x). P x) m) k = (case map_of m k of None \<Rightarrow> None | Some x \<Rightarrow> if P x then Some x else None)"
  by (induction m) (auto simp: map_of_eq_None_iff image_iff split: option.split)

lemma agrees_step:
  assumes "agrees s key c r" and "s \<le> op_time x"
  shows "\<exists>c'. cache_step x c = Some c' \<and> agrees (op_time x) key c' (last_write key [x] r)"
proof -
  from assms(1) obtain m where m: "c = Some m" "distinct (map fst m)" by (auto simp: agrees_def entries_def)
  have later: "agrees (op_time x) key c r" using assms by (force simp: agrees_def)
  show ?thesis
  proof (cases x)
    case (CSet t k v ttl)
    then show ?thesis using later m by (auto simp: agrees_def entries_def cache_Set_def update_conv' distinct_update)
  next
    case (CDelete t k)
    then show ?thesis using later m by (auto simp: agrees_def entries_def cache_Delete_def delete_conv' distinct_delete)
  next
    case (CCleanup t)
    have "distinct (map fst (filter P m))" for P using m(2) by (simp add: distinct_map_filter)
    then show ?thesis using later m CCleanup
      by (auto simp: agrees_def entries_def cache_cleanup_def map_of_filter_kept [OF m(2), where P = "\<lambda>x. \<not> ce_expiresAt x < t"] split: option.splits)
  qed
qed

lemma last_write_Cons: "last_write key (x # xs) r = last_write key xs (last_write key [x] r)"
  by (cases x) simp_all

lemma cache_run_agrees:
  "agrees s key c r \<Longrightarrow> sorted (s # map op_time xs) \<Longrightarrow> (\<forall>x \<in> set xs. op_time x \<le> t) \<Longrightarrow> s \<le> t
    \<Longrightarrow> \<exists>c'. cache_run xs c = Some c' \<and> agrees t key c' (last_write key xs r)"
proof (induction xs arbitrary: s c r)
  case Nil
  then have "agrees t key c r" by (force simp: agrees_def)
  then show ?case by simp
next
  case (Cons x xs)
  obtain c' where c': "cache_step x c = Some c'" "agrees (op_time x) key c' (last_write key [x] r)"
    using agrees_step [OF Cons.prems(1), of x] Cons.prems(2) by auto
  then show ?case using Cons.IH [OF c'(2)] Cons.prems(2,3) last_write_Cons [of key x xs r] by auto
qed

text \<open>The cache returns the last write. Whatever writes, deletions and cleanups happened before in the order of their times, nothing panics and a read at a later
  time returns the value of the last write of the key, if it was not deleted and its time to live has not passed, and nothing otherwise.\<close>

theorem cache_returns_last_write:
  assumes "sorted (map op_time ops)" and "\<forall>x \<in> set ops. op_time x \<le> t"
  shows "\<exists>c. cache_run ops NewMemoryCache = Some c \<and> cache_Get t key c = fresh t (last_write key ops None)"
proof (cases ops)
  case Nil
  then show ?thesis by (simp add: cache_Get_def fresh_def NewMemoryCache_def entries_def)
next
  case (Cons x xs)
  have "agrees (op_time x) key NewMemoryCache None" by (simp add: agrees_def NewMemoryCache_def entries_def)
  then show ?thesis using cache_run_agrees [of "op_time x" key NewMemoryCache None ops t] assms agrees_Get [of t key _ _ t] Cons by auto
qed

theorem cache_returns_last_write_witness:
  "\<exists>c. cache_run [CSet 0 ''a'' ''x'' 5, CCleanup 3, CSet 4 ''b'' ''y'' 1, CCleanup 6] NewMemoryCache = Some c \<and> cache_Get 7 ''b'' c = None"
  using cache_returns_last_write [of "[CSet 0 ''a'' ''x'' 5, CCleanup 3, CSet 4 ''b'' ''y'' 1, CCleanup 6]" 7 "''b''"] by (simp add: fresh_def)

section \<open>The queue\<close>

record queue_message =
  qm_topic :: string
  qm_key :: string
  qm_value :: string

text \<open>A topic's channel: its buffer and whether it is closed.\<close>

record topic_channel =
  tc_buffer :: "queue_message list"
  tc_closed :: bool

type_synonym mqueue = "topic_channel smap"

definition NewMemoryQueue :: mqueue where "NewMemoryQueue = []"

definition topic_capacity :: nat where "topic_capacity = 1000"

definition topic_of :: "mqueue \<Rightarrow> string \<Rightarrow> topic_channel" where
  "topic_of q topic = (case map_of q topic of None \<Rightarrow> \<lparr>tc_buffer = [], tc_closed = False\<rparr> | Some c \<Rightarrow> c)"

text \<open>\<open>cancelled\<close> says whether the context is done; if the send is possible too, \<open>select\<close> chooses (\<open>send\<close>). Without either the message is dropped.\<close>

definition queue_Publish :: "bool \<Rightarrow> bool \<Rightarrow> string \<Rightarrow> string \<Rightarrow> string \<Rightarrow> mqueue \<Rightarrow> (unit res \<times> mqueue) option" where
  "queue_Publish cancelled send topic key v q =
     (let c = topic_of q topic; q' = AList.update topic c q; possible = (tc_closed c \<or> length (tc_buffer c) < topic_capacity) in
      if possible \<and> (\<not> cancelled \<or> send)
      then (if tc_closed c then None
        else Some (Inr (), AList.update topic (c\<lparr>tc_buffer := tc_buffer c @ [\<lparr>qm_topic = topic, qm_key = key, qm_value = v\<rparr>]\<rparr>) q'))
      else if cancelled then Some (Inl ''context canceled'', q')
      else Some (Inr (), q'))"

text \<open>\<open>Subscribe\<close> makes the topic if it is new and starts a goroutine; \<open>subscription_turn\<close> is one turn of it while the context is not done:
  the message that is handed to the handler, or nothing while the channel is empty. From a closed and empty channel it receives nil.\<close>

definition queue_Subscribe :: "string \<Rightarrow> mqueue \<Rightarrow> mqueue" where
  "queue_Subscribe topic q = AList.update topic (topic_of q topic) q"

definition subscription_turn :: "string \<Rightarrow> mqueue \<Rightarrow> (queue_message option \<times> mqueue) option" where
  "subscription_turn topic q = (let c = topic_of q topic in
     case tc_buffer c of
       m # ms \<Rightarrow> Some (Some m, AList.update topic (c\<lparr>tc_buffer := ms\<rparr>) q)
     | [] \<Rightarrow> if tc_closed c then None else Some (None, q))"

definition queue_Close :: "mqueue \<Rightarrow> mqueue option" where
  "queue_Close q = (if \<exists>(k, c) \<in> set q. tc_closed c then None else Some (map (\<lambda>(k, c). (k, c\<lparr>tc_closed := True\<rparr>)) q))"

text \<open>A history of the queue: publications and turns of subscriptions. \<open>queue_run\<close> collects what the handlers of a topic got.\<close>

datatype queue_op = QPublish string string string | QSubscribe string | QTurn string

fun queue_step :: "queue_op \<Rightarrow> mqueue \<Rightarrow> (queue_message option \<times> mqueue) option" where
  "queue_step (QPublish t k v) q = map_option (\<lambda>(r, q'). (None, q')) (queue_Publish False True t k v q)"
| "queue_step (QSubscribe t) q = Some (None, queue_Subscribe t q)"
| "queue_step (QTurn t) q = subscription_turn t q"

fun queue_run :: "queue_op list \<Rightarrow> queue_message list \<times> mqueue \<Rightarrow> (queue_message list \<times> mqueue) option" where
  "queue_run [] s = Some s"
| "queue_run (x # xs) (got, q) = (case queue_step x q of None \<Rightarrow> None
     | Some (m, q') \<Rightarrow> queue_run xs (got @ (case m of None \<Rightarrow> [] | Some y \<Rightarrow> [y]), q'))"

text \<open>The bounded queue that a topic is meant to be, as a list: what it has delivered and what waits.\<close>

fun bounded :: "string \<Rightarrow> queue_op list \<Rightarrow> queue_message list \<times> queue_message list \<Rightarrow> queue_message list \<times> queue_message list" where
  "bounded t [] s = s"
| "bounded t (QPublish u k v # xs) (got, ms) = bounded t xs (got,
     if u = t \<and> length ms < topic_capacity then ms @ [\<lparr>qm_topic = t, qm_key = k, qm_value = v\<rparr>] else ms)"
| "bounded t (QSubscribe u # xs) s = bounded t xs s"
| "bounded t (QTurn u # xs) (got, ms) = bounded t xs (if u = t then (got @ take 1 ms, drop 1 ms) else (got, ms))"

definition open_queue :: "mqueue \<Rightarrow> bool" where
  "open_queue q \<longleftrightarrow> (\<forall>t. \<not> tc_closed (topic_of q t) \<and> (\<forall>m \<in> set (tc_buffer (topic_of q t)). qm_topic m = t))"

lemma topic_of_update: "topic_of (AList.update k c q) t = (if t = k then c else topic_of q t)"
  by (simp add: topic_of_def update_conv')

definition got_of :: "string \<Rightarrow> queue_message list \<Rightarrow> queue_message list" where
  "got_of t ms = filter (\<lambda>m. qm_topic m = t) ms"

lemma queue_step_refines:
  assumes "open_queue q"
  obtains m q' where "queue_step x q = Some (m, q')" "open_queue q'"
    "bounded t [x] (got_of t got, tc_buffer (topic_of q t)) = (got_of t (got @ (case m of None \<Rightarrow> [] | Some y \<Rightarrow> [y])), tc_buffer (topic_of q' t))"
proof (cases x)
  case (QPublish u k v)
  show thesis
    by (rule that [of None "snd (the (queue_Publish False True u k v q))"])
      (use assms QPublish in \<open>auto simp: queue_Publish_def Let_def open_queue_def topic_of_update\<close>)
next
  case (QSubscribe u)
  show thesis by (rule that [of None "queue_Subscribe u q"]) (use assms QSubscribe in \<open>auto simp: queue_Subscribe_def open_queue_def topic_of_update\<close>)
next
  case (QTurn u)
  show thesis
  proof (cases "tc_buffer (topic_of q u)")
    case Nil
    show thesis by (rule that [of None q]) (use assms QTurn Nil in \<open>auto simp: subscription_turn_def open_queue_def\<close>)
  next
    case (Cons m ms)
    let ?q = "AList.update u (topic_of q u\<lparr>tc_buffer := ms\<rparr>) q"
    have t: "qm_topic m = u" "\<forall>m \<in> set ms. qm_topic m = u" using assms Cons unfolding open_queue_def by (metis list.set_intros)+
    have "open_queue ?q" using assms t(2) by (auto simp: open_queue_def topic_of_update)
    moreover have "queue_step x q = Some (Some m, ?q)" using QTurn Cons by (simp add: subscription_turn_def)
    moreover have "bounded t [x] (got_of t got, tc_buffer (topic_of q t)) = (got_of t (got @ [m]), tc_buffer (topic_of ?q t))"
      using QTurn Cons t(1) by (cases "u = t") (simp_all add: topic_of_update got_of_def)
    ultimately show thesis using that [of "Some m" ?q] by simp
  qed
qed

lemma bounded_Cons: "bounded t (x # xs) s = bounded t xs (bounded t [x] s)"
  by (cases x; cases s) simp_all

text \<open>A topic of the queue is a bounded FIFO queue. Whatever is published, subscribed and handled in whatever order, nothing panics before the queue is closed;
  what the subscriptions of a topic have handled and what waits in it is what the list of at most 1000 messages holds, in which a message that comes while
  1000 wait is lost, and no other.\<close>

theorem queue_refines_bounded:
  "\<exists>got q. queue_run ops ([], NewMemoryQueue) = Some (got, q) \<and> bounded t ops ([], []) = (got_of t got, tc_buffer (topic_of q t))"
proof -
  have "open_queue q \<Longrightarrow> \<exists>got' q'. queue_run ops (got, q) = Some (got', q')
      \<and> bounded t ops (got_of t got, tc_buffer (topic_of q t)) = (got_of t got', tc_buffer (topic_of q' t))" for got q
  proof (induction ops arbitrary: got q)
    case (Cons x xs)
    show ?case
      by (rule queue_step_refines [OF Cons.prems, of x t got]) (use Cons.IH bounded_Cons [of t x xs] in auto)
  qed simp
  from this [of NewMemoryQueue "[]"] show ?thesis by (simp add: open_queue_def NewMemoryQueue_def topic_of_def got_of_def)
qed

text \<open>A closed queue ends the process. Closing the queue closes the channels but does not stop the subscriptions: once the messages that wait are handled, the next turn of
  a subscription panics, and so do a publication and a second close.\<close>

theorem closed_queue_panics:
  assumes "queue_Close q = Some q'" and "map_of q t = Some c"
  shows "queue_Publish False send t k v q' = None \<and> queue_Close q' = None \<and> (tc_buffer c = [] \<longrightarrow> subscription_turn t q' = None)"
proof -
  have q: "q' = map (\<lambda>(k, c). (k, c\<lparr>tc_closed := True\<rparr>)) q" using assms(1) by (simp add: queue_Close_def split: if_splits)
  have "map_of q' t = Some (c\<lparr>tc_closed := True\<rparr>)" using assms(2) unfolding q by (induction q) auto
  then have "topic_of q' t = c\<lparr>tc_closed := True\<rparr>" "\<exists>(k, c) \<in> set q'. tc_closed c" by (auto simp: topic_of_def dest!: map_of_SomeD intro!: bexI)
  then show ?thesis by (simp add: queue_Publish_def queue_Close_def subscription_turn_def Let_def)
qed

theorem closed_queue_panics_witness:
  "subscription_turn ''a'' [(''a'', \<lparr>tc_buffer = [], tc_closed = True\<rparr>)] = None"
proof -
  have "queue_Close [(''a'', \<lparr>tc_buffer = [], tc_closed = False\<rparr>)] = Some [(''a'', \<lparr>tc_buffer = [], tc_closed = True\<rparr>)]" by (simp add: queue_Close_def)
  then show ?thesis using closed_queue_panics [where t = "''a''"] by fastforce
qed

end
