(* ===== verification/Bootstrap.thy ===== *)
theory Bootstrap
  imports Memory_Services
begin

text \<open>
  Configuration and start of a service: \<open>common/config/config.go\<close>, \<open>common/db/db.go\<close> and \<open>common/bootstrap\<close>.

  \<open>getenv\<close> is the process environment, \<open>parseDuration\<close> the text of a duration as a number of nanoseconds. \<open>backing\<close> says how the PostgreSQL driver
  and the hook answer. The state of the start is the number of open connection pools; \<open>Setup\<close> registers the cleanups of what it has opened, and
  \<open>Shutdown\<close> runs them in the reverse order. Loggers and the profiling server of the telemetry are left out.

  The lemmas show which configurations are accepted, that a start that succeeds is undone by its shutdown, and which failing starts leave a pool open.
\<close>

section \<open>Configuration\<close>

record service_config =
  sc_Name :: string
  sc_Port :: int
  sc_Environment :: string
  sc_LogLevel :: string
  sc_LogFormat :: string

record database_config =
  dc_Host :: string
  dc_Port :: int
  dc_Database :: string
  dc_User :: string
  dc_Password :: string
  dc_MaxConns :: int
  dc_MinConns :: int
  dc_MaxIdleTime :: int
  dc_MaxLifetime :: int

record cache_config =
  kc_Enabled :: bool
  kc_SizeMB :: int
  kc_DefaultTTL :: int

record queue_config =
  qc_Type :: string
  qc_Brokers :: "string list"
  qc_BatchSize :: int
  qc_LingerMS :: int

record telemetry_config =
  tc_EnablePprof :: bool
  tc_PprofPort :: int
  tc_EnableTracing :: bool
  tc_EnableMetrics :: bool
  tc_MetricsPort :: int
  tc_TracingBackend :: string

record feature_flags =
  ff_EnableKafka :: bool
  ff_EnableK8sRunner :: bool
  ff_EnableWASMOptimizer :: bool
  ff_EnableDistributedCache :: bool

record config =
  cf_Service :: service_config
  cf_Database :: database_config
  cf_Cache :: cache_config
  cf_Queue :: queue_config
  cf_Telemetry :: telemetry_config
  cf_Features :: feature_flags

definition getEnv :: "(string \<Rightarrow> string) \<Rightarrow> string \<Rightarrow> string \<Rightarrow> string" where
  "getEnv getenv key d = (if getenv key \<noteq> '''' then getenv key else d)"

definition getEnvInt :: "(string \<Rightarrow> string) \<Rightarrow> string \<Rightarrow> int \<Rightarrow> int" where
  "getEnvInt getenv key d = (if getenv key \<noteq> '''' then (case atoi (getenv key) of Inr n \<Rightarrow> n | Inl _ \<Rightarrow> d) else d)"

text \<open>\<open>strconv.ParseBool\<close>.\<close>

definition ParseBool :: "string \<Rightarrow> bool option" where
  "ParseBool s = (if s \<in> {''1'', ''t'', ''T'', ''true'', ''TRUE'', ''True''} then Some True
     else if s \<in> {''0'', ''f'', ''F'', ''false'', ''FALSE'', ''False''} then Some False else None)"

definition getEnvBool :: "(string \<Rightarrow> string) \<Rightarrow> string \<Rightarrow> bool \<Rightarrow> bool" where
  "getEnvBool getenv key d = (if getenv key \<noteq> '''' then (case ParseBool (getenv key) of Some b \<Rightarrow> b | None \<Rightarrow> d) else d)"

definition getEnvDuration :: "(string \<Rightarrow> int option) \<Rightarrow> (string \<Rightarrow> string) \<Rightarrow> string \<Rightarrow> int \<Rightarrow> int" where
  "getEnvDuration parseDuration getenv key d = (if getenv key \<noteq> '''' then (case parseDuration (getenv key) of Some n \<Rightarrow> n | None \<Rightarrow> d) else d)"

definition getEnvSlice :: "(string \<Rightarrow> string) \<Rightarrow> string \<Rightarrow> string list \<Rightarrow> string list" where
  "getEnvSlice getenv key d = (if getenv key \<noteq> '''' then [getenv key] else d)"

definition minutes :: "int \<Rightarrow> int" where "minutes n = n * 60 * 1000000000"

definition config_Validate :: "config \<Rightarrow> unit res" where
  "config_Validate c = (if sc_Port (cf_Service c) < 1 \<or> sc_Port (cf_Service c) > 65535 then Inl (''invalid port: '' @ show_int (sc_Port (cf_Service c)))
     else if dc_Host (cf_Database c) = '''' then Inl ''database host is required''
     else if dc_MaxConns (cf_Database c) < dc_MinConns (cf_Database c) then Inl ''max_conns must be >= min_conns''
     else Inr ())"

definition Load_values :: "(string \<Rightarrow> int option) \<Rightarrow> (string \<Rightarrow> string) \<Rightarrow> string \<Rightarrow> config" where
  "Load_values pd ge serviceName = \<lparr>
     cf_Service = \<lparr>sc_Name = serviceName, sc_Port = getEnvInt ge ''PORT'' 8080, sc_Environment = getEnv ge ''ENVIRONMENT'' ''development'',
       sc_LogLevel = getEnv ge ''LOG_LEVEL'' ''info'', sc_LogFormat = getEnv ge ''LOG_FORMAT'' ''text''\<rparr>,
     cf_Database = \<lparr>dc_Host = getEnv ge ''POSTGRES_HOST'' ''localhost'', dc_Port = getEnvInt ge ''POSTGRES_PORT'' 5432,
       dc_Database = getEnv ge ''POSTGRES_DB'' ''orchestrator'', dc_User = getEnv ge ''POSTGRES_USER'' ''orchestrator'',
       dc_Password = getEnv ge ''POSTGRES_PASSWORD'' ''orchestrator'', dc_MaxConns = getEnvInt ge ''POSTGRES_MAX_CONNS'' 50,
       dc_MinConns = getEnvInt ge ''POSTGRES_MIN_CONNS'' 10, dc_MaxIdleTime = getEnvDuration pd ge ''POSTGRES_MAX_IDLE_TIME'' (minutes 30),
       dc_MaxLifetime = getEnvDuration pd ge ''POSTGRES_MAX_LIFETIME'' (minutes 60)\<rparr>,
     cf_Cache = \<lparr>kc_Enabled = getEnvBool ge ''CACHE_ENABLED'' True, kc_SizeMB = getEnvInt ge ''CACHE_SIZE_MB'' 512,
       kc_DefaultTTL = getEnvDuration pd ge ''CACHE_DEFAULT_TTL'' (minutes 60)\<rparr>,
     cf_Queue = \<lparr>qc_Type = getEnv ge ''QUEUE_TYPE'' ''memory'', qc_Brokers = getEnvSlice ge ''KAFKA_BROKERS'' [''localhost:9092''],
       qc_BatchSize = getEnvInt ge ''KAFKA_BATCH_SIZE'' 1000, qc_LingerMS = getEnvInt ge ''KAFKA_LINGER_MS'' 10\<rparr>,
     cf_Telemetry = \<lparr>tc_EnablePprof = getEnvBool ge ''ENABLE_PPROF'' True, tc_PprofPort = getEnvInt ge ''PPROF_PORT'' 6060,
       tc_EnableTracing = getEnvBool ge ''ENABLE_TRACING'' True, tc_EnableMetrics = getEnvBool ge ''ENABLE_METRICS'' True,
       tc_MetricsPort = getEnvInt ge ''METRICS_PORT'' 9090, tc_TracingBackend = getEnv ge ''TRACING_BACKEND'' ''stdout''\<rparr>,
     cf_Features = \<lparr>ff_EnableKafka = getEnvBool ge ''ENABLE_KAFKA'' False, ff_EnableK8sRunner = getEnvBool ge ''ENABLE_K8S_RUNNER'' False,
       ff_EnableWASMOptimizer = getEnvBool ge ''ENABLE_WASM_OPTIMIZER'' False,
       ff_EnableDistributedCache = getEnvBool ge ''ENABLE_DISTRIBUTED_CACHE'' False\<rparr>\<rparr>"

definition config_Load :: "(string \<Rightarrow> int option) \<Rightarrow> (string \<Rightarrow> string) \<Rightarrow> string \<Rightarrow> config res" where
  "config_Load pd ge serviceName = (case config_Validate (Load_values pd ge serviceName) of Inl x \<Rightarrow> Inl x | Inr _ \<Rightarrow> Inr (Load_values pd ge serviceName))"

definition DatabaseURL :: "config \<Rightarrow> string" where
  "DatabaseURL c = (let d = cf_Database c in ''postgres://'' @ dc_User d @ '':'' @ dc_Password d @ ''@'' @ dc_Host d @ '':'' @ show_int (dc_Port d) @ ''/'' @ dc_Database d
     @ ''?sslmode=disable'')"

section \<open>The connection pool\<close>

text \<open>The conversion to \<open>int32\<close> keeps the low 32 bits.\<close>

definition int32 :: "int \<Rightarrow> int" where "int32 n = (n + 2 ^ 31) mod 2 ^ 32 - 2 ^ 31"

record pool_config =
  pl_url :: string
  pl_MaxConns :: int
  pl_MinConns :: int
  pl_MaxConnLifetime :: int
  pl_MaxConnIdleTime :: int

record backing =
  bk_parse :: "string \<Rightarrow> unit res"
  bk_pool :: "pool_config \<Rightarrow> unit res"
  bk_ping :: "nat \<Rightarrow> unit res" \<comment> \<open>the answer to the n-th ping\<close>
  bk_hook :: "unit res"

record service_state =
  sv_pools :: nat
  sv_pings :: nat

definition db_New :: "backing \<Rightarrow> config \<Rightarrow> (service_state, unit res) state" where
  "db_New b c = (case bk_parse b (DatabaseURL c) of Inl x \<Rightarrow> State_Monad.return (Inl (''parse database URL: '' @ x))
     | Inr _ \<Rightarrow> (let d = cf_Database c in
         case bk_pool b \<lparr>pl_url = DatabaseURL c, pl_MaxConns = int32 (dc_MaxConns d), pl_MinConns = int32 (dc_MinConns d),
             pl_MaxConnLifetime = dc_MaxLifetime d, pl_MaxConnIdleTime = dc_MaxIdleTime d\<rparr> of
           Inl x \<Rightarrow> State_Monad.return (Inl (''create connection pool: '' @ x))
         | Inr _ \<Rightarrow> do {
             s \<leftarrow> State_Monad.get;
             State_Monad.set (s\<lparr>sv_pools := Suc (sv_pools s), sv_pings := Suc (sv_pings s)\<rparr>);
             State_Monad.return (case bk_ping b (sv_pings s) of Inl x \<Rightarrow> Inl (''ping database: '' @ x) | Inr _ \<Rightarrow> Inr ())}))"

definition db_Close :: "(service_state, unit) state" where
  "db_Close = State_Monad.update (\<lambda>s. s\<lparr>sv_pools := sv_pools s - 1\<rparr>)"

definition db_Health :: "backing \<Rightarrow> (service_state, unit res) state" where
  "db_Health b = do {
     s \<leftarrow> State_Monad.get;
     State_Monad.set (s\<lparr>sv_pings := Suc (sv_pings s)\<rparr>);
     State_Monad.return (bk_ping b (sv_pings s))}"

section \<open>Start and end of a service\<close>

record setup_options =
  so_skipDB :: bool
  so_skipQueue :: bool
  so_skipCache :: bool
  so_skipTelemetry :: bool
  so_customConfig :: "config option"
  so_dbInitHook :: bool \<comment> \<open>whether a hook is given; \<open>bk_hook\<close> is its answer\<close>

definition defaultOptions :: setup_options where
  "defaultOptions = \<lparr>so_skipDB = False, so_skipQueue = False, so_skipCache = False, so_skipTelemetry = False, so_customConfig = None, so_dbInitHook = False\<rparr>"

definition WithoutDB :: "setup_options \<Rightarrow> setup_options" where "WithoutDB o' = o'\<lparr>so_skipDB := True\<rparr>"
definition WithoutQueue :: "setup_options \<Rightarrow> setup_options" where "WithoutQueue o' = o'\<lparr>so_skipQueue := True\<rparr>"
definition WithoutCache :: "setup_options \<Rightarrow> setup_options" where "WithoutCache o' = o'\<lparr>so_skipCache := True\<rparr>"
definition WithoutTelemetry :: "setup_options \<Rightarrow> setup_options" where "WithoutTelemetry o' = o'\<lparr>so_skipTelemetry := True\<rparr>"
definition WithCustomConfig :: "config \<Rightarrow> setup_options \<Rightarrow> setup_options" where "WithCustomConfig c o' = o'\<lparr>so_customConfig := Some c\<rparr>"
definition WithDBInitHook :: "setup_options \<Rightarrow> setup_options" where "WithDBInitHook o' = o'\<lparr>so_dbInitHook := True\<rparr>"

datatype cleanup_func = CloseDB | CloseQueue | CloseCache

record service_components =
  cp_Config :: config
  cp_DB :: bool
  cp_Queue :: "mqueue option"
  cp_Cache :: "cache option"
  cp_Telemetry :: bool
  cp_cleanupFuncs :: "cleanup_func list"

definition addCleanup :: "cleanup_func \<Rightarrow> service_components \<Rightarrow> service_components" where
  "addCleanup f c = c\<lparr>cp_cleanupFuncs := cp_cleanupFuncs c @ [f]\<rparr>"

text \<open>One cleanup: the components after it, or \<open>None\<close> if it panics. None of the three returns an error.\<close>

fun run_cleanup :: "cleanup_func \<Rightarrow> service_components \<Rightarrow> (service_state, service_components option) state" where
  "run_cleanup CloseDB c = do {_ \<leftarrow> db_Close; State_Monad.return (Some c)}"
| "run_cleanup CloseQueue c = State_Monad.return (case cp_Queue c of None \<Rightarrow> None
     | Some q \<Rightarrow> map_option (\<lambda>q'. c\<lparr>cp_Queue := Some q'\<rparr>) (queue_Close q))"
| "run_cleanup CloseCache c = State_Monad.return (case cp_Cache c of None \<Rightarrow> None | Some m \<Rightarrow> Some (c\<lparr>cp_Cache := Some (cache_Close m)\<rparr>))"

fun run_cleanups :: "cleanup_func list \<Rightarrow> service_components \<Rightarrow> (service_state, service_components option) state" where
  "run_cleanups [] c = State_Monad.return (Some c)"
| "run_cleanups (f # fs) c = do {
     r \<leftarrow> run_cleanup f c;
     (case r of None \<Rightarrow> State_Monad.return None | Some c' \<Rightarrow> run_cleanups fs c')}"

definition Shutdown :: "service_components \<Rightarrow> (service_state, service_components option) state" where
  "Shutdown c = run_cleanups (rev (cp_cleanupFuncs c)) c"

definition Health :: "backing \<Rightarrow> service_components \<Rightarrow> (service_state, unit res) state" where
  "Health b c = (if cp_DB c then do {
       r \<leftarrow> db_Health b;
       State_Monad.return (case r of Inl x \<Rightarrow> Inl (''database unhealthy: '' @ x) | Inr _ \<Rightarrow> Inr ())}
     else State_Monad.return (Inr ()))"

definition setup_db :: "backing \<Rightarrow> setup_options \<Rightarrow> service_components \<Rightarrow> (service_state, service_components res) state" where
  "setup_db b opts c = (if so_skipDB opts then State_Monad.return (Inr c)
     else do {
       r \<leftarrow> db_New b (cp_Config c);
       (case r of Inl x \<Rightarrow> State_Monad.return (Inl (''failed to connect to database: '' @ x))
        | Inr _ \<Rightarrow> (let c' = addCleanup CloseDB (c\<lparr>cp_DB := True\<rparr>) in
            if so_dbInitHook opts then (case bk_hook b of
                Inl x \<Rightarrow> do {_ \<leftarrow> Shutdown c'; State_Monad.return (Inl (''database init hook failed: '' @ x))}
              | Inr _ \<Rightarrow> State_Monad.return (Inr c'))
            else State_Monad.return (Inr c')))})"

definition setup_queue :: "setup_options \<Rightarrow> service_components \<Rightarrow> service_components res" where
  "setup_queue opts c = (if so_skipQueue opts then Inr c
     else let ty = qc_Type (cf_Queue (cp_Config c)) in
       if ty = ''memory'' then Inr (addCleanup CloseQueue (c\<lparr>cp_Queue := Some NewMemoryQueue\<rparr>))
       else if ty = ''kafka'' then Inl ''kafka queue not yet implemented''
       else Inl (''unknown queue type: '' @ ty))"

definition setup_cache :: "setup_options \<Rightarrow> service_components \<Rightarrow> service_components" where
  "setup_cache opts c = (if \<not> so_skipCache opts \<and> kc_Enabled (cf_Cache (cp_Config c))
     then addCleanup CloseCache (c\<lparr>cp_Cache := Some NewMemoryCache\<rparr>) else c)"

definition setup_telemetry :: "setup_options \<Rightarrow> service_components \<Rightarrow> service_components" where
  "setup_telemetry opts c = (if \<not> so_skipTelemetry opts \<and> tc_EnablePprof (cf_Telemetry (cp_Config c)) then c\<lparr>cp_Telemetry := True\<rparr> else c)"

definition Setup :: "(string \<Rightarrow> int option) \<Rightarrow> (string \<Rightarrow> string) \<Rightarrow> backing \<Rightarrow> string \<Rightarrow> setup_options \<Rightarrow> (service_state, service_components res) state" where
  "Setup pd ge b serviceName opts =
    (case (case so_customConfig opts of Some c \<Rightarrow> Inr c | None \<Rightarrow> config_Load pd ge serviceName) of
       Inl x \<Rightarrow> State_Monad.return (Inl (''failed to load config: '' @ x))
     | Inr cfg \<Rightarrow> do {
         r \<leftarrow> setup_db b opts \<lparr>cp_Config = cfg, cp_DB = False, cp_Queue = None, cp_Cache = None, cp_Telemetry = False, cp_cleanupFuncs = []\<rparr>;
         State_Monad.return (case r of Inl x \<Rightarrow> Inl x
           | Inr c \<Rightarrow> (case setup_queue opts c of Inl x \<Rightarrow> Inl x
             | Inr c' \<Rightarrow> Inr (setup_telemetry opts (setup_cache opts c'))))})"

text \<open>\<open>MustSetup\<close>; the left value is the text of the panic.\<close>

definition MustSetup :: "(string \<Rightarrow> int option) \<Rightarrow> (string \<Rightarrow> string) \<Rightarrow> backing \<Rightarrow> string \<Rightarrow> setup_options \<Rightarrow> (service_state, service_components res) state" where
  "MustSetup pd ge b serviceName opts = do {
     r \<leftarrow> Setup pd ge b serviceName opts;
     State_Monad.return (case r of Inl x \<Rightarrow> Inl (''failed to setup service '' @ serviceName @ '': '' @ x) | Inr c \<Rightarrow> Inr c)}"

section \<open>What a start leaves behind\<close>

text \<open>The pool of an accepted configuration. If \<open>Load\<close> accepts the environment, the port is a valid one, a host is named and the pool's lower limit
  does not exceed its upper limit, also after the conversion to 32 bits, as long as the upper limit is a 32-bit number and the lower one is not negative.\<close>

theorem accepted_config:
  assumes "config_Load pd ge name = Inr c"
  shows "1 \<le> sc_Port (cf_Service c) \<and> sc_Port (cf_Service c) \<le> 65535 \<and> dc_Host (cf_Database c) \<noteq> '''' \<and> dc_MinConns (cf_Database c) \<le> dc_MaxConns (cf_Database c)
    \<and> (0 \<le> dc_MinConns (cf_Database c) \<and> dc_MaxConns (cf_Database c) < 2 ^ 31
        \<longrightarrow> int32 (dc_MinConns (cf_Database c)) \<le> int32 (dc_MaxConns (cf_Database c)))"
  using assms by (auto simp: config_Load_def config_Validate_def int32_def split: if_splits)

definition fresh_components :: "config \<Rightarrow> service_components" where
  "fresh_components cfg = \<lparr>cp_Config = cfg, cp_DB = False, cp_Queue = None, cp_Cache = None, cp_Telemetry = False, cp_cleanupFuncs = []\<rparr>"

definition pool_opened :: "backing \<Rightarrow> config \<Rightarrow> bool" where
  "pool_opened b c \<longleftrightarrow> bk_parse b (DatabaseURL c) = Inr () \<and>
     bk_pool b \<lparr>pl_url = DatabaseURL c, pl_MaxConns = int32 (dc_MaxConns (cf_Database c)), pl_MinConns = int32 (dc_MinConns (cf_Database c)),
       pl_MaxConnLifetime = dc_MaxLifetime (cf_Database c), pl_MaxConnIdleTime = dc_MaxIdleTime (cf_Database c)\<rparr> = Inr ()"

lemma db_New_run:
  "run_state (db_New b c) s = (r, s') \<Longrightarrow> sv_pools s' = sv_pools s + (if pool_opened b c then 1 else 0)
     \<and> (r = Inr () \<longleftrightarrow> pool_opened b c \<and> bk_ping b (sv_pings s) = Inr ())"
  by (auto simp: db_New_def pool_opened_def Let_def split: sum.splits)

definition hook_fails :: "backing \<Rightarrow> setup_options \<Rightarrow> bool" where
  "hook_fails b opts \<longleftrightarrow> so_dbInitHook opts \<and> bk_hook b \<noteq> Inr ()"

lemma setup_db_run:
  assumes "run_state (setup_db b opts (fresh_components cfg)) s = (r, s')"
  shows "case r of Inr c \<Rightarrow> c = (fresh_components cfg)\<lparr>cp_DB := \<not> so_skipDB opts, cp_cleanupFuncs := (if so_skipDB opts then [] else [CloseDB])\<rparr>
        \<and> sv_pools s' = sv_pools s + (if so_skipDB opts then 0 else 1) \<and> (\<not> so_skipDB opts \<longrightarrow> pool_opened b cfg \<and> bk_ping b (sv_pings s) = Inr () \<and> \<not> hook_fails b opts)
     | Inl _ \<Rightarrow> \<not> so_skipDB opts
        \<and> sv_pools s' = sv_pools s + (if pool_opened b cfg \<and> \<not> (bk_ping b (sv_pings s) = Inr () \<and> hook_fails b opts) then 1 else 0)"
proof (cases "so_skipDB opts")
  case True
  then show ?thesis using assms by (auto simp: setup_db_def fresh_components_def)
next
  case False
  obtain x s1 where x: "run_state (db_New b cfg) s = (x, s1)" by (cases "run_state (db_New b cfg) s")
  note y = db_New_run [OF x]
  show ?thesis
  proof (cases x)
    case (Inl e)
    then show ?thesis using assms False x y by (auto simp: setup_db_def fresh_components_def)
  next
    case (Inr u)
    then show ?thesis using assms False x y
      by (auto simp: setup_db_def fresh_components_def addCleanup_def hook_fails_def Shutdown_def db_Close_def Let_def split: sum.splits if_splits)
  qed
qed

text \<open>The configuration that a start uses.\<close>

definition setup_config :: "(string \<Rightarrow> int option) \<Rightarrow> (string \<Rightarrow> string) \<Rightarrow> string \<Rightarrow> setup_options \<Rightarrow> config res" where
  "setup_config pd ge name opts = (case so_customConfig opts of Some c \<Rightarrow> Inr c | None \<Rightarrow> config_Load pd ge name)"

lemma Setup_cases:
  assumes "run_state (Setup pd ge b name opts) s = (r, s')" and "setup_config pd ge name opts = Inr cfg"
  obtains x where "run_state (setup_db b opts (fresh_components cfg)) s = (x, s')"
    "r = (case x of Inl e \<Rightarrow> Inl e | Inr c \<Rightarrow> (case setup_queue opts c of Inl e \<Rightarrow> Inl e | Inr c' \<Rightarrow> Inr (setup_telemetry opts (setup_cache opts c'))))"
  using assms by (cases "run_state (setup_db b opts (fresh_components cfg)) s") (auto simp: Setup_def setup_config_def fresh_components_def)

lemma set_update: "set (AList.update k v xs) \<subseteq> insert (k, v) (set xs)"
  by (induction xs) auto

definition unclosed :: "mqueue \<Rightarrow> bool" where "unclosed q \<longleftrightarrow> (\<forall>(k, c) \<in> set q. \<not> tc_closed c)"

lemma unclosed_update: "\<not> tc_closed c \<Longrightarrow> unclosed q \<Longrightarrow> unclosed (AList.update k c q)"
  using set_update [of k c q] unfolding unclosed_def by blast

lemma topic_of_unclosed: "unclosed q \<Longrightarrow> \<not> tc_closed (topic_of q t)"
  by (auto simp: unclosed_def topic_of_def split: option.split dest!: map_of_SomeD)

lemma queue_step_unclosed:
  assumes "queue_step x q = Some (m, q1)" and "unclosed q"
  shows "unclosed q1"
proof (cases x)
  case (QPublish v k w)
  then show ?thesis using assms topic_of_unclosed [OF assms(2)] by (auto simp: queue_Publish_def Let_def intro!: unclosed_update split: if_splits)
next
  case (QSubscribe v)
  then show ?thesis using assms topic_of_unclosed [OF assms(2)] by (auto simp: queue_Subscribe_def intro!: unclosed_update)
next
  case (QTurn v)
  then show ?thesis using assms topic_of_unclosed [OF assms(2)] by (auto simp: subscription_turn_def Let_def intro!: unclosed_update split: list.splits if_splits)
qed

lemma used_queue_closes:
  "queue_run ops (got, q) = Some (got', q') \<Longrightarrow> unclosed q \<Longrightarrow> \<exists>q''. queue_Close q' = Some q''"
proof (induction ops arbitrary: got q)
  case Nil
  then show ?case by (auto simp: queue_Close_def unclosed_def)
next
  case (Cons x xs)
  then show ?case using queue_step_unclosed by (auto split: option.splits prod.splits)
qed

text \<open>A start is undone by its shutdown. If \<open>Setup\<close> succeeds, it has opened one connection pool unless the database is skipped; after any use of the queue,
  \<open>Shutdown\<close> does not panic and closes the cache, the queue and the pool, so that as many pools are open as before.\<close>

theorem shutdown_undoes_setup:
  assumes "run_state (Setup pd ge b name opts) s = (Inr c, s1)" and "queue_run ops ([], NewMemoryQueue) = Some (got, q)"
  shows "sv_pools s1 = sv_pools s + (if so_skipDB opts then 0 else 1) \<and> (\<exists>c' s2.
    run_state (Shutdown (if cp_Queue c = None then c else c\<lparr>cp_Queue := Some q\<rparr>)) s1 = (Some c', s2) \<and> sv_pools s2 = sv_pools s)"
proof -
  obtain cfg where cfg: "setup_config pd ge name opts = Inr cfg" using assms(1) by (cases "setup_config pd ge name opts") (auto simp: Setup_def setup_config_def)
  obtain x where x: "run_state (setup_db b opts (fresh_components cfg)) s = (x, s1)"
    "Inr c = (case x of Inl e \<Rightarrow> Inl e | Inr c \<Rightarrow> (case setup_queue opts c of Inl e \<Rightarrow> Inl e | Inr c' \<Rightarrow> Inr (setup_telemetry opts (setup_cache opts c'))))"
    by (rule Setup_cases [OF assms(1) cfg])
  obtain c1 where c1: "x = Inr c1" using x(2) by (cases x) auto
  note d = setup_db_run [OF x(1)]
  obtain q' where q': "queue_Close q = Some q'" using used_queue_closes [OF assms(2)] by (auto simp: NewMemoryQueue_def unclosed_def)
  show ?thesis using d x(2) c1 q'
    by (auto simp: setup_queue_def setup_cache_def setup_telemetry_def addCleanup_def fresh_components_def Shutdown_def db_Close_def Let_def split: if_splits)
qed

text \<open>Which failing starts leave a pool open. A start that fails has closed what it opened only if nothing was opened or the hook failed; when the
  first ping fails, or the queue has a type other than \<open>memory\<close>, the connection pool stays open.\<close>

theorem failed_setup_pools:
  assumes "run_state (Setup pd ge b name opts) s = (Inl err, s1)" and "setup_config pd ge name opts = Inr cfg"
  shows "sv_pools s1 = sv_pools s + (if \<not> so_skipDB opts \<and> pool_opened b cfg \<and> \<not> (bk_ping b (sv_pings s) = Inr () \<and> hook_fails b opts) then 1 else 0)"
proof -
  obtain x where "run_state (setup_db b opts (fresh_components cfg)) s = (x, s1)" by (rule Setup_cases [OF assms])
  from setup_db_run [OF this] show ?thesis by (auto split: sum.splits)
qed

definition sound_backing :: backing where
  "sound_backing = \<lparr>bk_parse = (\<lambda>_. Inr ()), bk_pool = (\<lambda>_. Inr ()), bk_ping = (\<lambda>_. Inr ()), bk_hook = Inr ()\<rparr>"

definition kafka_env :: "string \<Rightarrow> string" where
  "kafka_env k = (if k = ''QUEUE_TYPE'' then ''kafka'' else '''')"

theorem accepted_config_witness:
  "1 \<le> sc_Port (cf_Service (Load_values (\<lambda>_. None) (\<lambda>_. '''') ''orchestrator''))"
proof -
  have "config_Load (\<lambda>_. None) (\<lambda>_. '''') ''orchestrator'' = Inr (Load_values (\<lambda>_. None) (\<lambda>_. '''') ''orchestrator'')"
    by (simp add: config_Load_def config_Validate_def Load_values_def getEnv_def getEnvInt_def)
  then show ?thesis using accepted_config by blast
qed

theorem shutdown_undoes_setup_witness:
  "\<exists>c s1 c' s2. run_state (Setup (\<lambda>_. None) (\<lambda>_. '''') sound_backing ''orchestrator'' defaultOptions) \<lparr>sv_pools = 0, sv_pings = 0\<rparr> = (Inr c, s1)
     \<and> sv_pools s1 = 1 \<and> run_state (Shutdown c) s1 = (Some c', s2) \<and> sv_pools s2 = 0"
proof -
  let ?s = "\<lparr>sv_pools = 0, sv_pings = 0\<rparr>"
  have "case fst (run_state (Setup (\<lambda>_. None) (\<lambda>_. '''') sound_backing ''orchestrator'' defaultOptions) ?s) of Inl _ \<Rightarrow> False | Inr c \<Rightarrow> cp_Queue c = Some []" by (simp add: Setup_def config_Load_def config_Validate_def Load_values_def getEnv_def getEnvInt_def getEnvBool_def setup_db_def db_New_def sound_backing_def defaultOptions_def setup_queue_def setup_cache_def setup_telemetry_def addCleanup_def kafka_env_def NewMemoryQueue_def)
  then obtain c s1 where 1: "run_state (Setup (\<lambda>_. None) (\<lambda>_. '''') sound_backing ''orchestrator'' defaultOptions) ?s = (Inr c, s1)" "cp_Queue c = Some []"
    by (cases "run_state (Setup (\<lambda>_. None) (\<lambda>_. '''') sound_backing ''orchestrator'' defaultOptions) ?s") (auto split: sum.splits)
  have c: "c\<lparr>cp_Queue := Some []\<rparr> = c" using 1(2) by (cases c) simp
  show ?thesis using shutdown_undoes_setup [OF 1(1), of "[]" "[]" "[]"] 1(1) unfolding 1(2) NewMemoryQueue_def by (auto simp: c defaultOptions_def)
qed

theorem failed_setup_pools_witness:
  "\<exists>err s1. run_state (Setup (\<lambda>_. None) kafka_env sound_backing ''orchestrator'' defaultOptions) \<lparr>sv_pools = 0, sv_pings = 0\<rparr> = (Inl err, s1) \<and> sv_pools s1 = 1"
proof -
  let ?s = "\<lparr>sv_pools = 0, sv_pings = 0\<rparr>" and ?m = "Setup (\<lambda>_. None) kafka_env sound_backing ''orchestrator'' defaultOptions"
  have "case fst (run_state ?m ?s) of Inl _ \<Rightarrow> True | Inr c \<Rightarrow> False" by (simp add: Setup_def config_Load_def config_Validate_def Load_values_def getEnv_def getEnvInt_def getEnvBool_def setup_db_def db_New_def sound_backing_def defaultOptions_def setup_queue_def setup_cache_def setup_telemetry_def addCleanup_def kafka_env_def NewMemoryQueue_def)
  then obtain err s1 where 1: "run_state ?m ?s = (Inl err, s1)" by (cases "run_state ?m ?s") (auto split: sum.splits)
  have "setup_config (\<lambda>_. None) kafka_env ''orchestrator'' defaultOptions = Inr (Load_values (\<lambda>_. None) kafka_env ''orchestrator'')"
    by (simp add: setup_config_def defaultOptions_def config_Load_def config_Validate_def Load_values_def getEnv_def getEnvInt_def kafka_env_def)
  from failed_setup_pools [OF 1 this] 1 show ?thesis by (auto simp: pool_opened_def sound_backing_def hook_fails_def defaultOptions_def)
qed

end
